(* ===== verification/Prelude.thy ===== *)
theory Prelude
  imports Main
begin

text \<open>
  Shared vocabulary of the development: the machine integers, instants and
  durations of the Go program, its error results, and the generic facts on lists
  and maps that several components use.

  Go's \<open>int\<close>, \<open>int64\<close> and \<open>time.Duration\<close> are signed 64-bit values (64-bit
  build). They are represented by the mathematical integer they denote; every
  addition, subtraction or multiplication whose result can leave the range is
  wrapped by \<open>i64\<close>, and the \<open>uint64\<close> counters by \<open>u64\<close>. An instant is the
  number of nanoseconds since 0001-01-01 00:00:00 UTC, so that Go's zero time is
  the instant 0.
\<close>

named_theorems codec \<open>facts that evaluate a definition on a concrete input\<close>

type_synonym duration = int
type_synonym instant = int
type_synonym uint = nat

section \<open>Machine integers\<close>

definition i64 :: "int \<Rightarrow> int" where
  "i64 x = (x + 2 ^ 63) mod 2 ^ 64 - 2 ^ 63"

definition u64 :: "int \<Rightarrow> int" where
  "u64 x = x mod 2 ^ 64"

abbreviation min_i64 :: int where
  "min_i64 \<equiv> - (2 ^ 63)"

abbreviation max_i64 :: int where
  "max_i64 \<equiv> 2 ^ 63 - 1"

abbreviation in_i64 :: "int \<Rightarrow> bool" where
  "in_i64 x \<equiv> min_i64 \<le> x \<and> x \<le> max_i64"

lemma i64_id [simp]: "in_i64 x \<Longrightarrow> i64 x = x"
  by (simp add: i64_def)

lemma i64_range: "in_i64 (i64 x)"
proof -
  have "0 \<le> (x + 2 ^ 63) mod 2 ^ 64 \<and> (x + 2 ^ 63) mod 2 ^ 64 < (2 ^ 64 :: int)"
    by simp
  then show ?thesis by (simp add: i64_def)
qed

lemma i64_idem [simp]: "i64 (i64 x) = i64 x"
  using i64_range [of x] by simp

lemma i64_eq_iff: "i64 x = i64 y \<longleftrightarrow> 2 ^ 64 dvd x - y"
  by (simp add: i64_def mod_eq_dvd_iff)

lemma i64_add_cong: "i64 x = i64 y \<Longrightarrow> i64 (x + m) = i64 (y + m)"
  by (simp add: i64_eq_iff)

lemma u64_id [simp]: "0 \<le> x \<Longrightarrow> x < 2 ^ 64 \<Longrightarrow> u64 x = x"
  by (simp add: u64_def)

lemma u64_add: "u64 (u64 x + y) = u64 (x + y)"
  by (simp add: u64_def mod_add_left_eq)

text \<open>Go's integer division and remainder truncate towards zero.\<close>

definition go_div :: "int \<Rightarrow> int \<Rightarrow> int" where
  "go_div a b = sgn a * sgn b * (\<bar>a\<bar> div \<bar>b\<bar>)"

definition go_mod :: "int \<Rightarrow> int \<Rightarrow> int" where
  "go_mod a b = a - b * go_div a b"

lemma go_div_nonneg: "0 \<le> a \<Longrightarrow> 0 < b \<Longrightarrow> go_div a b = a div b"
  by (cases "a = 0") (simp_all add: go_div_def sgn_if)

lemma go_mod_nonneg: "0 \<le> a \<Longrightarrow> 0 < b \<Longrightarrow> go_mod a b = a mod b"
  by (simp add: go_mod_def go_div_nonneg minus_mult_div_eq_mod)

section \<open>Instants and durations\<close>

definition second :: duration where
  "second = 1000000000"

definition minute :: duration where
  "minute = 60 * second"

lemma second_value [simp, codec]: "second = 1000000000"
  by (simp add: second_def)

lemma minute_value [simp, codec]: "minute = 60000000000"
  by (simp add: minute_def)

text \<open>\<open>t.Sub(u)\<close> saturates at the ends of the duration range.\<close>

definition time_sub :: "instant \<Rightarrow> instant \<Rightarrow> duration" where
  "time_sub t u = max min_i64 (min max_i64 (t - u))"

lemma time_sub_exact: "in_i64 (t - u) \<Longrightarrow> time_sub t u = t - u"
  by (simp add: time_sub_def)

lemma time_sub_range: "in_i64 (time_sub t u)"
  by (simp add: time_sub_def)

lemma time_sub_ge_iff: "in_i64 d \<Longrightarrow> d \<noteq> min_i64 \<Longrightarrow> d \<le> time_sub t u \<longleftrightarrow> d \<le> t - u"
  by (auto simp: time_sub_def)

lemma time_sub_self [simp]: "time_sub t t = 0"
  by (simp add: time_sub_def)

section \<open>Lists\<close>

lemma sum_list_filter_split:
  "sum_list (map f (filter P xs)) =
     sum_list (map f (filter (\<lambda>x. P x \<and> Q x) xs)) +
     sum_list (map f (filter (\<lambda>x. P x \<and> \<not> Q x) xs))"
  for f :: "'a \<Rightarrow> 'b::comm_monoid_add"
  by (induction xs) (auto simp: ac_simps)

lemma sum_list_nonneg_map: "(\<And>x. x \<in> set xs \<Longrightarrow> 0 \<le> f x) \<Longrightarrow> 0 \<le> sum_list (map f xs)"
  for f :: "'a \<Rightarrow> int"
  by (induction xs) auto

lemma length_filter_prefix:
  assumes "m \<le> length xs" "\<And>i. i < m \<Longrightarrow> P (xs ! i)"
    "\<And>i. m \<le> i \<Longrightarrow> i < length xs \<Longrightarrow> \<not> P (xs ! i)"
  shows "length (filter P xs) = m"
proof -
  have "filter P (take m xs) = take m xs"
    using assms(1,2) by (auto simp: in_set_conv_nth intro!: filter_True)
  moreover have "filter P (drop m xs) = []"
    using assms(1,3) by (auto simp: filter_empty_conv in_set_conv_nth)
  ultimately have "filter P (take m xs @ drop m xs) = take m xs"
    by (simp only: filter_append append_Nil2)
  then show ?thesis using assms(1) by simp
qed

lemma filter_length_strict:
  "(\<And>x. x \<in> set xs \<Longrightarrow> P x \<Longrightarrow> Q x) \<Longrightarrow> y \<in> set xs \<Longrightarrow> Q y \<Longrightarrow> \<not> P y \<Longrightarrow>
     length (filter P xs) < length (filter Q xs)"
proof (induction xs)
  case Nil
  then show ?case by simp
next
  case (Cons x xs)
  have le: "length (filter P xs) \<le> length (filter Q xs)"
    using Cons.prems(1) by (induction xs) (auto intro: le_SucI)
  then show ?case using Cons by (cases "x = y") (auto simp: le_imp_less_Suc)
qed

lemma nth_update_at: "j < length xs \<Longrightarrow> xs[i := x] ! j = (if i = j then x else xs ! j)"
  by (cases "i = j") simp_all

text \<open>The first \<open>n\<close> elements, for a machine integer \<open>n\<close>.\<close>

fun take_int :: "int \<Rightarrow> 'a list \<Rightarrow> 'a list" where
  "take_int n [] = []"
| "take_int n (x # xs) = (if n \<le> 0 then [] else x # take_int (n - 1) xs)"

lemma take_int_take: "take_int n xs = take (nat n) xs"
proof (induction n xs rule: take_int.induct)
  case (2 n x xs)
  then show ?case by (cases "nat n") (auto simp: nat_diff_distrib)
qed simp

end
