(* ===== verification/Text.thy ===== *)
theory Text
  imports Prelude
begin

text \<open>
  The text conversions of Go's \<open>strconv\<close> and \<open>strings\<close> the program uses: decimal printing
  (\<open>Itoa\<close>, \<open>FormatInt\<close>), decimal parsing with its range check (\<open>ParseInt\<close>, and \<open>Atoi\<close> on a
  64-bit build), and trimming.
\<close>

section \<open>Decimal numbers\<close>

definition digit_char :: "nat \<Rightarrow> char" where
  "digit_char d = char_of (48 + d)"

definition digit_value :: "char \<Rightarrow> nat option" where
  "digit_value c = (let n = of_char c :: nat in if 48 \<le> n \<and> n \<le> 57 then Some (n - 48) else None)"

fun decimal :: "nat \<Rightarrow> string" where
  "decimal n = (if n < 10 then [digit_char n] else decimal (n div 10) @ [digit_char (n mod 10)])"

declare decimal.simps [simp del]

definition Itoa :: "int \<Rightarrow> string" where
  "Itoa n = (if n < 0 then CHR ''-'' # decimal (nat (- n)) else decimal (nat n))"

fun digits_from :: "int \<Rightarrow> string \<Rightarrow> int option" where
  "digits_from acc [] = Some acc"
| "digits_from acc (c # cs) =
     (case digit_value c of None \<Rightarrow> None | Some d \<Rightarrow> digits_from (acc * 10 + int d) cs)"

definition digits :: "string \<Rightarrow> int option" where
  "digits s = (if s = [] then None else digits_from 0 s)"

text \<open>A sign is optional; the error of a value out of range is not told from a syntax error,
  which no caller does either.\<close>

definition ParseInt :: "string \<Rightarrow> int option" where
  "ParseInt s =
     (let r = (case s of
                 c # cs \<Rightarrow> if c = CHR ''-'' then map_option uminus (digits cs)
                          else if c = CHR ''+'' then digits cs else digits s
               | [] \<Rightarrow> None)
      in case r of Some n \<Rightarrow> (if in_i64 n then Some n else None) | None \<Rightarrow> None)"

lemma digit_value_char [simp]: "d < 10 \<Longrightarrow> digit_value (digit_char d) = Some d"
  by (simp add: digit_value_def digit_char_def Let_def)

lemma digits_from_append:
  "digits_from acc (xs @ ys) = Option.bind (digits_from acc xs) (\<lambda>a. digits_from a ys)"
  by (induction xs arbitrary: acc) (auto split: option.split)

lemma digits_decimal: "digits_from 0 (decimal n) = Some (int n)"
proof (induction n rule: decimal.induct)
  case (1 n)
  show ?case
  proof (cases "n < 10")
    case True
    then show ?thesis by (simp add: decimal.simps [of n])
  next
    case False
    have "int (n div 10) * 10 + int (n mod 10) = int n"
      by presburger
    with False 1 show ?thesis
      by (simp add: decimal.simps [of n] digits_from_append)
  qed
qed

lemma decimal_not_Nil [simp]: "decimal n \<noteq> []"
  by (subst decimal.simps) simp

lemma decimal_head: "\<exists>d < 10. \<exists>cs. decimal n = digit_char d # cs"
proof (induction n rule: decimal.induct)
  case (1 n)
  show ?case
  proof (cases "n < 10")
    case True
    then have "decimal n = [digit_char n]" by (simp add: decimal.simps [of n])
    with True show ?thesis by blast
  next
    case False
    with 1 show ?thesis by (fastforce simp: decimal.simps [of n])
  qed
qed

lemma digit_char_not_sign: "d < 10 \<Longrightarrow> digit_char d \<noteq> CHR ''-'' \<and> digit_char d \<noteq> CHR ''+''"
  by (auto simp: digit_char_def dest!: arg_cong [of _ _ "of_char :: char \<Rightarrow> nat"])

lemma ParseInt_Itoa [simp]: "in_i64 n \<Longrightarrow> ParseInt (Itoa n) = Some n"
proof -
  assume n: "in_i64 n"
  have dec: "digits (decimal m) = Some (int m)" for m
    by (simp add: digits_def digits_decimal)
  show ?thesis
  proof (cases "n < 0")
    case True
    with n show ?thesis by (simp add: Itoa_def ParseInt_def dec Let_def)
  next
    case False
    obtain d cs where "d < 10" "decimal (nat n) = digit_char d # cs" using decimal_head by blast
    with False n dec [of "nat n"] show ?thesis
      by (simp add: Itoa_def ParseInt_def Let_def digit_char_not_sign)
  qed
qed

lemma decimal_inj: "decimal m = decimal n \<Longrightarrow> m = n"
proof -
  assume "decimal m = decimal n"
  then have "digits (decimal m) = digits (decimal n)" by simp
  then show "m = n" by (simp add: digits_def digits_decimal)
qed

lemma Itoa_inj: "Itoa m = Itoa n \<longleftrightarrow> m = n"
proof
  assume eq: "Itoa m = Itoa n"
  obtain c cs d ds where "decimal (nat m) = digit_char c # cs" "c < 10" "decimal (nat n) = digit_char d # ds" "d < 10"
    using decimal_head by metis
  then have "(m < 0) = (n < 0)" using eq digit_char_not_sign by (auto simp: Itoa_def split: if_splits)
  with eq show "m = n" by (auto simp: Itoa_def dest!: decimal_inj split: if_splits)
qed simp

lemma ParseInt_range: "ParseInt s = Some n \<Longrightarrow> in_i64 n"
  by (auto simp: ParseInt_def Let_def split: option.splits if_splits)

section \<open>Trimming\<close>

text \<open>\<open>strings.TrimSpace\<close> on ASCII white space.\<close>

definition is_space :: "char \<Rightarrow> bool" where
  "is_space c \<longleftrightarrow> of_char c \<in> ({9, 10, 11, 12, 13, 32} :: nat set)"

definition TrimSpace :: "string \<Rightarrow> string" where
  "TrimSpace s = rev (dropWhile is_space (rev (dropWhile is_space s)))"

definition HasPrefix :: "string \<Rightarrow> string \<Rightarrow> bool" where
  "HasPrefix s p \<longleftrightarrow> take (length p) s = p"

definition TrimPrefix :: "string \<Rightarrow> string \<Rightarrow> string" where
  "TrimPrefix s p = (if HasPrefix s p then drop (length p) s else s)"

text \<open>\<open>strings.TrimRight(s, "/")\<close>.\<close>

definition TrimRight :: "string \<Rightarrow> char \<Rightarrow> string" where
  "TrimRight s c = rev (dropWhile (\<lambda>x. x = c) (rev s))"

end
