(* ===== verification/Json.thy ===== *)
theory Json
  imports Text
begin

text \<open>
  JSON documents as Go's \<open>encoding/json\<close> presents them to the program: a value, the tokens a
  \<open>Decoder\<close> reads from it, the case-insensitive match of a key with a field name, and the
  storing of a value into an \<open>int64\<close> field. Parsing the text itself is left to the library.
\<close>

section \<open>Values and tokens\<close>

datatype json =
  JNull | JBool bool | JNum string | JStr string | JArr "json list" | JObj "(string \<times> json) list"

datatype token = Delim char | TStr string | TNum string | TBool bool | TNull

fun tokens :: "json \<Rightarrow> token list" where
  "tokens JNull = [TNull]"
| "tokens (JBool b) = [TBool b]"
| "tokens (JNum n) = [TNum n]"
| "tokens (JStr s) = [TStr s]"
| "tokens (JArr xs) = Delim CHR ''['' # concat (map tokens xs) @ [Delim CHR '']'']"
| "tokens (JObj fs) =
     Delim CHR ''{'' # concat (map (\<lambda>f. TStr (fst f) # tokens (snd f)) fs) @ [Delim CHR ''}'']"

definition opens :: "char \<Rightarrow> bool" where
  "opens c \<longleftrightarrow> c = CHR ''['' \<or> c = CHR ''{''"

definition closes :: "char \<Rightarrow> bool" where
  "closes c \<longleftrightarrow> c = CHR '']'' \<or> c = CHR ''}''"

text \<open>\<open>Decoder.More\<close>: something follows that does not close the current value.\<close>

fun has_more :: "token list \<Rightarrow> bool" where
  "has_more [] = False"
| "has_more (Delim c # ts) = (\<not> closes c)"
| "has_more (t # ts) = True"

fun is_number :: "json \<Rightarrow> bool" where
  "is_number (JNum n) = True"
| "is_number _ = False"

section \<open>Field names\<close>

text \<open>\<open>foldName\<close>: upper case, where the long s and the Kelvin sign, in UTF-8, fold to the
  letters they resemble; no other rune folds to an ASCII letter.\<close>

definition fold_char :: "char \<Rightarrow> char" where
  "fold_char c = (let n = of_char c :: nat in if 97 \<le> n \<and> n \<le> 122 then char_of (n - 32) else c)"

fun fold_name :: "string \<Rightarrow> string" where
  "fold_name (a # b # c # cs) =
     (if a = CHR 0xE2 \<and> b = CHR 0x84 \<and> c = CHR 0xAA then CHR ''K'' # fold_name cs
      else if a = CHR 0xC5 \<and> b = CHR 0xBF then CHR ''S'' # fold_name (c # cs)
      else fold_char a # fold_name (b # c # cs))"
| "fold_name [a, b] =
     (if a = CHR 0xC5 \<and> b = CHR 0xBF then ''S'' else [fold_char a, fold_char b])"
| "fold_name [a] = [fold_char a]"
| "fold_name [] = []"

definition names :: "string \<Rightarrow> string \<Rightarrow> bool" where
  "names key field \<longleftrightarrow> fold_name key = fold_name field"

section \<open>Storing a value in an int64\<close>

text \<open>The new value of the field, and whether the decoder records a type error.\<close>

fun store_int64 :: "json \<Rightarrow> int \<Rightarrow> int \<times> bool" where
  "store_int64 JNull old = (old, False)"
| "store_int64 (JNum lit) old =
     (case ParseInt lit of Some n \<Rightarrow> (n, False) | None \<Rightarrow> (old, True))"
| "store_int64 _ old = (old, True)"

lemma store_int64_range: "in_i64 old \<Longrightarrow> in_i64 (fst (store_int64 v old))"
  by (cases v) (auto split: option.split dest: ParseInt_range)

end
