(* ===== verification/JsonText.thy ===== *)
theory JsonText
  imports Json
begin

text \<open>
  The text of JSON documents as Go's \<open>encoding/json\<close> reads and writes it, on bytes: the scanner's
  grammar with its limit on nesting, the decoding of string literals with escapes, surrogate
  pairs and the replacement of invalid UTF-8, and the compact encoding with HTML escapes that
  \<open>Marshal\<close> and \<open>Encoder\<close> write. What is written is read back.
\<close>

abbreviation code :: "char \<Rightarrow> nat" where
  "code \<equiv> of_char"

section \<open>Numbers\<close>

definition is_digit :: "char \<Rightarrow> bool" where
  "is_digit c \<longleftrightarrow> 48 \<le> code c \<and> code c \<le> 57"

definition lex_int :: "string \<Rightarrow> (string \<times> string) option" where
  "lex_int s =
     (case s of
        [] \<Rightarrow> None
      | c # cs \<Rightarrow>
          if c = CHR ''0'' then Some ([c], cs)
          else if is_digit c then Some (takeWhile is_digit s, dropWhile is_digit s) else None)"

definition lex_digits :: "string \<Rightarrow> string \<Rightarrow> (string \<times> string) option" where
  "lex_digits pre s = (if takeWhile is_digit s = [] then None else Some (pre @ takeWhile is_digit s, dropWhile is_digit s))"

definition lex_frac :: "string \<Rightarrow> (string \<times> string) option" where
  "lex_frac s =
     (case s of
        c # cs \<Rightarrow> if c = CHR ''.'' then lex_digits [c] cs else Some ([], s)
      | [] \<Rightarrow> Some ([], []))"

definition lex_exp :: "string \<Rightarrow> (string \<times> string) option" where
  "lex_exp s =
     (case s of
        c # cs \<Rightarrow>
          if c = CHR ''e'' \<or> c = CHR ''E''
          then (case cs of
                  [] \<Rightarrow> None
                | d # ds \<Rightarrow> if d = CHR ''+'' \<or> d = CHR ''-'' then lex_digits [c, d] ds else lex_digits [c] cs)
          else Some ([], s)
      | [] \<Rightarrow> Some ([], []))"

definition lex_unsigned :: "string \<Rightarrow> (string \<times> string) option" where
  "lex_unsigned s =
     (case lex_int s of
        None \<Rightarrow> None
      | Some (a, s1) \<Rightarrow>
          (case lex_frac s1 of
             None \<Rightarrow> None
           | Some (b, s2) \<Rightarrow> map_option (\<lambda>(c, s3). (a @ b @ c, s3)) (lex_exp s2)))"

definition lex_number :: "string \<Rightarrow> (string \<times> string) option" where
  "lex_number s =
     (case s of
        c # cs \<Rightarrow> if c = CHR ''-'' then map_option (\<lambda>(a, r). (c # a, r)) (lex_unsigned cs) else lex_unsigned s
      | [] \<Rightarrow> None)"

section \<open>UTF-8\<close>

text \<open>How many bytes the rune at the front takes, 0 if there is none that is valid.\<close>

definition between :: "nat \<Rightarrow> nat \<Rightarrow> char \<Rightarrow> bool" where
  "between lo hi c \<longleftrightarrow> lo \<le> code c \<and> code c \<le> hi"

abbreviation continuation :: "char \<Rightarrow> bool" where
  "continuation \<equiv> between 0x80 0xBF"

definition lead_width :: "nat \<Rightarrow> nat" where
  "lead_width n =
     (if n < 0x80 then 1 else if n < 0xC2 then 0 else if n < 0xE0 then 2 else if n < 0xF0 then 3
      else if n < 0xF5 then 4 else 0)"

definition second_byte :: "nat \<Rightarrow> char \<Rightarrow> bool" where
  "second_byte n =
     between (if n = 0xE0 then 0xA0 else if n = 0xF0 then 0x90 else 0x80)
       (if n = 0xED then 0x9F else if n = 0xF4 then 0x8F else 0xBF)"

definition utf8_width :: "string \<Rightarrow> nat" where
  "utf8_width s =
     (case s of
        [] \<Rightarrow> 0
      | a # r \<Rightarrow>
          let k = lead_width (code a) in
          if k \<le> 1 then k
          else if k \<le> length s \<and> second_byte (code a) (hd r) \<and> list_all continuation (take (k - 1) r)
          then k else 0)"

definition utf8_encode :: "nat \<Rightarrow> string" where
  "utf8_encode n =
     (if n < 0x80 then [char_of n]
      else if n < 0x800 then [char_of (0xC0 + n div 64), char_of (0x80 + n mod 64)]
      else if n < 0x10000
      then [char_of (0xE0 + n div 4096), char_of (0x80 + n div 64 mod 64), char_of (0x80 + n mod 64)]
      else [char_of (0xF0 + n div 262144), char_of (0x80 + n div 4096 mod 64), char_of (0x80 + n div 64 mod 64),
            char_of (0x80 + n mod 64)])"

definition replacement :: nat where
  "replacement = 0xFFFD"

lemma utf8_width_le: "utf8_width s \<le> length s"
  by (cases s) (auto simp: utf8_width_def Let_def)

lemma utf8_width_append:
  assumes "0 < utf8_width s"
  shows "utf8_width (s @ r) = utf8_width s"
proof (cases s)
  case (Cons a t)
  show ?thesis
  proof (cases "lead_width (code a) \<le> 1")
    case False
    with assms have "lead_width (code a) - 1 \<le> length t" "t \<noteq> []"
      by (auto simp: utf8_width_def Cons Let_def split: if_splits)
    then show ?thesis by (auto simp: utf8_width_def Cons Let_def)
  qed (simp add: utf8_width_def Cons)
qed (use assms in \<open>simp add: utf8_width_def\<close>)

section \<open>String literals\<close>

definition hex_value :: "char \<Rightarrow> nat option" where
  "hex_value c =
     (let n = code c in
      if 48 \<le> n \<and> n \<le> 57 then Some (n - 48)
      else if 97 \<le> n \<and> n \<le> 102 then Some (n - 87)
      else if 65 \<le> n \<and> n \<le> 70 then Some (n - 55) else None)"

text \<open>\<open>getu4\<close>, from behind the \<open>u\<close>.\<close>

definition hex4 :: "string \<Rightarrow> (nat \<times> string) option" where
  "hex4 s =
     (case s of
        a # b # c # d # r \<Rightarrow>
          (case (hex_value a, hex_value b, hex_value c, hex_value d) of
             (Some w, Some x, Some y, Some z) \<Rightarrow> Some (w * 4096 + x * 256 + y * 16 + z, r)
           | _ \<Rightarrow> None)
      | _ \<Rightarrow> None)"

definition second_unit :: "string \<Rightarrow> (nat \<times> string) option" where
  "second_unit s =
     (case s of
        a # b # r \<Rightarrow> if a = CHR 0x5C \<and> b = CHR ''u'' then hex4 r else None
      | _ \<Rightarrow> None)"

text \<open>A surrogate counts only with its other half right behind it.\<close>

definition unescape_unit :: "nat \<Rightarrow> string \<Rightarrow> string \<times> string" where
  "unescape_unit n r =
     (if n < 0xD800 \<or> 0xDFFF < n then (utf8_encode n, r)
      else case second_unit r of
        None \<Rightarrow> (utf8_encode replacement, r)
      | Some (m, r') \<Rightarrow>
          if n < 0xDC00 \<and> 0xDC00 \<le> m \<and> m < 0xE000
          then (utf8_encode (0x10000 + (n - 0xD800) * 0x400 + (m - 0xDC00)), r')
          else (utf8_encode replacement, r))"

definition simple_escape :: "char \<Rightarrow> nat option" where
  "simple_escape c =
     (if c = CHR 0x22 \<or> c = CHR 0x5C \<or> c = CHR ''/'' then Some (code c)
      else if c = CHR ''b'' then Some 8 else if c = CHR ''f'' then Some 12
      else if c = CHR ''n'' then Some 10 else if c = CHR ''r'' then Some 13
      else if c = CHR ''t'' then Some 9 else None)"

definition unescape :: "string \<Rightarrow> (string \<times> string) option" where
  "unescape s =
     (case s of
        [] \<Rightarrow> None
      | c # r \<Rightarrow>
          if c = CHR ''u'' then map_option (\<lambda>(n, r'). unescape_unit n r') (hex4 r)
          else map_option (\<lambda>n. ([char_of n], r)) (simple_escape c))"

lemma hex4_length: "hex4 s = Some (n, r) \<Longrightarrow> length r < length s"
  by (auto simp: hex4_def split: list.splits option.splits)

lemma second_unit_length: "second_unit s = Some (n, r) \<Longrightarrow> length r < length s"
  by (auto simp: second_unit_def split: list.splits if_splits dest!: hex4_length)

lemma unescape_unit_length: "length (snd (unescape_unit n r)) \<le> length r"
  by (auto simp: unescape_unit_def split: option.splits dest!: second_unit_length)

lemma unescape_length: "unescape s = Some (b, r) \<Longrightarrow> length r < length s"
  using unescape_unit_length [THEN le_less_trans]
  by (auto simp: unescape_def split: list.splits if_splits dest!: hex4_length)
    (metis less_SucI snd_conv)

text \<open>The literal from behind its opening quote; an invalid byte stands for the replacement
  character.\<close>

function lex_string :: "string \<Rightarrow> (string \<times> string) option" where
  "lex_string s =
     (case s of
        [] \<Rightarrow> None
      | c # r \<Rightarrow>
          if c = CHR 0x22 then Some ([], r)
          else if c = CHR 0x5C then
            (case unescape r of
               None \<Rightarrow> None
             | Some (b, r') \<Rightarrow> map_option (\<lambda>(t, u). (b @ t, u)) (lex_string r'))
          else if code c < 0x20 then None
          else if utf8_width s = 0
          then map_option (\<lambda>(t, u). (utf8_encode replacement @ t, u)) (lex_string r)
          else map_option (\<lambda>(t, u). (take (utf8_width s) s @ t, u)) (lex_string (drop (utf8_width s) s)))"
  by pat_completeness auto
termination
  by (relation "measure length") (auto dest: unescape_length)

declare lex_string.simps [simp del]

section \<open>Values\<close>

definition is_ws :: "char \<Rightarrow> bool" where
  "is_ws c \<longleftrightarrow> c = CHR '' '' \<or> c = CHR 0x09 \<or> c = CHR 0x0A \<or> c = CHR 0x0D"

definition skip_ws :: "string \<Rightarrow> string" where
  "skip_ws = dropWhile is_ws"

type_synonym parser = "string \<Rightarrow> (json \<times> string) option"

text \<open>After the opening bracket; \<open>n\<close> bounds the number of elements.\<close>

fun lex_elements :: "parser \<Rightarrow> nat \<Rightarrow> string \<Rightarrow> (json list \<times> string) option" where
  "lex_elements p 0 s = None"
| "lex_elements p (Suc n) s =
     (case p s of
        None \<Rightarrow> None
      | Some (v, r) \<Rightarrow>
          (case skip_ws r of
             [] \<Rightarrow> None
           | c # r' \<Rightarrow>
               if c = CHR '','' then map_option (\<lambda>(vs, t). (v # vs, t)) (lex_elements p n r')
               else if c = CHR '']'' then Some ([v], r') else None))"

definition lex_key :: "string \<Rightarrow> (string \<times> string) option" where
  "lex_key s =
     (case skip_ws s of
        [] \<Rightarrow> None
      | c # r \<Rightarrow>
          if c \<noteq> CHR 0x22 then None
          else (case lex_string r of
                  None \<Rightarrow> None
                | Some (k, r1) \<Rightarrow>
                    (case skip_ws r1 of
                       [] \<Rightarrow> None
                     | d # r2 \<Rightarrow> if d = CHR '':'' then Some (k, r2) else None)))"

fun lex_fields :: "parser \<Rightarrow> nat \<Rightarrow> string \<Rightarrow> ((string \<times> json) list \<times> string) option" where
  "lex_fields p 0 s = None"
| "lex_fields p (Suc n) s =
     (case lex_key s of
        None \<Rightarrow> None
      | Some (k, r0) \<Rightarrow>
          (case p r0 of
             None \<Rightarrow> None
           | Some (v, r) \<Rightarrow>
               (case skip_ws r of
                  [] \<Rightarrow> None
                | c # r' \<Rightarrow>
                    if c = CHR '','' then map_option (\<lambda>(fs, t). ((k, v) # fs, t)) (lex_fields p n r')
                    else if c = CHR ''}'' then Some ([(k, v)], r') else None)))"

definition lex_array :: "parser \<Rightarrow> string \<Rightarrow> (json \<times> string) option" where
  "lex_array p r =
     (if skip_ws r \<noteq> [] \<and> hd (skip_ws r) = CHR '']'' then Some (JArr [], tl (skip_ws r))
      else map_option (\<lambda>(vs, t). (JArr vs, t)) (lex_elements p (length r) r))"

definition lex_object :: "parser \<Rightarrow> string \<Rightarrow> (json \<times> string) option" where
  "lex_object p r =
     (if skip_ws r \<noteq> [] \<and> hd (skip_ws r) = CHR ''}'' then Some (JObj [], tl (skip_ws r))
      else map_option (\<lambda>(fs, t). (JObj fs, t)) (lex_fields p (length r) r))"

definition keyword :: "string \<Rightarrow> json \<Rightarrow> string \<Rightarrow> (json \<times> string) option" where
  "keyword w v s = (if HasPrefix s w then Some (v, drop (length w) s) else None)"

text \<open>One value; \<open>inner\<close> reads the values inside it, None where no bracket may be opened.\<close>

definition lex_value :: "parser option \<Rightarrow> parser" where
  "lex_value inner s0 =
     (let s = skip_ws s0 in
      case s of
        [] \<Rightarrow> None
      | c # r \<Rightarrow>
          if c = CHR ''['' then Option.bind inner (\<lambda>p. lex_array p r)
          else if c = CHR ''{'' then Option.bind inner (\<lambda>p. lex_object p r)
          else if c = CHR 0x22 then map_option (\<lambda>(t, u). (JStr t, u)) (lex_string r)
          else if c = CHR ''t'' then keyword ''true'' (JBool True) s
          else if c = CHR ''f'' then keyword ''false'' (JBool False) s
          else if c = CHR ''n'' then keyword ''null'' JNull s
          else map_option (\<lambda>(l, u). (JNum l, u)) (lex_number s))"

text \<open>\<open>d\<close> brackets may be open at once.\<close>

fun parse_value :: "nat \<Rightarrow> parser" where
  "parse_value 0 = lex_value None"
| "parse_value (Suc d) = lex_value (Some (parse_value d))"

definition maxNestingDepth :: nat where
  "maxNestingDepth = 10000"

definition parse_within :: "nat \<Rightarrow> string \<Rightarrow> json option" where
  "parse_within d s =
     (case parse_value d s of
        None \<Rightarrow> None
      | Some (v, r) \<Rightarrow> if skip_ws r = [] then Some v else None)"

definition json_parse :: "string \<Rightarrow> json option" where
  "json_parse = parse_within maxNestingDepth"

section \<open>Writing\<close>

definition hex_char :: "nat \<Rightarrow> char" where
  "hex_char n = char_of (if n < 10 then 48 + n else 87 + n)"

definition escape_ascii :: "char \<Rightarrow> string" where
  "escape_ascii c =
     (if c = CHR 0x22 \<or> c = CHR 0x5C then [CHR 0x5C, c]
      else if code c = 8 then [CHR 0x5C, CHR ''b''] else if code c = 12 then [CHR 0x5C, CHR ''f'']
      else if code c = 10 then [CHR 0x5C, CHR ''n''] else if code c = 13 then [CHR 0x5C, CHR ''r'']
      else if code c = 9 then [CHR 0x5C, CHR ''t'']
      else if code c < 0x20 \<or> c = CHR ''<'' \<or> c = CHR ''>'' \<or> c = CHR ''&''
      then [CHR 0x5C, CHR ''u'', CHR ''0'', CHR ''0'', hex_char (code c div 16), hex_char (code c mod 16)]
      else [c])"

text \<open>The two line separators of JavaScript are escaped, an invalid byte is written as the
  replacement character's escape.\<close>

definition line_separator :: "string \<Rightarrow> bool" where
  "line_separator b \<longleftrightarrow> b = [CHR 0xE2, CHR 0x80, CHR 0xA8] \<or> b = [CHR 0xE2, CHR 0x80, CHR 0xA9]"

definition escape_rune :: "string \<Rightarrow> string" where
  "escape_rune b =
     (if length b = 1 then escape_ascii (hd b)
      else if line_separator b
      then [CHR 0x5C] @ ''u202'' @ (if last b = CHR 0xA8 then ''8'' else ''9'')
      else b)"

function escape :: "string \<Rightarrow> string" where
  "escape s =
     (case s of
        [] \<Rightarrow> []
      | c # r \<Rightarrow>
          if utf8_width s = 0 then [CHR 0x5C] @ ''ufffd'' @ escape r
          else escape_rune (take (utf8_width s) s) @ escape (drop (utf8_width s) s))"
  by pat_completeness auto
termination
  by (relation "measure length") auto

declare escape.simps [simp del]

definition quote :: "string \<Rightarrow> string" where
  "quote s = CHR 0x22 # escape s @ [CHR 0x22]"

fun commas :: "string list \<Rightarrow> string" where
  "commas [] = []"
| "commas [x] = x"
| "commas (x # xs) = x @ CHR '','' # commas xs"

fun Marshal :: "json \<Rightarrow> string" where
  "Marshal JNull = ''null''"
| "Marshal (JBool b) = (if b then ''true'' else ''false'')"
| "Marshal (JNum l) = l"
| "Marshal (JStr s) = quote s"
| "Marshal (JArr vs) = CHR ''['' # commas (map Marshal vs) @ [CHR '']'']"
| "Marshal (JObj fs) =
     CHR ''{'' # commas (map (\<lambda>f. quote (fst f) @ CHR '':'' # Marshal (snd f)) fs) @ [CHR ''}'']"

text \<open>What can be written without a loss: valid UTF-8 and well-formed number literals.\<close>

function valid_utf8 :: "string \<Rightarrow> bool" where
  "valid_utf8 s =
     (if s = [] then True else if utf8_width s = 0 then False else valid_utf8 (drop (utf8_width s) s))"
  by pat_completeness auto
termination
  by (relation "measure length") auto

declare valid_utf8.simps [simp del]

fun wf_json :: "json \<Rightarrow> bool" where
  "wf_json (JNum l) = (lex_number l = Some (l, []))"
| "wf_json (JStr s) = valid_utf8 s"
| "wf_json (JArr vs) = list_all wf_json vs"
| "wf_json (JObj fs) = list_all (\<lambda>f. valid_utf8 (fst f) \<and> wf_json (snd f)) fs"
| "wf_json _ = True"

fun depth :: "json \<Rightarrow> nat" where
  "depth (JArr vs) = Suc (foldr (\<lambda>v. max (depth v)) vs 0)"
| "depth (JObj fs) = Suc (foldr (\<lambda>f. max (depth (snd f))) fs 0)"
| "depth _ = 0"

section \<open>What is written is read back\<close>

subsection \<open>Numbers\<close>

definition ends :: "string \<Rightarrow> bool" where
  "ends r \<longleftrightarrow> r = [] \<or> \<not> is_digit (hd r) \<and> hd r \<noteq> CHR ''.'' \<and> hd r \<noteq> CHR ''e'' \<and> hd r \<noteq> CHR ''E''"

lemma takeWhile_ends [simp]: "ends r \<Longrightarrow> takeWhile is_digit (s @ r) = takeWhile is_digit s"
  by (induction s) (auto simp: ends_def takeWhile_eq_Nil_iff)

lemma dropWhile_ends [simp]: "ends r \<Longrightarrow> dropWhile is_digit (s @ r) = dropWhile is_digit s @ r"
  by (induction s) (auto simp: ends_def dropWhile_eq_self_iff)

lemma lex_digits_ends: "lex_digits pre s = Some (a, b) \<Longrightarrow> ends r \<Longrightarrow> lex_digits pre (s @ r) = Some (a, b @ r)"
  by (simp add: lex_digits_def split: if_splits)

lemma lex_int_ends: "lex_int s = Some (a, b) \<Longrightarrow> ends r \<Longrightarrow> lex_int (s @ r) = Some (a, b @ r)"
  using takeWhile_ends [of r s] dropWhile_ends [of r s]
  by (auto simp: lex_int_def split: list.splits if_splits simp del: takeWhile_ends dropWhile_ends)

lemma lex_frac_ends: "lex_frac s = Some (a, b) \<Longrightarrow> ends r \<Longrightarrow> lex_frac (s @ r) = Some (a, b @ r)"
  by (cases s; cases r) (auto simp: lex_frac_def ends_def [of "_ # _"] lex_digits_ends split: if_splits)

lemma lex_exp_ends: "lex_exp s = Some (a, b) \<Longrightarrow> ends r \<Longrightarrow> lex_exp (s @ r) = Some (a, b @ r)"
  by (cases s; cases "tl s"; cases r)
    (auto simp: lex_exp_def ends_def [of "_ # _"] lex_digits_ends [of _ "_ # _", simplified] lex_digits_ends split: if_splits)

lemma lex_unsigned_ends: "lex_unsigned s = Some (a, b) \<Longrightarrow> ends r \<Longrightarrow> lex_unsigned (s @ r) = Some (a, b @ r)"
  by (auto simp: lex_unsigned_def lex_int_ends lex_frac_ends lex_exp_ends split: option.splits)

lemma lex_number_ends: "lex_number s = Some (a, b) \<Longrightarrow> ends r \<Longrightarrow> lex_number (s @ r) = Some (a, b @ r)"
  by (cases s) (auto simp: lex_number_def lex_unsigned_ends lex_unsigned_ends [of "_ # _", simplified] split: if_splits)

subsection \<open>Strings\<close>

definition rune :: "string \<Rightarrow> bool" where
  "rune b \<longleftrightarrow> b \<noteq> [] \<and> utf8_width b = length b"

lemma rune_prefix: "0 < utf8_width s \<Longrightarrow> rune (take (utf8_width s) s)"
  by (cases s) (auto simp: rune_def utf8_width_def Let_def hd_append take_Cons' split: if_splits)

lemma hex_value_char: "n < 16 \<Longrightarrow> hex_value (hex_char n) = Some n"
  by (auto simp: hex_value_def hex_char_def Let_def)

lemma unescape_hex:
  assumes "code c < 0x80"
  shows "unescape (CHR ''u'' # CHR ''0'' # CHR ''0'' # hex_char (code c div 16) # hex_char (code c mod 16) # t) = Some ([c], t)"
proof -
  have "hex_value CHR ''0'' = Some 0" by code_simp
  moreover have "code c div 16 < 16" using assms by simp
  moreover have "code c div 16 * 16 + code c mod 16 = code c" by simp
  ultimately show ?thesis using assms
    by (simp add: unescape_def hex4_def hex_value_char unescape_unit_def utf8_encode_def)
qed

lemma char_eqI: "code c = n \<Longrightarrow> char_of n = c"
  by auto

lemma escape_ascii_cases:
  assumes "code c < 0x80"
  obtains e where "escape_ascii c = CHR 0x5C # e" "\<And>t. unescape (e @ t) = Some ([c], t)"
  | "escape_ascii c = [c]" "c \<noteq> CHR 0x22" "c \<noteq> CHR 0x5C" "0x20 \<le> code c"
proof -
  consider "c = CHR 0x22 \<or> c = CHR 0x5C" | "code c \<in> {8, 12, 10, 13, 9}"
    | "c \<noteq> CHR 0x22" "c \<noteq> CHR 0x5C" "code c \<notin> {8, 12, 10, 13, 9}" by blast
  then show thesis
  proof cases
    case 1
    then show ?thesis by (intro that(1) [of "[c]"]) (auto simp: escape_ascii_def unescape_def simple_escape_def)
  next
    case 2
    then show ?thesis
      by (intro that(1) [of "tl (escape_ascii c)"])
        (auto simp: escape_ascii_def unescape_def simple_escape_def char_eqI)
  next
    case 3
    show ?thesis
    proof (cases "escape_ascii c = [c]")
      case True
      with 3 that(2) show ?thesis by (fastforce simp: escape_ascii_def split: if_splits)
    next
      case False
      with 3 have "escape_ascii c =
          [CHR 0x5C, CHR ''u'', CHR ''0'', CHR ''0'', hex_char (code c div 16), hex_char (code c mod 16)]"
        by (auto simp: escape_ascii_def split: if_splits)
      then show ?thesis by (intro that(1)) (assumption, simp only: append.simps unescape_hex [OF assms])
    qed
  qed
qed

lemma separators: "utf8_encode 0x2028 = [CHR 0xE2, CHR 0x80, CHR 0xA8]" "utf8_encode 0x2029 = [CHR 0xE2, CHR 0x80, CHR 0xA9]"
  by (simp_all add: utf8_encode_def, intro conjI char_eqI, simp_all, intro conjI char_eqI, simp_all)

lemma lex_rune:
  assumes "rune b"
  shows "lex_string (escape_rune b @ t) = map_option (\<lambda>(x, u). (b @ x, u)) (lex_string t)"
proof (cases "length b = 1")
  case True
  then obtain c where b: "b = [c]" by (cases b) auto
  with assms have c: "code c < 0x80" by (auto simp: rune_def utf8_width_def lead_width_def Let_def split: if_splits)
  show ?thesis
  proof (rule escape_ascii_cases [OF c])
    fix e assume "escape_ascii c = CHR 0x5C # e" "\<And>t. unescape (e @ t) = Some ([c], t)"
    then show ?thesis by (simp add: b escape_rune_def lex_string.simps [of "_ # _"])
  next
    assume "escape_ascii c = [c]" "c \<noteq> CHR 0x22" "c \<noteq> CHR 0x5C" "0x20 \<le> code c"
    moreover have "utf8_width (c # t) = 1" using c by (simp add: utf8_width_def lead_width_def)
    ultimately show ?thesis by (simp add: b escape_rune_def lex_string.simps [of "_ # _"])
  qed
next
  case False
  then obtain c r where b: "b = c # r" "length b \<noteq> 1" using assms by (cases b) (auto simp: rune_def)
  have w: "utf8_width (b @ t) = length b" using assms by (simp add: rune_def utf8_width_append)
  have c: "0x80 \<le> code c"
    using assms b by (auto simp: rune_def utf8_width_def lead_width_def Let_def not_less [symmetric])
  have "lex_string (b @ t) = map_option (\<lambda>(x, u). (b @ x, u)) (lex_string t)"
    using w c b by (auto simp: lex_string.simps [of "_ # _"])
  moreover have "lex_string (CHR 0x5C # ''u2028'' @ t) = map_option (\<lambda>(x, u). ([CHR 0xE2, CHR 0x80, CHR 0xA8] @ x, u)) (lex_string t)"
    by (simp add: lex_string.simps [of "_ # _"] unescape_def hex4_def hex_value_def unescape_unit_def separators)
  moreover have "lex_string (CHR 0x5C # ''u2029'' @ t) = map_option (\<lambda>(x, u). ([CHR 0xE2, CHR 0x80, CHR 0xA9] @ x, u)) (lex_string t)"
    by (simp add: lex_string.simps [of "_ # _"] unescape_def hex4_def hex_value_def unescape_unit_def separators)
  ultimately show ?thesis using False by (auto simp: escape_rune_def line_separator_def)
qed

lemma lex_string_escape: "valid_utf8 s \<Longrightarrow> lex_string (escape s @ CHR 0x22 # t) = Some (s, t)"
proof (induction s rule: valid_utf8.induct)
  case (1 s)
  show ?case
  proof (cases "s = []")
    case True
    then show ?thesis by (simp add: escape.simps lex_string.simps)
  next
    case False
    with 1(2) have w: "utf8_width s \<noteq> 0" "valid_utf8 (drop (utf8_width s) s)"
      by (simp_all add: valid_utf8.simps [of s] split: if_splits)
    have "escape s = escape_rune (take (utf8_width s) s) @ escape (drop (utf8_width s) s)"
      using False w(1) by (cases s) (simp_all add: escape.simps)
    then show ?thesis using 1(1) [OF False w] rune_prefix w(1) by (simp add: lex_rune)
  qed
qed

subsection \<open>Values\<close>

lemma lex_int_head: "lex_int s = Some (a, r) \<Longrightarrow> s \<noteq> [] \<and> is_digit (hd s)"
  by (auto simp: lex_int_def is_digit_def split: list.splits if_splits)

lemma lex_number_head: "lex_number s = Some (a, r) \<Longrightarrow> s \<noteq> [] \<and> (hd s = CHR ''-'' \<or> is_digit (hd s))"
  by (auto simp: lex_number_def lex_unsigned_def split: list.splits option.splits if_splits dest!: lex_int_head)

definition begins :: "char \<Rightarrow> bool" where
  "begins c \<longleftrightarrow> \<not> is_ws c \<and> c \<noteq> CHR '']'' \<and> c \<noteq> CHR ''}''"

lemma begins_number: "c = CHR ''-'' \<or> is_digit c \<Longrightarrow>
  begins c \<and> c \<noteq> CHR ''['' \<and> c \<noteq> CHR ''{'' \<and> c \<noteq> CHR 0x22 \<and> c \<noteq> CHR ''t'' \<and> c \<noteq> CHR ''f'' \<and> c \<noteq> CHR ''n''"
  by (auto simp: begins_def is_ws_def is_digit_def)

lemma Marshal_head: "wf_json v \<Longrightarrow> \<exists>c r. Marshal v = c # r \<and> begins c"
proof (cases v)
  case (JNum l)
  assume "wf_json v"
  with JNum lex_number_head [of l l "[]"] begins_number [of "hd l"] show ?thesis by (cases l) auto
qed (auto simp: begins_def is_ws_def quote_def)

lemma skip_ws_begins [simp]: "\<not> is_ws c \<Longrightarrow> skip_ws (c # r) = c # r"
  by (simp add: skip_ws_def)

lemma punctuation [simp]:
  "\<not> is_ws CHR '',''" "\<not> is_ws CHR '']''" "\<not> is_ws CHR ''}''" "\<not> is_ws CHR '':''" "\<not> is_ws CHR 0x22"
  "ends (CHR '','' # r)" "ends (CHR '']'' # r)" "ends (CHR ''}'' # r)" "ends []"
  by (auto simp: is_ws_def ends_def is_digit_def)

lemma length_commas: "length xs \<le> Suc (length (commas xs))"
  by (induction xs rule: commas.induct) auto

text \<open>\<open>p\<close> reads back each of the values.\<close>

definition reads :: "parser \<Rightarrow> json \<Rightarrow> bool" where
  "reads p v \<longleftrightarrow> (\<forall>r. ends r \<longrightarrow> p (Marshal v @ r) = Some (v, r))"

lemma lex_elements_commas:
  "vs \<noteq> [] \<Longrightarrow> \<forall>v \<in> set vs. reads p v \<Longrightarrow> length vs \<le> n \<Longrightarrow>
   lex_elements p n (commas (map Marshal vs) @ CHR '']'' # r) = Some (vs, r)"
proof (induction vs arbitrary: n)
  case (Cons v vs)
  then obtain m where n: "n = Suc m" by (cases n) auto
  show ?case
  proof (cases vs)
    case Nil
    with Cons.prems n show ?thesis by (simp add: reads_def)
  next
    case (Cons w ws)
    with Cons.IH [of m] Cons.prems n show ?thesis by (simp add: reads_def)
  qed
qed simp

lemma lex_key_quote: "valid_utf8 k \<Longrightarrow> lex_key (quote k @ CHR '':'' # r) = Some (k, r)"
  by (simp add: lex_key_def quote_def lex_string_escape)

abbreviation marshal_field :: "string \<times> json \<Rightarrow> string" where
  "marshal_field f \<equiv> quote (fst f) @ CHR '':'' # Marshal (snd f)"

lemma lex_fields_commas:
  "fs \<noteq> [] \<Longrightarrow> \<forall>f \<in> set fs. valid_utf8 (fst f) \<and> reads p (snd f) \<Longrightarrow> length fs \<le> n \<Longrightarrow>
   lex_fields p n (commas (map marshal_field fs) @ CHR ''}'' # r) = Some (fs, r)"
proof (induction fs arbitrary: n)
  case (Cons f fs)
  then obtain m where n: "n = Suc m" by (cases n) auto
  show ?case
  proof (cases fs)
    case Nil
    with Cons.prems n show ?thesis by (simp add: reads_def lex_key_quote)
  next
    case (Cons g gs)
    with Cons.IH [of m] Cons.prems n show ?thesis by (simp add: reads_def lex_key_quote)
  qed
qed simp

lemma max_fold_le: "foldr (\<lambda>v. max (f v)) vs 0 \<le> d \<longleftrightarrow> (\<forall>v \<in> set vs. f v \<le> (d :: nat))"
  by (induction vs) auto

lemma commas_head: "xs \<noteq> [] \<Longrightarrow> hd xs = c # r \<Longrightarrow> \<exists>r. commas xs = c # r"
  by (cases xs rule: commas.cases) auto

lemma lex_array_commas:
  assumes "\<forall>v \<in> set vs. wf_json v \<and> reads p v"
  shows "lex_array p (commas (map Marshal vs) @ CHR '']'' # r) = Some (JArr vs, r)"
proof (cases vs)
  case (Cons v ws)
  obtain c t where "Marshal v = c # t" "begins c" using Marshal_head assms Cons by fastforce
  then obtain u where u: "commas (map Marshal vs) = c # u" "\<not> is_ws c" "c \<noteq> CHR '']''"
    using commas_head [of "map Marshal vs" c t] Cons by (auto simp: begins_def)
  have "length vs \<le> length (commas (map Marshal vs) @ CHR '']'' # r)"
    using length_commas [of "map Marshal vs"] by simp
  then have "lex_elements p (length (commas (map Marshal vs) @ CHR '']'' # r)) (commas (map Marshal vs) @ CHR '']'' # r) = Some (vs, r)"
    using lex_elements_commas [of vs p] assms Cons by blast
  with u show ?thesis by (simp add: lex_array_def)
qed (simp add: lex_array_def)

lemma lex_object_commas:
  assumes "\<forall>f \<in> set fs. valid_utf8 (fst f) \<and> reads p (snd f)"
  shows "lex_object p (commas (map marshal_field fs) @ CHR ''}'' # r) = Some (JObj fs, r)"
proof (cases fs)
  case (Cons f gs)
  then obtain u where u: "commas (map marshal_field fs) = CHR 0x22 # u"
    using commas_head [of "map marshal_field fs" "CHR 0x22"] by (auto simp: quote_def)
  have "length fs \<le> length (commas (map marshal_field fs) @ CHR ''}'' # r)"
    using length_commas [of "map marshal_field fs"] by simp
  then have "lex_fields p (length (commas (map marshal_field fs) @ CHR ''}'' # r)) (commas (map marshal_field fs) @ CHR ''}'' # r) = Some (fs, r)"
    using lex_fields_commas [of fs p] assms Cons by blast
  with u show ?thesis by (simp add: lex_object_def)
qed (simp add: lex_object_def)

lemma lex_keywords:
  "lex_value q (''null'' @ r) = Some (JNull, r)"
  "lex_value q (''true'' @ r) = Some (JBool True, r)"
  "lex_value q (''false'' @ r) = Some (JBool False, r)"
  by (simp_all add: lex_value_def is_ws_def keyword_def HasPrefix_def)

lemma reads_Marshal: "wf_json v \<Longrightarrow> depth v \<le> d \<Longrightarrow> reads (parse_value d) v"
proof (induction v arbitrary: d rule: Marshal.induct)
  case (3 l)
  then have l: "lex_number l = Some (l, [])" by simp
  note h = begins_number [OF conjunct2 [OF lex_number_head [OF l]]]
  have "lex_value q (l @ r) = Some (JNum l, r)" if "ends r" for q r
    using lex_number_ends [OF l that] h lex_number_head [OF l]
    by (cases l) (auto simp: lex_value_def begins_def)
  then show ?case by (cases d) (simp_all add: reads_def)
next
  case (4 s)
  then have "lex_value q (quote s @ r) = Some (JStr s, r)" for q r
    by (simp add: lex_value_def quote_def lex_string_escape)
  then show ?case by (cases d) (simp_all add: reads_def)
next
  case (5 vs)
  then obtain e where d: "d = Suc e" "\<forall>v \<in> set vs. wf_json v \<and> depth v \<le> e"
    by (cases d) (auto simp: max_fold_le list_all_iff)
  with 5(1) have "\<forall>v \<in> set vs. wf_json v \<and> reads (parse_value e) v" by blast
  from lex_array_commas [OF this] show ?case by (simp add: reads_def d(1) lex_value_def is_ws_def)
next
  case (6 fs)
  then obtain e where d: "d = Suc e" "\<forall>f \<in> set fs. valid_utf8 (fst f) \<and> wf_json (snd f) \<and> depth (snd f) \<le> e"
    by (cases d) (auto simp: max_fold_le list_all_iff)
  with 6(1) have "\<forall>f \<in> set fs. valid_utf8 (fst f) \<and> reads (parse_value e) (snd f)" by blast
  from lex_object_commas [OF this] show ?case by (simp add: reads_def d(1) lex_value_def is_ws_def)
next
  case 1
  show ?case by (cases d) (simp_all only: reads_def Marshal.simps parse_value.simps lex_keywords, simp_all)
next
  case (2 b)
  show ?case
    by (cases d; cases b) (simp_all only: reads_def Marshal.simps parse_value.simps lex_keywords if_True if_False, simp_all)
qed

lemma json_parse_Marshal:
  assumes "wf_json v" "depth v \<le> maxNestingDepth" "ends ws" "skip_ws ws = []"
  shows "json_parse (Marshal v @ ws) = Some v"
  using reads_Marshal [OF assms(1,2)] assms(3,4)
  by (simp add: json_parse_def parse_within_def reads_def)

section \<open>The bounds lose nothing\<close>

text \<open>More depth changes no result.\<close>

definition le_parser :: "parser \<Rightarrow> parser \<Rightarrow> bool" where
  "le_parser p q \<longleftrightarrow> (\<forall>s x. p s = Some x \<longrightarrow> q s = Some x)"

lemma lex_elements_mono: "le_parser p q \<Longrightarrow> lex_elements p n s = Some x \<Longrightarrow> lex_elements q n s = Some x"
proof (induction p n s arbitrary: x rule: lex_elements.induct)
  case (2 p n s)
  then obtain v r where "p s = Some (v, r)" "q s = Some (v, r)"
    by (cases "p s") (auto simp: le_parser_def)
  with 2 show ?case by (auto split: list.splits if_splits)
qed simp

lemma lex_fields_mono: "le_parser p q \<Longrightarrow> lex_fields p n s = Some x \<Longrightarrow> lex_fields q n s = Some x"
proof (induction p n s arbitrary: x rule: lex_fields.induct)
  case (2 p n s)
  then obtain k r0 v r where "lex_key s = Some (k, r0)" "p r0 = Some (v, r)" "q r0 = Some (v, r)"
    by (cases "lex_key s"; cases "p (snd (the (lex_key s)))") (auto simp: le_parser_def)
  with 2 show ?case by (auto split: list.splits if_splits)
qed simp

lemma lex_array_mono: "le_parser p q \<Longrightarrow> lex_array p r = Some x \<Longrightarrow> lex_array q r = Some x"
  by (auto simp: lex_array_def dest: lex_elements_mono split: if_splits)

lemma lex_object_mono: "le_parser p q \<Longrightarrow> lex_object p r = Some x \<Longrightarrow> lex_object q r = Some x"
  by (auto simp: lex_object_def dest: lex_fields_mono split: if_splits)

lemma lex_value_mono:
  assumes "inner = None \<or> (\<exists>p q. inner = Some p \<and> outer = Some q \<and> le_parser p q)"
  shows "le_parser (lex_value inner) (lex_value outer)"
proof -
  have "lex_value outer s = Some x" if *: "lex_value inner s = Some x" for s x
  proof (cases "skip_ws s")
    case (Cons c r)
    consider "c = CHR ''[''" | "c = CHR ''{''" | "c \<noteq> CHR ''['' \<and> c \<noteq> CHR ''{''" by blast
    then show ?thesis
    proof cases
      case 1
      with * assms Cons show ?thesis by (cases inner) (auto simp: lex_value_def lex_array_mono)
    next
      case 2
      with * assms Cons show ?thesis by (cases inner) (auto simp: lex_value_def lex_object_mono)
    next
      case 3
      with Cons have "lex_value outer s = lex_value inner s" by (simp add: lex_value_def)
      with * show ?thesis by simp
    qed
  qed (use * in \<open>simp add: lex_value_def\<close>)
  then show ?thesis by (simp add: le_parser_def)
qed

lemma parse_value_mono: "d \<le> e \<Longrightarrow> le_parser (parse_value d) (parse_value e)"
proof (induction d arbitrary: e)
  case 0
  show ?case by (cases e) (simp_all add: lex_value_mono)
next
  case (Suc d)
  then show ?case by (cases e) (auto intro!: lex_value_mono)
qed

lemma json_parse_within: "parse_within d s = Some v \<Longrightarrow> d \<le> maxNestingDepth \<Longrightarrow> json_parse s = Some v"
  using parse_value_mono [of d maxNestingDepth]
  by (auto simp: json_parse_def parse_within_def le_parser_def split: option.splits)

text \<open>Every value takes at least a byte, so the length of the text is enough for the elements in it.\<close>

definition consumes :: "parser \<Rightarrow> bool" where
  "consumes p \<longleftrightarrow> (\<forall>s v r. p s = Some (v, r) \<longrightarrow> length r < length s)"

lemma consumes_Nil: "consumes p \<Longrightarrow> p [] = None"
  by (cases "p []") (force simp: consumes_def)+

lemma skip_ws_length: "length (skip_ws s) \<le> length s"
  by (simp add: skip_ws_def length_dropWhile_le)

lemma skip_ws_Cons: "skip_ws s = c # r \<Longrightarrow> length r < length s"
  using skip_ws_length [of s] by simp

lemma lex_elements_enough:
  "consumes p \<Longrightarrow> length s \<le> n \<Longrightarrow> length s \<le> m \<Longrightarrow> lex_elements p n s = lex_elements p m s"
proof (induction p n s arbitrary: m rule: lex_elements.induct)
  case (1 p s)
  with 1 consumes_Nil [OF 1(1)] show ?case by (cases m) auto
next
  case (2 p n s)
  show ?case
  proof (cases "s = []")
    case True
    with consumes_Nil [OF 2(2)] show ?thesis by (cases m) auto
  next
    case False
    with 2(4) obtain k where m: "m = Suc k" by (cases m) auto
    have "lex_elements p n r' = lex_elements p k r'"
      if p: "p s = Some (v, r)" "skip_ws r = c # r'" "c = CHR '',''" for v r c r'
    proof -
      have "length r < length s" using 2(2) p(1) by (simp add: consumes_def)
      with skip_ws_Cons [OF p(2)] 2(3,4) m have "length r' \<le> n" "length r' \<le> k" by simp_all
      with 2(1) [OF p(1) refl p(2,3)] 2(2) show ?thesis by blast
    qed
    then show ?thesis by (auto simp: m split: option.split list.split)
  qed
qed

lemma lex_fields_enough:
  "consumes p \<Longrightarrow> length s \<le> n \<Longrightarrow> length s \<le> m \<Longrightarrow>
   (\<And>s k r. lex_key s = Some (k, r) \<Longrightarrow> length r < length s) \<Longrightarrow> lex_fields p n s = lex_fields p m s"
proof (induction p n s arbitrary: m rule: lex_fields.induct)
  case (1 p s)
  then show ?case by (cases m) (auto simp: lex_key_def skip_ws_def)
next
  case (2 p n s)
  show ?case
  proof (cases "s = []")
    case True
    then show ?thesis by (cases m) (auto simp: lex_key_def skip_ws_def)
  next
    case False
    with 2(4) obtain j where m: "m = Suc j" by (cases m) auto
    have "lex_fields p n r' = lex_fields p j r'"
      if p: "lex_key s = Some (k, r0)" "p r0 = Some (v, r)" "skip_ws r = c # r'" "c = CHR '',''" for k r0 v r c r'
    proof -
      have "length r < length r0" using 2(2) p(2) by (simp add: consumes_def)
      with skip_ws_Cons [OF p(3)] 2(5) [OF p(1)] 2(3,4) m have "length r' \<le> n" "length r' \<le> j" by simp_all
      with 2(1) [OF p(1) refl p(2) refl p(3,4)] 2(2,5) show ?thesis by blast
    qed
    then show ?thesis by (auto simp: m split: option.split list.split)
  qed
qed

section \<open>What is read can be written\<close>

lemma code_char_of: "n < 256 \<Longrightarrow> code (char_of n) = n"
  by simp

lemma continuation_low: "continuation (char_of (0x80 + n mod 64))" for n :: nat
proof -
  have "n mod 64 < 64" by simp
  then show ?thesis unfolding between_def by (subst code_char_of; simp)+
qed

lemma code_offset: "k < 64 \<Longrightarrow> m \<le> 0xC0 \<Longrightarrow> code (char_of (m + k)) = m + k" for k m :: nat
  by (rule code_char_of) simp

lemma div_split: "k div 64 = c \<Longrightarrow> k = c * 64 + k mod 64" for k c :: nat
  using div_mult_mod_eq [of k 64] by simp

lemma rune2: "0x80 \<le> n \<Longrightarrow> n < 0x800 \<Longrightarrow> rune (utf8_encode n)"
proof -
  assume n: "0x80 \<le> n" "n < 0x800"
  then have k: "2 \<le> n div 64" "n div 64 < 32"
    by (simp_all add: less_eq_div_iff_mult_less_eq div_less_iff_less_mult)
  then have "code (char_of (0xC0 + n div 64)) = 0xC0 + n div 64" by (intro code_char_of) simp
  with n k continuation_low [of n] show ?thesis
    by (simp add: rune_def utf8_encode_def utf8_width_def lead_width_def second_byte_def Let_def del: of_char_of)
qed

lemma rune3:
  assumes "0x800 \<le> n" "n < 0x10000" "n < 0xD800 \<or> 0xE000 \<le> n"
  shows "rune (utf8_encode n)"
proof -
  define k where "k = n div 64"
  have nk: "n div 4096 = k div 64" by (simp add: k_def div_mult2_eq [symmetric])
  have k: "32 \<le> k" "k < 1024" "k < 864 \<or> 896 \<le> k"
    using assms by (auto simp: k_def less_eq_div_iff_mult_less_eq div_less_iff_less_mult)
  then have a: "k div 64 < 16" by (simp add: div_less_iff_less_mult)
  then have ca: "code (char_of (0xE0 + k div 64)) = 0xE0 + k div 64" by (intro code_char_of) simp
  have cb: "code (char_of (0x80 + k mod 64)) = 0x80 + k mod 64" by (rule code_offset) simp_all
  have "k div 64 = 0 \<Longrightarrow> 32 \<le> k mod 64" using div_split [of k 0] k(1) by simp
  moreover have "k div 64 = 13 \<Longrightarrow> k mod 64 < 32"
    using div_split [of k 13] k(3) mod_less_divisor [of 64 k] by linarith
  moreover have "k mod 64 < 64" by simp
  ultimately have "second_byte (0xE0 + k div 64) (char_of (0x80 + k mod 64))"
    using cb a by (auto simp: second_byte_def between_def)
  with assms a ca continuation_low [of k] continuation_low [of n] show ?thesis
    unfolding rune_def utf8_encode_def nk k_def [symmetric]
    by (simp add: utf8_width_def lead_width_def Let_def del: of_char_of)
qed

lemma rune4:
  assumes "0x10000 \<le> n" "n < 0x110000"
  shows "rune (utf8_encode n)"
proof -
  define j where "j = n div 64"
  define k where "k = j div 64"
  have nk: "n div 4096 = k" "n div 262144 = k div 64" by (simp_all add: j_def k_def div_mult2_eq [symmetric])
  have k: "16 \<le> k" "k < 272"
    using assms by (auto simp: nk(1) [symmetric] less_eq_div_iff_mult_less_eq div_less_iff_less_mult)
  then have a: "k div 64 < 5" by (simp add: div_less_iff_less_mult)
  then have ca: "code (char_of (0xF0 + k div 64)) = 0xF0 + k div 64" by (intro code_char_of) simp
  have cb: "code (char_of (0x80 + k mod 64)) = 0x80 + k mod 64" by (rule code_offset) simp_all
  have "k div 64 = 0 \<Longrightarrow> 16 \<le> k mod 64" using div_split [of k 0] k(1) by simp
  moreover have "k div 64 = 4 \<Longrightarrow> k mod 64 < 16" using div_split [of k 4] k(2) by simp
  moreover have "k mod 64 < 64" by simp
  ultimately have "second_byte (0xF0 + k div 64) (char_of (0x80 + k mod 64))"
    using cb a by (auto simp: second_byte_def between_def)
  with assms a ca continuation_low [of k] continuation_low [of j] continuation_low [of n] show ?thesis
    unfolding rune_def utf8_encode_def nk j_def [symmetric]
    by (simp add: utf8_width_def lead_width_def Let_def del: of_char_of)
qed

lemma rune_encode:
  assumes "n < 0xD800 \<or> 0xE000 \<le> n \<and> n < 0x110000"
  shows "rune (utf8_encode n)"
proof -
  consider "n < 0x80" | "0x80 \<le> n" "n < 0x800" | "0x800 \<le> n" "n < 0x10000" | "0x10000 \<le> n" by linarith
  then show ?thesis
  proof cases
    case 1
    then show ?thesis by (simp add: rune_def utf8_encode_def utf8_width_def lead_width_def)
  qed (use assms rune2 rune3 rune4 in auto)
qed

lemma hex_value_less: "hex_value c = Some n \<Longrightarrow> n < 16"
  by (auto simp: hex_value_def Let_def split: if_splits)

lemma hex4_less: "hex4 s = Some (n, r) \<Longrightarrow> n < 0x10000"
  by (auto simp: hex4_def split: list.splits option.splits dest!: hex_value_less)

lemma rune_ascii: "n < 0x80 \<Longrightarrow> rune [char_of n]" for n :: nat
  using rune_encode [of n] by (simp add: utf8_encode_def)

lemma simple_escape_less: "simple_escape c = Some n \<Longrightarrow> n < 0x80"
  by (auto simp: simple_escape_def split: if_splits)

lemma rune_unescape_unit: "n < 0x10000 \<Longrightarrow> rune (fst (unescape_unit n r))"
  by (auto simp: unescape_unit_def replacement_def intro!: rune_encode split: option.splits)

lemma rune_unescape:
  assumes "unescape s = Some (b, r)"
  shows "rune b"
proof -
  from assms obtain c u where s: "s = c # u" by (cases s) (auto simp: unescape_def)
  show ?thesis
  proof (cases "c = CHR ''u''")
    case True
    then obtain n v where "hex4 u = Some (n, v)" "(b, r) = unescape_unit n v"
      using assms by (auto simp: s unescape_def)
    then show ?thesis using rune_unescape_unit [OF hex4_less] by (metis fst_conv)
  next
    case False
    then show ?thesis using assms rune_ascii [OF simple_escape_less] by (auto simp: s unescape_def)
  qed
qed

lemma valid_rune_append: "rune b \<Longrightarrow> valid_utf8 s \<Longrightarrow> valid_utf8 (b @ s)"
  by (subst valid_utf8.simps) (simp add: rune_def utf8_width_append)

lemma lex_string_cases:
  assumes "lex_string s = Some (t, r)"
  obtains (close) "s = CHR 0x22 # r" "t = []"
  | (escaped) u b v t' where "s = CHR 0x5C # u" "unescape u = Some (b, v)" "lex_string v = Some (t', r)" "t = b @ t'"
  | (bad) c u t' where "s = c # u" "lex_string u = Some (t', r)" "t = utf8_encode replacement @ t'"
  | (good) t' where "utf8_width s \<noteq> 0" "lex_string (drop (utf8_width s) s) = Some (t', r)" "t = take (utf8_width s) s @ t'"
proof (cases s)
  case Nil
  with assms show thesis by (simp add: lex_string.simps)
next
  case (Cons c u)
  note lex = assms [unfolded lex_string.simps [of s], unfolded Cons, unfolded list.case, folded Cons]
  show thesis
  proof (cases "c = CHR 0x22")
    case True
    with lex Cons close show thesis by simp
  next
    case nq: False
    show thesis
    proof (cases "c = CHR 0x5C")
      case True
      then obtain b v where "unescape u = Some (b, v)" using lex by (cases "unescape u") auto
      with True lex Cons escaped show thesis by auto
    next
      case False
      with lex nq Cons bad good show thesis by (auto split: if_splits)
    qed
  qed
qed

lemma lex_string_valid: "lex_string s = Some (t, r) \<Longrightarrow> valid_utf8 t \<and> length r < length s"
proof (induction s arbitrary: t rule: length_induct)
  case (1 s)
  from 1(2) show ?case
  proof (cases rule: lex_string_cases)
    case close
    then show ?thesis by (simp add: valid_utf8.simps)
  next
    case (escaped u b v t')
    then have "length v < length s" using unescape_length [OF escaped(2)] by simp
    moreover from this 1(1) escaped(3) have "valid_utf8 t' \<and> length r < length v" by blast
    ultimately show ?thesis using valid_rune_append [OF rune_unescape [OF escaped(2)]] escaped(4) by simp
  next
    case (bad c u t')
    then have "valid_utf8 t' \<and> length r < length u" using 1(1) by (metis length_Cons lessI)
    then show ?thesis using valid_rune_append [OF rune_encode [of replacement]] bad by (simp add: replacement_def)
  next
    case (good t')
    then have "length (drop (utf8_width s) s) < length s" using utf8_width_le [of s] by simp
    moreover from this 1(1) good(2) have "valid_utf8 t' \<and> length r < length (drop (utf8_width s) s)" by blast
    ultimately show ?thesis using valid_rune_append [OF rune_prefix [of s]] good(1,3) by simp
  qed
qed

subsection \<open>Numbers\<close>

lemma lex_digits_parts: "lex_digits pre s = Some (a, r) \<Longrightarrow>
  \<exists>ds. a = pre @ ds \<and> ds \<noteq> [] \<and> list_all is_digit ds \<and> s = ds @ r"
  by (auto simp: lex_digits_def list_all_iff split: if_splits dest: set_takeWhileD)

lemma all_digits [simp]: "list_all is_digit ds \<Longrightarrow> takeWhile is_digit ds = ds" "list_all is_digit ds \<Longrightarrow> dropWhile is_digit ds = []"
  by (simp_all add: list_all_iff takeWhile_eq_all_conv)


definition no_digit :: "string \<Rightarrow> bool" where
  "no_digit x \<longleftrightarrow> x = [] \<or> \<not> is_digit (hd x)"

lemma takeWhile_no_digit [simp]:
  "list_all is_digit ds \<Longrightarrow> no_digit x \<Longrightarrow> takeWhile is_digit (ds @ x) = ds"
  "list_all is_digit ds \<Longrightarrow> no_digit x \<Longrightarrow> dropWhile is_digit (ds @ x) = x"
  by (induction ds) (auto simp: no_digit_def takeWhile_eq_Nil_iff dropWhile_eq_self_iff)

lemma lex_digits_again:
  "lex_digits pre s = Some (a, r) \<Longrightarrow> \<exists>ds. a = pre @ ds \<and> s = ds @ r \<and>
     (\<forall>x. no_digit x \<longrightarrow> lex_digits pre (ds @ x) = Some (a, x))"
  by (drule lex_digits_parts) (auto simp: lex_digits_def)

lemma lex_int_again:
  assumes "lex_int s = Some (a, r)"
  shows "s = a @ r \<and> a \<noteq> [] \<and> (\<forall>x. no_digit x \<longrightarrow> lex_int (a @ x) = Some (a, x))"
proof -
  obtain c u where s: "s = c # u" using assms by (cases s) (auto simp: lex_int_def)
  consider "c = CHR ''0''" "a = [c]" "r = u"
    | "c \<noteq> CHR ''0''" "is_digit c" "a = c # takeWhile is_digit u" "r = dropWhile is_digit u"
    using assms by (auto simp: lex_int_def s split: if_splits)
  then show ?thesis
  proof cases
    case 1
    then show ?thesis
      by (simp_all add: s lex_int_def)
  next
    case 2
    have "list_all is_digit (takeWhile is_digit u)" by (auto simp: list_all_iff dest: set_takeWhileD)
    with 2 show ?thesis
      by (simp_all add: s lex_int_def)
  qed
qed

lemma lex_frac_again:
  assumes "lex_frac s = Some (b, r)"
  shows "s = b @ r \<and> no_digit b \<and> (\<forall>x. no_digit x \<and> (b = [] \<longrightarrow> x = [] \<or> hd x \<noteq> CHR ''.'') \<longrightarrow> lex_frac (b @ x) = Some (b, x))"
proof -
  consider "b = []" "s = r" | u where "s = CHR ''.'' # u" "lex_digits ''.'' u = Some (b, r)"
    using assms by (cases s) (auto simp: lex_frac_def split: if_splits)
  then show ?thesis
  proof cases
    case 1
    then show ?thesis
      by (auto simp: lex_frac_def no_digit_def split: list.split)
  next
    case 2
    from lex_digits_again [OF 2(2)] 2(1) show ?thesis
      by (auto simp: lex_frac_def no_digit_def is_digit_def)
  qed
qed

lemma lex_exp_again:
  assumes "lex_exp s = Some (c, r)"
  shows "s = c @ r \<and> no_digit c \<and> (c = [] \<or> hd c \<noteq> CHR ''.'') \<and> lex_exp c = Some (c, [])"
proof -
  have nil: "no_digit []" by (simp add: no_digit_def)
  consider "c = []" "s = r" | e u where "s = e # u" "e = CHR ''e'' \<or> e = CHR ''E''" "u \<noteq> []"
      "hd u \<noteq> CHR ''+''" "hd u \<noteq> CHR ''-''" "lex_digits [e] u = Some (c, r)"
    | e d u where "s = e # d # u" "e = CHR ''e'' \<or> e = CHR ''E''" "d = CHR ''+'' \<or> d = CHR ''-''" "lex_digits [e, d] u = Some (c, r)"
    using assms by (cases s; cases "tl s") (auto simp: lex_exp_def split: if_splits)
  then show ?thesis
  proof cases
    case 1
    then show ?thesis
      by (simp_all add: lex_exp_def no_digit_def)
  next
    case 2
    obtain ds where ds: "c = e # ds" "u = ds @ r" "lex_digits [e] ds = Some (c, [])"
      using lex_digits_again [OF 2(6)] nil by fastforce
    then have "ds \<noteq> []" by (auto simp: lex_digits_def)
    with 2 ds show ?thesis
      by (auto simp: lex_exp_def no_digit_def is_digit_def split: list.split)
  next
    case 3
    obtain ds where "c = e # d # ds" "u = ds @ r" "lex_digits [e, d] ds = Some (c, [])"
      using lex_digits_again [OF 3(4)] nil by fastforce
    with 3 show ?thesis
      by (auto simp: lex_exp_def no_digit_def is_digit_def)
  qed
qed

lemma lex_unsigned_again:
  assumes "lex_unsigned s = Some (l, r)"
  shows "s = l @ r \<and> l \<noteq> [] \<and> lex_unsigned l = Some (l, [])"
proof -
  obtain a s1 b s2 c where p: "lex_int s = Some (a, s1)" "lex_frac s1 = Some (b, s2)" "lex_exp s2 = Some (c, r)" "l = a @ b @ c"
    using assms by (auto simp: lex_unsigned_def split: option.splits)
  note i = lex_int_again [OF p(1)] and f = lex_frac_again [OF p(2)] and e = lex_exp_again [OF p(3)]
  have "no_digit (b @ c)" using f e by (cases b) (auto simp: no_digit_def)
  with i f e p(4) show ?thesis by (simp add: lex_unsigned_def)
qed

lemma lex_number_again:
  assumes "lex_number s = Some (l, r)"
  shows "lex_number l = Some (l, []) \<and> length r < length s"
proof -
  obtain c u where s: "s = c # u" using assms by (cases s) (auto simp: lex_number_def)
  show ?thesis
  proof (cases "c = CHR ''-''")
    case True
    with assms s lex_unsigned_again [of u] show ?thesis by (fastforce simp: lex_number_def)
  next
    case False
    with assms s have u: "lex_unsigned s = Some (l, r)" by (simp add: lex_number_def)
    from lex_unsigned_again [OF this] s False show ?thesis
      by (cases l) (auto simp: lex_number_def)
  qed
qed

subsection \<open>Values\<close>

definition sound_parser :: "nat \<Rightarrow> parser \<Rightarrow> bool" where
  "sound_parser d p \<longleftrightarrow>
     (\<forall>s v r. p s = Some (v, r) \<longrightarrow> length r < length s \<and> wf_json v \<and> depth v \<le> d)"

lemma lex_elements_sound:
  "sound_parser d p \<Longrightarrow> lex_elements p n s = Some (vs, r) \<Longrightarrow>
   length r < length s \<and> (\<forall>v \<in> set vs. wf_json v \<and> depth v \<le> d)"
proof (induction p n s arbitrary: vs r rule: lex_elements.induct)
  case (2 p n s)
  obtain v u c w where p: "p s = Some (v, u)" "skip_ws u = c # w" "c = CHR '','' \<or> c = CHR '']''"
    using 2(3) by (auto split: option.splits list.splits if_splits)
  have v: "length u < length s" "wf_json v" "depth v \<le> d" using 2(2) p(1) by (auto simp: sound_parser_def)
  note w = skip_ws_Cons [OF p(2)]
  show ?case
  proof (cases "c = CHR '','' ")
    case True
    then obtain ws where ws: "lex_elements p n w = Some (ws, r)" "vs = v # ws" using 2(3) p by auto
    from 2(1) [OF p(1) refl p(2) True 2(2) ws(1)] ws(2) v w show ?thesis by auto
  next
    case False
    with 2(3) p v w show ?thesis by auto
  qed
qed simp

lemma lex_key_sound: "lex_key s = Some (k, r) \<Longrightarrow> valid_utf8 k \<and> length r < length s"
  by (auto simp: lex_key_def split: list.splits option.splits if_splits dest!: skip_ws_Cons lex_string_valid)

lemma lex_fields_sound:
  "sound_parser d p \<Longrightarrow> lex_fields p n s = Some (fs, r) \<Longrightarrow>
   length r < length s \<and> (\<forall>f \<in> set fs. valid_utf8 (fst f) \<and> wf_json (snd f) \<and> depth (snd f) \<le> d)"
proof (induction p n s arbitrary: fs r rule: lex_fields.induct)
  case (2 p n s)
  obtain k r0 v u c w where p: "lex_key s = Some (k, r0)" "p r0 = Some (v, u)" "skip_ws u = c # w"
    "c = CHR '','' \<or> c = CHR ''}''"
    using 2(3) by (auto split: option.splits list.splits if_splits)
  have v: "length u < length r0" "wf_json v" "depth v \<le> d" using 2(2) p(2) by (auto simp: sound_parser_def)
  note w = skip_ws_Cons [OF p(3)] lex_key_sound [OF p(1)]
  show ?case
  proof (cases "c = CHR '','' ")
    case True
    then obtain gs where gs: "lex_fields p n w = Some (gs, r)" "fs = (k, v) # gs" using 2(3) p by auto
    from 2(1) [OF p(1) refl p(2) refl p(3) True 2(2) gs(1)] gs(2) v w show ?thesis by auto
  next
    case False
    with 2(3) p v w show ?thesis by auto
  qed
qed simp

lemma skip_ws_tl: "skip_ws r \<noteq> [] \<Longrightarrow> length (tl (skip_ws r)) < Suc (length r)"
  using skip_ws_length [of r] by (cases "skip_ws r") auto

lemma lex_array_sound: "sound_parser d p \<Longrightarrow> lex_array p r = Some (v, t) \<Longrightarrow>
  length t < Suc (length r) \<and> wf_json v \<and> depth v \<le> Suc d"
  using skip_ws_tl [of r]
  by (auto simp: lex_array_def max_fold_le list_all_iff split: if_splits dest!: lex_elements_sound)

lemma lex_object_sound: "sound_parser d p \<Longrightarrow> lex_object p r = Some (v, t) \<Longrightarrow>
  length t < Suc (length r) \<and> wf_json v \<and> depth v \<le> Suc d"
  using skip_ws_tl [of r]
  by (auto simp: lex_object_def max_fold_le list_all_iff split: if_splits dest!: lex_fields_sound)

lemma keyword_sound: "keyword w v s = Some (x, r) \<Longrightarrow> w \<noteq> [] \<Longrightarrow> x = v \<and> length r < length s"
  by (cases s) (auto simp: keyword_def HasPrefix_def split: if_splits)

lemma lex_value_scalar:
  assumes "lex_value inner s = Some (v, r)" "skip_ws s = c # u" "c \<noteq> CHR ''[''" "c \<noteq> CHR ''{''"
  shows "length r < length s \<and> wf_json v \<and> depth v = 0"
proof -
  have len: "length (c # u) \<le> length s" using skip_ws_length [of s] assms(2) by simp
  show ?thesis
  proof (cases "c = CHR 0x22")
    case True
    with assms obtain t where "lex_string u = Some (t, r)" "v = JStr t" by (auto simp: lex_value_def)
    then show ?thesis using lex_string_valid [of u] len by simp
  next
    case nq: False
    show ?thesis
    proof (cases "c = CHR ''t'' \<or> c = CHR ''f'' \<or> c = CHR ''n''")
      case True
      then obtain w x where w: "keyword w x (c # u) = Some (v, r)" "w \<noteq> []" "wf_json x \<and> depth x = 0"
      proof (elim disjE)
        assume c: "c = CHR ''t''"
        show thesis by (rule that [of "''true''" "JBool True"]) (use assms c in \<open>simp_all add: lex_value_def\<close>)
      next
        assume c: "c = CHR ''f''"
        show thesis by (rule that [of "''false''" "JBool False"]) (use assms c in \<open>simp_all add: lex_value_def\<close>)
      next
        assume c: "c = CHR ''n''"
        show thesis by (rule that [of "''null''" JNull]) (use assms c in \<open>simp_all add: lex_value_def\<close>)
      qed
      from keyword_sound [OF w(1,2)] w(3) len show ?thesis by simp
    next
      case False
      with assms nq obtain l where "lex_number (c # u) = Some (l, r)" "v = JNum l" by (auto simp: lex_value_def)
      then show ?thesis using lex_number_again [of "c # u"] len by auto
    qed
  qed
qed

lemma parse_value_sound: "sound_parser d (parse_value d)"
proof (induction d)
  case 0
  have "length r < length s \<and> wf_json v \<and> depth v = 0" if v: "parse_value 0 s = Some (v, r)" for s v r
  proof -
    obtain c u where cu: "skip_ws s = c # u" using v by (cases "skip_ws s") (auto simp: lex_value_def)
    with v have "c \<noteq> CHR ''[''" "c \<noteq> CHR ''{''" by (auto simp: lex_value_def)
    with lex_value_scalar [OF _ cu] v show ?thesis by simp
  qed
  then show ?case by (simp add: sound_parser_def)
next
  case (Suc d)
  have "length r < length s \<and> wf_json v \<and> depth v \<le> Suc d" if v: "parse_value (Suc d) s = Some (v, r)" for s v r
  proof -
    obtain c u where cu: "skip_ws s = c # u" using v by (cases "skip_ws s") (auto simp: lex_value_def)
    then have len: "length (c # u) \<le> length s" using skip_ws_length [of s] by simp
    consider "c = CHR ''[''" | "c = CHR ''{''" | "c \<noteq> CHR ''[''" "c \<noteq> CHR ''{''" by blast
    then show ?thesis
    proof cases
      case 1
      with v cu have "lex_array (parse_value d) u = Some (v, r)" by (simp add: lex_value_def)
      from lex_array_sound [OF Suc this] len show ?thesis by simp
    next
      case 2
      with v cu have "lex_object (parse_value d) u = Some (v, r)" by (simp add: lex_value_def)
      from lex_object_sound [OF Suc this] len show ?thesis by simp
    next
      case 3
      with lex_value_scalar [OF _ cu] v show ?thesis by simp
    qed
  qed
  then show ?case by (simp add: sound_parser_def)
qed

lemma parse_value_consumes: "consumes (parse_value d)"
  using parse_value_sound [of d] by (simp add: sound_parser_def consumes_def)

lemma json_parse_sound: "json_parse s = Some v \<Longrightarrow> wf_json v \<and> depth v \<le> maxNestingDepth"
  using parse_value_sound [of maxNestingDepth]
  by (auto simp: json_parse_def parse_within_def sound_parser_def split: option.splits if_splits)

section \<open>ASCII and concatenation\<close>

definition ascii :: "string \<Rightarrow> bool" where
  "ascii = list_all (\<lambda>c. code c < 0x80)"

lemma ascii_simps [simp]:
  "ascii []" "ascii (c # s) \<longleftrightarrow> code c < 0x80 \<and> ascii s" "ascii (s @ t) \<longleftrightarrow> ascii s \<and> ascii t"
  by (simp_all add: ascii_def)

lemma ascii_width: "code c < 0x80 \<Longrightarrow> utf8_width (c # s) = 1"
  by (simp add: utf8_width_def lead_width_def)

lemma valid_ascii_Cons: "code c < 0x80 \<Longrightarrow> valid_utf8 (c # s) \<longleftrightarrow> valid_utf8 s"
  by (simp add: valid_utf8.simps [of "c # s"] ascii_width)

lemma valid_Nil [simp]: "valid_utf8 []"
  by (simp add: valid_utf8.simps)

lemma ascii_valid: "ascii s \<Longrightarrow> valid_utf8 s"
  by (induction s) (simp_all add: valid_ascii_Cons)

lemma valid_append: "valid_utf8 s \<Longrightarrow> valid_utf8 t \<Longrightarrow> valid_utf8 (s @ t)"
proof (induction s rule: valid_utf8.induct)
  case (1 s)
  show ?case
  proof (cases "s = []")
    case False
    with 1(2) have w: "utf8_width s \<noteq> 0" "valid_utf8 (drop (utf8_width s) s)"
      by (simp_all add: valid_utf8.simps [of s] split: if_splits)
    have "valid_utf8 (take (utf8_width s) s @ (drop (utf8_width s) s @ t))"
      using valid_rune_append [OF rune_prefix] w(1) 1(1) [OF False w 1(3)] by simp
    then show ?thesis by (simp flip: append_assoc)
  qed (use 1 in simp)
qed

lemma ascii_decimal: "ascii (decimal n)"
proof (induction n rule: decimal.induct)
  case (1 n)
  have "code (digit_char k) < 0x80" if "k < 10" for k
    using that by (simp add: digit_char_def)
  with 1 show ?case by (subst decimal.simps) auto
qed

lemma ascii_Itoa [simp]: "ascii (Itoa n)"
  by (simp add: Itoa_def ascii_decimal)

section \<open>Samples\<close>


lemma spaced_numbers: "parse_within 1 ''[ 1,-2.5e3 ] '' = Some (JArr [JNum ''1'', JNum ''-2.5e3''])"
  by code_simp

lemma rejected_texts:
  "parse_within 1 ''[01]'' = None" "parse_within 1 ''[1,]'' = None" "parse_within 1 ''[1]]'' = None" "parse_within 1 ''[[]]'' = None"
  by code_simp+

lemma surrogate_pair:
  "lex_string ([CHR 0x5C] @ ''ud83d'' @ [CHR 0x5C] @ ''ude00'' @ [CHR 0x22]) = Some ([CHR 0xF0, CHR 0x9F, CHR 0x98, CHR 0x80], [])"
  by (simp add: lex_string.simps [of "_ # _"] unescape_def hex4_def hex_value_def unescape_unit_def second_unit_def utf8_encode_def)
  (intro conjI char_eqI, simp_all)
end
