(* ===== verification/Plan.thy ===== *)
theory Plan
  imports JsonText
begin

text \<open>
  The published offer (src/internal/web/plan.go) and the contact details and labels beside it
  (src/internal/web/landing.go): figures formatted once for every page that quotes them.
  Texts are bytes of UTF-8; the Lithuanian ones are written in ASCII and expanded by \<open>lt\<close>.
  \<open>humanize.Comma\<close> and the library's URL parser are arguments.
\<close>

section \<open>Lithuanian texts\<close>

text \<open>The glyph behind a tilde; \<open>~n\<close> is a newline, \<open>~t\<close> a tab, \<open>~q\<close> and \<open>~k\<close> a double and a single
  quote, \<open>~b\<close> a backslash; the digits and \<open>~x\<close> are the signs and arrows of the pages.\<close>

definition glyph :: "char \<Rightarrow> string" where
  "glyph c =
     (if c = CHR ''a'' then [CHR 0xC4, CHR 0x85]
      else if c = CHR ''c'' then [CHR 0xC4, CHR 0x8D]
      else if c = CHR ''e'' then [CHR 0xC4, CHR 0x99]
      else if c = CHR ''h'' then [CHR 0xC4, CHR 0x97]
      else if c = CHR ''i'' then [CHR 0xC4, CHR 0xAF]
      else if c = CHR ''s'' then [CHR 0xC5, CHR 0xA1]
      else if c = CHR ''u'' then [CHR 0xC5, CHR 0xB3]
      else if c = CHR ''w'' then [CHR 0xC5, CHR 0xAB]
      else if c = CHR ''z'' then [CHR 0xC5, CHR 0xBE]
      else if c = CHR ''A'' then [CHR 0xC4, CHR 0x84]
      else if c = CHR ''C'' then [CHR 0xC4, CHR 0x8C]
      else if c = CHR ''E'' then [CHR 0xC4, CHR 0x98]
      else if c = CHR ''H'' then [CHR 0xC4, CHR 0x96]
      else if c = CHR ''I'' then [CHR 0xC4, CHR 0xAE]
      else if c = CHR ''S'' then [CHR 0xC5, CHR 0xA0]
      else if c = CHR ''U'' then [CHR 0xC5, CHR 0xB2]
      else if c = CHR ''W'' then [CHR 0xC5, CHR 0xAA]
      else if c = CHR ''Z'' then [CHR 0xC5, CHR 0xBD]
      else if c = CHR ''m'' then [CHR 0xE2, CHR 0x80, CHR 0x94]
      else if c = CHR ''l'' then [CHR 0xE2, CHR 0x80, CHR 0x9E]
      else if c = CHR ''r'' then [CHR 0xE2, CHR 0x80, CHR 0x9C]
      else if c = CHR ''o'' then [CHR 0xE2, CHR 0x82, CHR 0xAC]
      else if c = CHR ''n'' then [CHR 0x0A]
      else if c = CHR ''q'' then [CHR 0x22]
      else if c = CHR ''1'' then [CHR 0xC2, CHR 0xB7]
      else if c = CHR ''2'' then [CHR 0xE2, CHR 0x96, CHR 0x89]
      else if c = CHR ''3'' then [CHR 0xE2, CHR 0x94, CHR 0x8C]
      else if c = CHR ''4'' then [CHR 0xE2, CHR 0x94, CHR 0x80]
      else if c = CHR ''5'' then [CHR 0xE2, CHR 0x97, CHR 0x8F]
      else if c = CHR ''6'' then [CHR 0xE2, CHR 0x86, CHR 0x91]
      else if c = CHR ''7'' then [CHR 0xE2, CHR 0x86, CHR 0x92]
      else if c = CHR ''8'' then [CHR 0xE2, CHR 0x80, CHR 0xA6]
      else if c = CHR ''9'' then [CHR 0xE2, CHR 0x9C, CHR 0x89]
      else if c = CHR ''0'' then [CHR 0xE2, CHR 0x98, CHR 0x8E]
      else if c = CHR ''x'' then [CHR 0xE2, CHR 0x86, CHR 0x90]
      else if c = CHR ''b'' then [CHR 0x5C]
      else if c = CHR ''k'' then [CHR 0x27]
      else if c = CHR ''t'' then [CHR 0x09]
      else [c])"

fun lt :: "string \<Rightarrow> string" where
  "lt [] = []"
| "lt (c # cs) =
     (if c = CHR ''~'' then (case cs of [] \<Rightarrow> [] | d # ds \<Rightarrow> glyph d @ lt ds) else c # lt cs)"

lemma rune_glyph: "code c < 0x80 \<Longrightarrow> rune (glyph c)"
  by (simp add: glyph_def rune_def utf8_width_def lead_width_def second_byte_def between_def Let_def)

lemma valid_lt: "ascii s \<Longrightarrow> valid_utf8 (lt s)"
  by (induction s rule: lt.induct) (auto simp: valid_ascii_Cons intro!: valid_rune_append rune_glyph split: list.split)

section \<open>The offer\<close>

record plan =
  PL_PriceEUR :: int
  PL_VATPercent :: int
  PL_PriceExVAT :: string
  PL_PriceIncVAT :: string
  PL_VATLabel :: string

text \<open>The format \<open>%02d\<close>.\<close>

definition two_digits :: "int \<Rightarrow> string" where
  "two_digits n = (if length (Itoa n) < 2 then CHR ''0'' # Itoa n else Itoa n)"

definition NewPlan :: "int \<Rightarrow> int \<Rightarrow> plan" where
  "NewPlan priceEUR vatPercent =
     (let cents = i64 (priceEUR * i64 (100 + vatPercent))
      in \<lparr>PL_PriceEUR = priceEUR, PL_VATPercent = vatPercent, PL_PriceExVAT = Itoa priceEUR,
          PL_PriceIncVAT = Itoa (go_div cents 100) @ '','' @ two_digits (go_mod cents 100),
          PL_VATLabel = Itoa vatPercent @ ''%''\<rparr>)"

definition HasVAT :: "plan \<Rightarrow> bool" where
  "HasVAT p \<longleftrightarrow> 0 < PL_VATPercent p"

definition priceSentence :: "plan \<Rightarrow> string" where
  "priceSentence p =
     (if \<not> HasVAT p then PL_PriceExVAT p @ lt '' ~o per m~hnes~i''
      else PL_PriceExVAT p @ lt '' ~o + PVM per m~hnes~i ('' @ PL_PriceIncVAT p @ lt '' ~o su PVM)'')"

definition ltPlural :: "int \<Rightarrow> string \<Rightarrow> string \<Rightarrow> string \<Rightarrow> string" where
  "ltPlural n one few many =
     (let last2 = go_mod n 100; last1 = go_mod n 10
      in if 11 \<le> last2 \<and> last2 \<le> 19 then many
         else if last1 = 1 then one
         else if last1 = 0 then many else few)"

definition ratePhrase :: "int \<Rightarrow> string" where
  "ratePhrase perMin =
     Itoa perMin @ '' '' @ ltPlural perMin (lt ''u~zklausa'') (lt ''u~zklausos'') (lt ''u~zklaus~u'') @
     lt '' per minut~e''"

definition batchPhrase :: "int \<Rightarrow> string" where
  "batchPhrase batchMax =
     Itoa batchMax @ '' '' @ ltPlural batchMax ''tekstas'' ''tekstai'' (lt ''tekst~u'') @
     lt '' vienoje u~zklausoje''"

definition tokenBudgetLabel :: "(int \<Rightarrow> string) \<Rightarrow> int \<Rightarrow> string" where
  "tokenBudgetLabel comma budget = (if budget < 0 then ''neriboti'' else comma budget)"

section \<open>Contact\<close>

record contact =
  C_Email :: string
  C_Phone :: string
  C_PhoneLabel :: string
  C_CompanyURL :: string
  C_CompanyName :: string

definition groupPhone :: "string \<Rightarrow> string" where
  "groupPhone phone =
     (if length phone \<noteq> 12 \<or> \<not> HasPrefix phone ''+3706'' then phone
      else take 4 phone @ '' '' @ take 3 (drop 4 phone) @ '' '' @ drop 7 phone)"

text \<open>\<open>parse_url\<close> returns scheme and host, or None on a parse error.\<close>

definition hostOf :: "(string \<Rightarrow> (string \<times> string) option) \<Rightarrow> string \<Rightarrow> string" where
  "hostOf parse_url rawURL =
     (case parse_url rawURL of
        None \<Rightarrow> rawURL
      | Some (scheme, host) \<Rightarrow> if host = '''' then rawURL else TrimPrefix host ''www.'')"

definition NewContact :: "(string \<Rightarrow> (string \<times> string) option) \<Rightarrow> string \<Rightarrow> string \<Rightarrow> string \<Rightarrow> contact" where
  "NewContact parse_url email phone companyURL =
     \<lparr>C_Email = email, C_Phone = phone, C_PhoneLabel = groupPhone phone,
      C_CompanyURL = companyURL, C_CompanyName = hostOf parse_url companyURL\<rparr>"

lemma phone_digits_kept: "\<forall>c \<in> set phone. c \<noteq> CHR '' '' \<Longrightarrow> filter (\<lambda>c. c \<noteq> CHR '' '') (groupPhone phone) = phone"
proof -
  assume p: "\<forall>c \<in> set phone. c \<noteq> CHR '' ''"
  have f: "filter (\<lambda>c. c \<noteq> CHR '' '') s = s" if "set s \<subseteq> set phone" for s
    using p that by (auto intro!: filter_True)
  have "take 4 phone @ take 3 (drop 4 phone) @ drop 7 phone = phone"
    using append_take_drop_id [of 4 phone] append_take_drop_id [of 3 "drop 4 phone"] by simp
  then show ?thesis
    using set_take_subset [of 4 phone] set_drop_subset [of 7 phone] set_take_subset [of 3 "drop 4 phone"]
      set_drop_subset [of 4 phone]
    by (auto simp: groupPhone_def f)
qed

section \<open>The figures\<close>

lemma decimal_chars: "list_all is_digit (decimal n)"
proof (induction n rule: decimal.induct)
  case (1 n)
  have "is_digit (digit_char k)" if "k < 10" for k
    using that by (simp add: is_digit_def digit_char_def)
  with 1 show ?case by (subst decimal.simps) auto
qed

lemma Itoa_digits: "0 \<le> n \<Longrightarrow> list_all is_digit (Itoa n)"
  by (simp add: Itoa_def decimal_chars)

lemma comma_split:
  "list_all is_digit s \<Longrightarrow> takeWhile (\<lambda>c. c \<noteq> CHR '','') (s @ CHR '','' # t) = s"
  "list_all is_digit s \<Longrightarrow> dropWhile (\<lambda>c. c \<noteq> CHR '','') (s @ CHR '','' # t) = CHR '','' # t"
  by (induction s) (auto simp: is_digit_def)

lemma decimal_length: "n < 10 \<Longrightarrow> length (decimal n) = 1" "10 \<le> n \<Longrightarrow> n < 100 \<Longrightarrow> length (decimal n) = 2"
  by (simp_all add: decimal.simps [of n] decimal.simps [of "n div 10"])

lemma two_digits_length: "0 \<le> n \<Longrightarrow> n < 100 \<Longrightarrow> length (two_digits n) = 2"
  using decimal_length [of "nat n"] by (cases "n < 10") (auto simp: two_digits_def Itoa_def)

lemma ParseInt_two_digits: "0 \<le> n \<Longrightarrow> n < 100 \<Longrightarrow> ParseInt (two_digits n) = Some n"
proof -
  assume n: "0 \<le> n" "n < 100"
  then have "digits_from 0 (decimal (nat n)) = Some n" by (simp add: digits_decimal)
  then have "ParseInt (CHR ''0'' # decimal (nat n)) = Some n"
    using n by (simp add: ParseInt_def digits_def digit_value_def)
  then have "ParseInt (CHR ''0'' # Itoa n) = Some n" using n by (simp add: Itoa_def)
  moreover have "ParseInt (Itoa n) = Some n" using n by simp
  ultimately show ?thesis by (simp add: two_digits_def)
qed

lemma ltPlural_table:
  "map (\<lambda>n. ltPlural n ''one'' ''few'' ''many'') [1, 21, 101, 2, 25, 399, 10, 100, 11, 19, 111] =
   [''one'', ''one'', ''one'', ''few'', ''few'', ''few'', ''many'', ''many'', ''many'', ''many'', ''many'']"
  by (simp add: ltPlural_def go_mod_nonneg)

text \<open>C36: the invoice figure is exact to the cent. Read back from the page, euros and cents of the
  VAT-inclusive price are exactly the price times one hundred plus the rate, with two digits of
  cents, whatever price and rate, as long as the amount in cents is a 64-bit integer.\<close>

theorem published_price_exact:
  assumes "0 \<le> price" and "0 \<le> vat" and "price * (100 + vat) \<le> max_i64" and "100 + vat \<le> max_i64"
  defines "s \<equiv> PL_PriceIncVAT (NewPlan price vat)"
  shows "\<exists>euros cents. ParseInt (takeWhile (\<lambda>c. c \<noteq> CHR '','') s) = Some euros \<and>
    ParseInt (tl (dropWhile (\<lambda>c. c \<noteq> CHR '','') s)) = Some cents \<and>
    length (tl (dropWhile (\<lambda>c. c \<noteq> CHR '','') s)) = 2 \<and> cents < 100 \<and>
    euros * 100 + cents = price * (100 + vat) \<and> ParseInt (PL_PriceExVAT (NewPlan price vat)) = Some price"
proof -
  let ?t = "price * (100 + vat)"
  have "i64 (100 + vat) = 100 + vat" using assms(2,4) by (intro i64_id) simp
  moreover have t: "0 \<le> ?t" using assms(1,2) by simp
  ultimately have "i64 (price * i64 (100 + vat)) = ?t" using assms(3) by (simp add: i64_id)
  then have s: "s = Itoa (?t div 100) @ CHR '','' # two_digits (?t mod 100)"
    using t by (simp add: s_def NewPlan_def Let_def go_div_nonneg go_mod_nonneg)
  have d: "list_all is_digit (Itoa (?t div 100))" using t by (intro Itoa_digits) (simp add: pos_imp_zdiv_nonneg_iff)
  have "?t div 100 \<le> ?t" using t by linarith
  then have "in_i64 (?t div 100)" using t assms(3) by (simp add: pos_imp_zdiv_nonneg_iff)
  moreover have "price \<le> ?t" using assms(1,2) by (simp add: mult_le_cancel_left1)
  then have "in_i64 price" using assms(1,3) by simp
  ultimately show ?thesis
    using two_digits_length [of "?t mod 100"] ParseInt_two_digits [of "?t mod 100"]
    by (simp add: s comma_split [OF d] NewPlan_def Let_def)
qed

theorem published_price_exact_witness:
  "PL_PriceIncVAT (NewPlan 50 21) = ''60,50'' \<and>
   (\<exists>euros cents. ParseInt ''60'' = Some euros \<and> ParseInt ''50'' = Some cents \<and> euros * 100 + cents = 50 * 121)"
proof -
  have s: "PL_PriceIncVAT (NewPlan 50 21) = ''60,50''" by code_simp
  from published_price_exact [of 50 21] s show ?thesis by simp blast
qed

end
