(* ===== verification/Markup.thy ===== *)
theory Markup
  imports Plan
begin

text \<open>
  What the generated templates (src/internal/web/*_templ.go) write, and what a browser makes of
  it. A template is a list of pieces, one for each write of the generated code; \<open>render\<close>
  performs them with the functions of the templ library, which are arguments. \<open>scan\<close> reads the
  bytes as HTML; \<open>check\<close> follows a template without knowing the texts in it, and
  \<open>check_sound\<close> shows that this is what a browser sees of every page written.
\<close>

section \<open>Pieces and their rendering\<close>

text \<open>A class attribute is a list of names, some under a condition (\<open>templ.KV\<close>).\<close>

datatype class_item = Cls string | KV string bool

text \<open>\<open>Begin\<close> is the test of the context at the beginning of a component; \<open>Lit\<close> a literal, \<open>Txt\<close> a text,
  \<open>Url\<close> an address, \<open>Sty\<close> a style and \<open>Att\<close> any other attribute value; \<open>Css\<close> writes the style
  elements of a class list and \<open>CssAtt\<close> the list itself; \<open>RawHTML\<close> is \<open>templ.Raw\<close>.\<close>

datatype piece =
    Begin | Lit string | Txt string | Url string | Sty string | Att string
  | Css "class_item list" | CssAtt "class_item list" | RawHTML string

text \<open>The templ library. What a write and the test of the context return may depend on what was
  written before.\<close>

record templ_rt =
  ctx_err :: "string \<Rightarrow> string option"
  write_err :: "string \<Rightarrow> string \<Rightarrow> string option"
  EscapeString :: "string \<Rightarrow> string"
  ResolveAttributeValue :: "string \<Rightarrow> string + string"
  JoinStringErrs :: "string \<Rightarrow> string + string"
  JoinURLErrs :: "string \<Rightarrow> string + string"
  SanitizeStyle :: "string \<Rightarrow> string + string"
  CSSClasses :: "class_item list \<Rightarrow> string"
  RenderCSSItems :: "class_item list \<Rightarrow> string + string"

fun emit_piece :: "templ_rt \<Rightarrow> string \<Rightarrow> piece \<Rightarrow> string + string" where
  "emit_piece rt b Begin = (case ctx_err rt b of Some e \<Rightarrow> Inl e | None \<Rightarrow> Inr [])"
| "emit_piece rt b (Lit s) = Inr s"
| "emit_piece rt b (Txt s) = map_sum id (EscapeString rt) (JoinStringErrs rt s)"
| "emit_piece rt b (Url s) = map_sum id (EscapeString rt) (JoinURLErrs rt s)"
| "emit_piece rt b (Sty s) = map_sum id (EscapeString rt) (SanitizeStyle rt s)"
| "emit_piece rt b (Att s) = ResolveAttributeValue rt s"
| "emit_piece rt b (Css xs) = RenderCSSItems rt xs"
| "emit_piece rt b (CssAtt xs) = ResolveAttributeValue rt (CSSClasses rt xs)"
| "emit_piece rt b (RawHTML s) = Inr s"

text \<open>The first error ends the rendering.\<close>

fun render :: "templ_rt \<Rightarrow> piece list \<Rightarrow> string \<Rightarrow> string + string" where
  "render rt [] b = Inr b"
| "render rt (p # ps) b =
     (case emit_piece rt b p of
        Inl e \<Rightarrow> Inl e
      | Inr s \<Rightarrow> (case write_err rt b s of Some e \<Rightarrow> Inl e | None \<Rightarrow> render rt ps (b @ s)))"

section \<open>Reading HTML\<close>

text \<open>The part of the HTML syntax the templates use; a script element is raw text up to its end tag.
  Anything else is \<open>Bad\<close>, for good. The names and values being read are kept in reverse.\<close>

datatype mode =
    Data | Tag | OpenTag string | CloseTag string | Inside string | AttrName string string
  | AttrEq string string | AttrVal string string string | Declaration
  | Script | ScriptLt | ScriptEnd string | Bad

text \<open>The mode, the open elements, and the ids seen so far, innermost and latest first.\<close>

type_synonym reading = "mode \<times> string list \<times> string list"

definition void_tags :: "string list" where
  "void_tags = [''meta'', ''link'', ''br'', ''hr'', ''img'', ''input'']"

definition open_element :: "string \<Rightarrow> string list \<Rightarrow> string list \<Rightarrow> reading" where
  "open_element t st ids =
     (if t \<in> set void_tags then (Data, st, ids)
      else if t = ''script'' then (Script, t # st, ids) else (Data, t # st, ids))"

definition close_element :: "string \<Rightarrow> string list \<Rightarrow> string list \<Rightarrow> reading" where
  "close_element t st ids =
     (case st of [] \<Rightarrow> (Bad, st, ids) | u # r \<Rightarrow> if u = t then (Data, r, ids) else (Bad, st, ids))"

fun scan1 :: "char \<Rightarrow> reading \<Rightarrow> reading" where
  "scan1 c (Data, st, ids) = (if c = CHR ''<'' then (Tag, st, ids) else (Data, st, ids))"
| "scan1 c (Tag, st, ids) =
     (if c = CHR ''/'' then (CloseTag [], st, ids) else if c = CHR ''!'' then (Declaration, st, ids)
      else (OpenTag [c], st, ids))"
| "scan1 c (OpenTag t, st, ids) =
     (if c = CHR ''>'' then open_element (rev t) st ids
      else if c = CHR '' '' then (Inside (rev t), st, ids) else (OpenTag (c # t), st, ids))"
| "scan1 c (CloseTag t, st, ids) =
     (if c = CHR ''>'' then close_element (rev t) st ids else (CloseTag (c # t), st, ids))"
| "scan1 c (Inside t, st, ids) =
     (if c = CHR ''>'' then open_element t st ids
      else if c = CHR '' '' then (Inside t, st, ids) else (AttrName t [c], st, ids))"
| "scan1 c (AttrName t a, st, ids) =
     (if c = CHR ''='' then (AttrEq t (rev a), st, ids) else if c = CHR ''>'' then (Bad, st, ids)
      else (AttrName t (c # a), st, ids))"
| "scan1 c (AttrEq t a, st, ids) = (if c = CHR 0x22 then (AttrVal t a [], st, ids) else (Bad, st, ids))"
| "scan1 c (AttrVal t a v, st, ids) =
     (if c = CHR 0x22 then (Inside t, st, if a = ''id'' then rev v # ids else ids)
      else (AttrVal t a (if a = ''id'' then c # v else v), st, ids))"
| "scan1 c (Declaration, st, ids) = (if c = CHR ''>'' then (Data, st, ids) else (Declaration, st, ids))"
| "scan1 c (Script, st, ids) = (if c = CHR ''<'' then (ScriptLt, st, ids) else (Script, st, ids))"
| "scan1 c (ScriptLt, st, ids) = (if c = CHR ''/'' then (ScriptEnd [], st, ids) else (Bad, st, ids))"
| "scan1 c (ScriptEnd t, st, ids) =
     (if c = CHR ''>'' then (if rev t = ''script'' then close_element (rev t) st ids else (Bad, st, ids))
      else (ScriptEnd (c # t), st, ids))"
| "scan1 c (Bad, st, ids) = (Bad, st, ids)"

definition scan :: "string \<Rightarrow> reading \<Rightarrow> reading" where
  "scan s r = fold scan1 s r"

lemma scan_simps [simp]:
  "scan [] r = r" "scan (c # s) r = scan s (scan1 c r)" "scan (s @ t) r = scan t (scan s r)"
  by (simp_all add: scan_def)

lemma scan_Bad [simp]: "scan s (Bad, st, ids) = (Bad, st, ids)"
  by (induction s) simp_all

text \<open>A whole document, and the ids in it: every element is closed again.\<close>

definition well_formed_html :: "string \<Rightarrow> string list \<Rightarrow> bool" where
  "well_formed_html s ids \<longleftrightarrow> scan s (Data, [], []) = (Data, [], rev ids)"

section \<open>Following a template\<close>

text \<open>A value may be the id of an element only if it needs no escaping.\<close>

definition plain :: "string \<Rightarrow> bool" where
  "plain s \<longleftrightarrow> list_all (\<lambda>c. c \<notin> {CHR ''<'', CHR ''>'', CHR ''&'', CHR 0x22, CHR 0x27}) s"

fun quoted :: "reading \<Rightarrow> reading" where
  "quoted (AttrVal t a v, st, ids) = (if a = ''id'' then (Bad, st, ids) else (AttrVal t a v, st, ids))"
| "quoted (m, st, ids) = (Bad, st, ids)"

fun follow :: "piece \<Rightarrow> reading \<Rightarrow> reading" where
  "follow Begin r = r"
| "follow (Css xs) r = r"
| "follow (Lit s) r = scan s r"
| "follow (RawHTML s) r = scan s r"
| "follow (Txt s) (m, st, ids) = (if m = Data then (m, st, ids) else (Bad, st, ids))"
| "follow (Att s) (AttrVal t a v, st, ids) =
     (if a = ''id'' then (if plain s then (AttrVal t a (rev s @ v), st, ids) else (Bad, st, ids))
      else (AttrVal t a v, st, ids))"
| "follow (Att s) (m, st, ids) = (Bad, st, ids)"
| "follow (Url s) r = quoted r"
| "follow (Sty s) r = quoted r"
| "follow (CssAtt xs) r = quoted r"

definition check :: "piece list \<Rightarrow> reading \<Rightarrow> reading" where
  "check ps r = fold follow ps r"

lemma check_simps [simp]:
  "check [] r = r" "check (p # ps) r = check ps (follow p r)" "check (ps @ qs) r = check qs (check ps r)"
  by (simp_all add: check_def)

lemma follow_Bad [simp]: "follow p (Bad, st, ids) = (Bad, st, ids)"
  by (cases p) simp_all

lemma check_Bad [simp]: "check ps (Bad, st, ids) = (Bad, st, ids)"
  by (induction ps) simp_all

text \<open>A template that opens no more than it closes, whatever is around it.\<close>

definition balanced :: "piece list \<Rightarrow> string list \<Rightarrow> bool" where
  "balanced ps new \<longleftrightarrow> (\<forall>st ids. check ps (Data, st, ids) = (Data, st, rev new @ ids))"

lemma balanced_check: "balanced ps new \<Longrightarrow> check ps (Data, st, ids) = (Data, st, rev new @ ids)"
  by (simp add: balanced_def)

lemma balanced_concat: "(\<And>x. x \<in> set xs \<Longrightarrow> balanced (f x) (g x)) \<Longrightarrow> balanced (concat (map f xs)) (concat (map g xs))"
  by (induction xs) (simp_all add: balanced_def)

text \<open>Reading an encoded literal from left to right, without expanding it first.\<close>

definition scan_glyph :: "string \<Rightarrow> reading \<Rightarrow> reading" where
  "scan_glyph = scan"

lemma scan_glyph_simps [simp]: "scan_glyph [] r = r" "scan_glyph (c # s) r = scan_glyph s (scan1 c r)"
  by (simp_all add: scan_glyph_def)

lemma scan_lt:
  "scan (lt []) r = r"
  "c \<noteq> CHR ''~'' \<Longrightarrow> scan (lt (c # s)) r = scan (lt s) (scan1 c r)"
  "scan (lt (CHR ''~'' # d # s)) r = scan (lt s) (scan_glyph (glyph d) r)"
  by (simp_all add: scan_glyph_def)

lemma check_if: "check (if b then ps else qs) r = (if b then check ps r else check qs r)"
  by simp

lemma left_to_right:
  "r = r' \<Longrightarrow> scan s r = scan s r'" "r = r' \<Longrightarrow> check ps r = check ps r'" "r = r' \<Longrightarrow> follow p r = follow p r'"
  by simp_all

lemmas html_steps = scan_lt check_if glyph_def open_element_def close_element_def void_tags_def

section \<open>What the library promises\<close>

text \<open>Escaped text contains no bracket and no quote, attribute values no quote and are left alone
  when there is nothing to escape, and names of classes have no style elements.\<close>

locale templ_runtime =
  fixes rt :: templ_rt
  assumes text_escaped: "c \<in> set (EscapeString rt s) \<Longrightarrow> c \<noteq> CHR ''<'' \<and> c \<noteq> CHR 0x22"
    and value_escaped: "ResolveAttributeValue rt s = Inr v \<Longrightarrow> CHR 0x22 \<notin> set v"
    and value_plain: "ResolveAttributeValue rt s = Inr v \<Longrightarrow> plain s \<Longrightarrow> v = s"
    and classes_silent: "RenderCSSItems rt xs = Inr v \<Longrightarrow> v = []"
begin

lemma scan_text: "CHR ''<'' \<notin> set s \<Longrightarrow> scan s (Data, st, ids) = (Data, st, ids)"
  by (induction s) auto

lemma scan_value: "CHR 0x22 \<notin> set s \<Longrightarrow> a \<noteq> ''id'' \<Longrightarrow> scan s (AttrVal t a v, st, ids) = (AttrVal t a v, st, ids)"
  by (induction s) auto

lemma scan_id: "CHR 0x22 \<notin> set s \<Longrightarrow> scan s (AttrVal t ''id'' v, st, ids) = (AttrVal t ''id'' (rev s @ v), st, ids)"
  by (induction s arbitrary: v) auto

lemma quoted_sound: "CHR 0x22 \<notin> set s \<Longrightarrow> fst (quoted r) \<noteq> Bad \<Longrightarrow> scan s r = quoted r"
  by (cases r rule: quoted.cases) (auto simp: scan_value split: if_splits)

lemma follow_sound:
  assumes "emit_piece rt b p = Inr s" "fst (follow p r) \<noteq> Bad"
  shows "scan s r = follow p r"
proof (cases p)
  case (Txt x)
  then have "s \<in> range (EscapeString rt)" using assms(1) by (cases "JoinStringErrs rt x") auto
  then have "CHR ''<'' \<notin> set s" using text_escaped by blast
  with assms(2) show ?thesis by (cases r) (auto simp: Txt scan_text split: if_splits)
next
  case (Url x)
  then have "s \<in> range (EscapeString rt)" using assms(1) by (cases "JoinURLErrs rt x") auto
  then have "CHR 0x22 \<notin> set s" using text_escaped by blast
  with assms(2) show ?thesis by (simp add: Url quoted_sound)
next
  case (Sty x)
  then have "s \<in> range (EscapeString rt)" using assms(1) by (cases "SanitizeStyle rt x") auto
  then have "CHR 0x22 \<notin> set s" using text_escaped by blast
  with assms(2) show ?thesis by (simp add: Sty quoted_sound)
next
  case (CssAtt xs)
  with assms value_escaped show ?thesis by (simp add: quoted_sound)
next
  case (Att x)
  have q: "CHR 0x22 \<notin> set s" using assms(1) value_escaped by (simp add: Att)
  show ?thesis
  proof (cases "\<exists>t a v st ids. r = (AttrVal t a v, st, ids)")
    case True
    then obtain t a v st ids where r: "r = (AttrVal t a v, st, ids)" by blast
    show ?thesis
    proof (cases "a = ''id''")
      case True
      with assms value_plain [of x s] have "s = x" by (auto simp: Att r split: if_splits)
      then show ?thesis using q assms(2) True by (auto simp: Att r scan_id split: if_splits)
    next
      case False
      with q show ?thesis by (simp add: Att r scan_value)
    qed
  next
    case False
    then have "fst (follow p r) = Bad" by (cases r; cases "fst r") (auto simp: Att)
    with assms(2) show ?thesis by simp
  qed
next
  case (Css xs)
  with assms(1) classes_silent [of xs s] show ?thesis by (simp add: Css)
qed (use assms in \<open>auto split: option.splits\<close>)

text \<open>Whatever the texts are, a browser reads what \<open>check\<close> says.\<close>

lemma check_sound:
  "render rt ps b = Inr out \<Longrightarrow> fst (check ps r) \<noteq> Bad \<Longrightarrow> \<exists>t. out = b @ t \<and> scan t r = check ps r"
proof (induction ps arbitrary: b r)
  case (Cons p ps)
  then obtain s where s: "emit_piece rt b p = Inr s" "render rt ps (b @ s) = Inr out"
    by (auto split: sum.splits option.splits)
  have "fst (follow p r) \<noteq> Bad" using Cons.prems(2) by (cases "follow p r") auto
  with follow_sound [OF s(1)] have "scan s r = follow p r" .
  moreover obtain t where "out = (b @ s) @ t" "scan t (follow p r) = check ps (follow p r)"
    using Cons.IH [OF s(2), of "follow p r"] Cons.prems(2) by auto
  ultimately show ?case by (intro exI [of _ "s @ t"]) simp
qed simp

lemma balanced_well_formed: "balanced ps ids \<Longrightarrow> render rt ps [] = Inr out \<Longrightarrow> well_formed_html out ids"
  using check_sound [of ps "[]" out "(Data, [], [])"] by (auto simp: balanced_def well_formed_html_def)

end

text \<open>A runtime as the library documents it: \<open>html.EscapeString\<close> for texts and attribute values, the
  class names in force joined by spaces.\<close>

definition escape_html :: "char \<Rightarrow> string" where
  "escape_html c =
     (if c = CHR ''&'' then ''&amp;'' else if c = CHR 0x27 then ''&#39;'' else if c = CHR ''<'' then ''&lt;''
      else if c = CHR ''>'' then ''&gt;'' else if c = CHR 0x22 then ''&#34;'' else [c])"

fun join_classes :: "class_item list \<Rightarrow> string list" where
  "join_classes [] = []"
| "join_classes (Cls s # xs) = s # join_classes xs"
| "join_classes (KV s b # xs) = (if b then s # join_classes xs else join_classes xs)"

fun spaced :: "string list \<Rightarrow> string" where
  "spaced [] = []"
| "spaced [s] = s"
| "spaced (s # t # ss) = s @ CHR '' '' # spaced (t # ss)"

definition html_runtime :: templ_rt where
  "html_runtime =
     \<lparr>ctx_err = \<lambda>_. None, write_err = \<lambda>_ _. None, EscapeString = \<lambda>s. concat (map escape_html s),
      ResolveAttributeValue = \<lambda>s. Inr (concat (map escape_html s)), JoinStringErrs = Inr, JoinURLErrs = Inr,
      SanitizeStyle = Inr, CSSClasses = \<lambda>xs. spaced (join_classes xs), RenderCSSItems = \<lambda>_. Inr []\<rparr>"

interpretation html: templ_runtime html_runtime
proof
  have esc: "c \<noteq> CHR ''<'' \<and> c \<noteq> CHR 0x22" if "c \<in> set (concat (map escape_html s))" for c s
    using that by (auto simp: escape_html_def split: if_splits)
  show "c \<in> set (EscapeString html_runtime s) \<Longrightarrow> c \<noteq> CHR ''<'' \<and> c \<noteq> CHR 0x22" for c s
    using esc by (simp add: html_runtime_def)
  show "ResolveAttributeValue html_runtime s = Inr v \<Longrightarrow> CHR 0x22 \<notin> set v" for s v
    using esc [of "CHR 0x22" s] by (auto simp: html_runtime_def)
  have "plain s \<Longrightarrow> concat (map escape_html s) = s" for s
    by (induction s) (auto simp: plain_def escape_html_def)
  then show "ResolveAttributeValue html_runtime s = Inr v \<Longrightarrow> plain s \<Longrightarrow> v = s" for s v
    by (auto simp: html_runtime_def)
qed (simp add: html_runtime_def)

lemma html_renders: "\<exists>out. render html_runtime ps b = Inr out"
proof (induction ps arbitrary: b)
  case (Cons p ps)
  have "\<exists>s. emit_piece html_runtime b p = Inr s" by (cases p) (simp_all add: html_runtime_def)
  with Cons show ?case by (auto simp: html_runtime_def)
qed simp

end
