(* ===== verification/Apikey.thy ===== *)
theory Apikey
  imports Prelude
begin

text \<open>
  The API-key domain (src/internal/domain/apikey/apikey.go): the key record, the
  pure rules over it (batch, budget, revocation), the \<open>Limits\<close> value with its
  validation, and the issuing of key material. \<open>BudgetPeriod\<close> is a Go string type,
  so any string can occur in a stored row; only two are valid.
\<close>

section \<open>Data\<close>

type_synonym budget_period = string

definition Monthly :: budget_period where
  "Monthly = ''monthly''"

definition Lifetime :: budget_period where
  "Lifetime = ''lifetime''"

definition period_valid :: "budget_period \<Rightarrow> bool" where
  "period_valid p \<longleftrightarrow> p = Monthly \<or> p = Lifetime"

definition Unlimited :: int where
  "Unlimited = -1"

definition NormalPriority :: int where
  "NormalPriority = 0"

definition MaxPriority :: int where
  "MaxPriority = 9"

definition ValidPriority :: "int \<Rightarrow> bool" where
  "ValidPriority p \<longleftrightarrow> NormalPriority \<le> p \<and> p \<le> MaxPriority"

record apikey =
  ID :: uint
  Name :: string
  KeyHash :: string
  BatchMax :: int
  RatePerMin :: int
  TokenBudget :: int
  BudgetPeriod :: budget_period
  Priority :: int
  RevokedAt :: "instant option"
  CreatedAt :: instant

record limits =
  L_BatchMax :: int
  L_RatePerMin :: int
  L_TokenBudget :: int
  L_BudgetPeriod :: budget_period
  L_Priority :: int

text \<open>The errors \<open>Limits.Validate\<close> reports, one per format string, with the offending value.\<close>

datatype limit_error =
    BadBatch int
  | BadRate int
  | BadBudget int
  | BadPeriod string
  | BadPriority int

section \<open>The rules\<close>

definition IsUnlimited :: "apikey \<Rightarrow> bool" where
  "IsUnlimited k \<longleftrightarrow> TokenBudget k = Unlimited"

definition IsRevoked :: "apikey \<Rightarrow> bool" where
  "IsRevoked k \<longleftrightarrow> RevokedAt k \<noteq> None"

definition AllowsBatch :: "apikey \<Rightarrow> int \<Rightarrow> bool" where
  "AllowsBatch k n \<longleftrightarrow> 1 \<le> n \<and> n \<le> BatchMax k"

definition BudgetExhausted :: "apikey \<Rightarrow> int \<Rightarrow> int \<Rightarrow> bool" where
  "BudgetExhausted k usedThisMonth usedLifetime =
     (if IsUnlimited k then False
      else let used = (if BudgetPeriod k = Monthly then usedThisMonth else usedLifetime)
           in TokenBudget k \<le> used)"

definition Remaining :: "apikey \<Rightarrow> int \<Rightarrow> int \<Rightarrow> int" where
  "Remaining k usedThisMonth usedLifetime =
     (if IsUnlimited k then Unlimited
      else let used = (if BudgetPeriod k = Monthly then usedThisMonth else usedLifetime);
               rem = i64 (TokenBudget k - used)
           in if 0 < rem then rem else 0)"

definition Limits :: "apikey \<Rightarrow> limits" where
  "Limits k = \<lparr>L_BatchMax = BatchMax k, L_RatePerMin = RatePerMin k,
     L_TokenBudget = TokenBudget k, L_BudgetPeriod = BudgetPeriod k,
     L_Priority = Priority k\<rparr>"

text \<open>\<open>None\<close> is Go's nil error.\<close>

definition Validate :: "limits \<Rightarrow> limit_error option" where
  "Validate l =
     (if L_BatchMax l < 1 then Some (BadBatch (L_BatchMax l))
      else if L_RatePerMin l < 1 then Some (BadRate (L_RatePerMin l))
      else if L_TokenBudget l < Unlimited \<or> L_TokenBudget l = 0
        then Some (BadBudget (L_TokenBudget l))
      else if \<not> period_valid (L_BudgetPeriod l) then Some (BadPeriod (L_BudgetPeriod l))
      else if \<not> ValidPriority (L_Priority l) then Some (BadPriority (L_Priority l))
      else None)"

text \<open>\<open>ApplyLimits\<close> mutates its receiver: the model returns the error and the key as it is left.\<close>

definition ApplyLimits :: "apikey \<Rightarrow> limits \<Rightarrow> limit_error option \<times> apikey" where
  "ApplyLimits k l =
     (case Validate l of
        Some e \<Rightarrow> (Some e, k)
      | None \<Rightarrow> (None, k\<lparr>BatchMax := L_BatchMax l, RatePerMin := L_RatePerMin l,
                     TokenBudget := L_TokenBudget l, BudgetPeriod := L_BudgetPeriod l,
                     Priority := L_Priority l\<rparr>))"

section \<open>Facts about the rules\<close>

lemmas key_consts = Monthly_def Lifetime_def Unlimited_def NormalPriority_def MaxPriority_def

lemma Monthly_neq_Lifetime [simp]: "Monthly \<noteq> Lifetime" "Lifetime \<noteq> Monthly"
  by (simp_all add: key_consts)

lemma Validate_None_iff:
  "Validate l = None \<longleftrightarrow>
     1 \<le> L_BatchMax l \<and> 1 \<le> L_RatePerMin l \<and>
     (L_TokenBudget l = -1 \<or> 0 < L_TokenBudget l) \<and>
     (L_BudgetPeriod l = Monthly \<or> L_BudgetPeriod l = Lifetime) \<and>
     0 \<le> L_Priority l \<and> L_Priority l \<le> 9"
  by (auto simp: Validate_def period_valid_def ValidPriority_def Unlimited_def
      NormalPriority_def MaxPriority_def split: if_splits)

lemma Limits_ApplyLimits: "ApplyLimits k l = (None, k') \<Longrightarrow> Limits k' = l"
  by (auto simp: ApplyLimits_def Limits_def split: option.splits)

text \<open>The identity of a key: everything an operator's limit change must not touch.\<close>

definition key_identity :: "apikey \<Rightarrow> uint \<times> string \<times> string \<times> instant option \<times> instant" where
  "key_identity k = (ID k, Name k, KeyHash k, RevokedAt k, CreatedAt k)"

lemma apikey_eq_iff: "k = k' \<longleftrightarrow> key_identity k = key_identity k' \<and> Limits k = Limits k'"
  for k k' :: apikey
  by (cases k; cases k') (auto simp: key_identity_def Limits_def)

definition used_for_period :: "apikey \<Rightarrow> int \<Rightarrow> int \<Rightarrow> int" where
  "used_for_period k m l = (if BudgetPeriod k = Monthly then m else l)"

lemma BudgetExhausted_alt:
  "BudgetExhausted k m l \<longleftrightarrow> \<not> IsUnlimited k \<and> TokenBudget k \<le> used_for_period k m l"
  by (simp add: BudgetExhausted_def used_for_period_def Let_def)

lemma Remaining_alt:
  "in_i64 (TokenBudget k - used_for_period k m l) \<Longrightarrow>
   Remaining k m l = (if IsUnlimited k then -1 else max 0 (TokenBudget k - used_for_period k m l))"
  by (simp add: Remaining_def used_for_period_def Let_def Unlimited_def)

section \<open>Key material\<close>

text \<open>
  \<open>GenerateKey\<close> draws 24 bytes from crypto/rand (the argument \<open>buf\<close>; a failing
  source is the \<open>None\<close> branch) and encodes them in unpadded standard base32.
  A Go string is a sequence of bytes, here a \<open>char list\<close>.
\<close>

definition keyPrefix :: string where
  "keyPrefix = ''sk-rag-''"

definition byte_bits :: "char \<Rightarrow> bool list" where
  "byte_bits c = [digit7 c, digit6 c, digit5 c, digit4 c, digit3 c, digit2 c, digit1 c, digit0 c]"

fun bits_value :: "bool list \<Rightarrow> nat \<Rightarrow> nat" where
  "bits_value [] acc = acc"
| "bits_value (b # bs) acc = bits_value bs (2 * acc + (if b then 1 else 0))"

definition base32_alphabet :: string where
  "base32_alphabet = ''ABCDEFGHIJKLMNOPQRSTUVWXYZ234567''"

text \<open>Five bits per character, the last group filled with zero bits.\<close>

fun base32_chunks :: "bool list \<Rightarrow> string" where
  "base32_chunks (a # b # c # d # e # bs) =
     base32_alphabet ! bits_value [a, b, c, d, e] 0 # base32_chunks bs"
| "base32_chunks [] = []"
| "base32_chunks bs = [base32_alphabet ! bits_value (take 5 (bs @ replicate 5 False)) 0]"

definition base32_nopad :: "string \<Rightarrow> string" where
  "base32_nopad buf = base32_chunks (concat (map byte_bits buf))"

datatype key_error = RandUnavailable

definition GenerateKey :: "string option \<Rightarrow> key_error + string" where
  "GenerateKey rand_read =
     (case rand_read of
        None \<Rightarrow> Inl RandUnavailable
      | Some buf \<Rightarrow> Inr (keyPrefix @ base32_nopad buf))"

definition hex_digit :: "nat \<Rightarrow> char" where
  "hex_digit n = ''0123456789abcdef'' ! n"

definition hex_encode :: "string \<Rightarrow> string" where
  "hex_encode bs =
     concat (map (\<lambda>c. [hex_digit (of_char c div 16), hex_digit (of_char c mod 16)]) bs)"

text \<open>\<open>sha256\<close> is the standard library's hash, a parameter.\<close>

definition HashKey :: "(string \<Rightarrow> string) \<Rightarrow> string \<Rightarrow> string" where
  "HashKey sha256 plaintext = hex_encode (sha256 plaintext)"

section \<open>Facts about key material\<close>

lemma length_byte_bits [simp]: "length (byte_bits c) = 8"
  by (simp add: byte_bits_def)

lemma byte_bits_inj: "byte_bits c = byte_bits d \<Longrightarrow> c = d"
  by (cases c; cases d) (simp add: byte_bits_def)

lemma length_bits [simp]: "length (concat (map byte_bits buf)) = 8 * length buf"
  by (induction buf) auto

lemma bits_inj:
  "length xs = length ys \<Longrightarrow> concat (map byte_bits xs) = concat (map byte_bits ys) \<Longrightarrow> xs = ys"
  by (induction xs ys rule: list_induct2) (auto dest: byte_bits_inj)

lemma alphabet_eq_iff:
  "i < 32 \<Longrightarrow> j < 32 \<Longrightarrow> base32_alphabet ! i = base32_alphabet ! j \<longleftrightarrow> i = j"
  by (rule nth_eq_iff_index_eq) (simp_all add: base32_alphabet_def)

lemma bits_value_less: "bits_value [a, b, c, d, e] 0 < 32"
  by simp

lemma bits_value_inj:
  "bits_value [a, b, c, d, e] 0 = bits_value [a', b', c', d', e'] 0 \<longleftrightarrow>
     a = a' \<and> b = b' \<and> c = c' \<and> d = d' \<and> e = e'"
  by (cases a; cases b; cases c; cases d; cases e;
      cases a'; cases b'; cases c'; cases d'; cases e') simp_all

lemma alphabet_bits_iff:
  "base32_alphabet ! bits_value [a, b, c, d, e] 0 =
     base32_alphabet ! bits_value [a', b', c', d', e'] 0 \<longleftrightarrow>
   a = a' \<and> b = b' \<and> c = c' \<and> d = d' \<and> e = e'"
  by (simp only: alphabet_eq_iff bits_value_less bits_value_inj)

lemma base32_chunks_short:
  "base32_chunks [a] = [base32_alphabet ! bits_value [a, False, False, False, False] 0]"
  "base32_chunks [a, b] = [base32_alphabet ! bits_value [a, b, False, False, False] 0]"
  "base32_chunks [a, b, c] = [base32_alphabet ! bits_value [a, b, c, False, False] 0]"
  "base32_chunks [a, b, c, d] = [base32_alphabet ! bits_value [a, b, c, d, False] 0]"
  by (simp_all add: eval_nat_numeral del: bits_value.simps)

lemma list_len_cases:
  obtains (Nil) "ys = []"
    | (One) a where "ys = [a]"
    | (Two) a b where "ys = [a, b]"
    | (Three) a b c where "ys = [a, b, c]"
    | (Four) a b c d where "ys = [a, b, c, d]"
    | (More) a b c d e zs where "ys = a # b # c # d # e # zs"
  by (metis list.exhaust)

lemmas chunk_cong = alphabet_bits_iff base32_chunks_short

declare base32_chunks.simps [simp del]

lemma base32_chunks_short_inj:
  assumes "length xs < 5" "length xs = length ys" "base32_chunks xs = base32_chunks ys"
  shows "xs = ys"
  using assms
  by (cases xs rule: list_len_cases; cases ys rule: list_len_cases)
    (simp_all add: chunk_cong del: bits_value.simps)

lemma base32_chunks_inj:
  "length xs = length ys \<Longrightarrow> base32_chunks xs = base32_chunks ys \<Longrightarrow> xs = ys"
proof (induction xs arbitrary: ys rule: base32_chunks.induct)
  case (1 a b c d e bs)
  from "1.prems"(1) obtain a' b' c' d' e' zs where ys: "ys = a' # b' # c' # d' # e' # zs"
    by (cases ys rule: list_len_cases) auto
  with 1 show ?case
    by (simp add: alphabet_bits_iff base32_chunks.simps(1) del: bits_value.simps)
qed (rule base32_chunks_short_inj; simp)+

lemma length_base32_chunks: "length (base32_chunks bs) = (length bs + 4) div 5"
  by (induction bs rule: base32_chunks.induct) (auto simp: base32_chunks.simps)

lemma hex_digit_inj: "i < 16 \<Longrightarrow> j < 16 \<Longrightarrow> hex_digit i = hex_digit j \<longleftrightarrow> i = j"
  unfolding hex_digit_def by (rule nth_eq_iff_index_eq) simp_all

lemma hex_byte_inj:
  fixes c d :: char
  assumes "hex_digit (of_char c div 16) = hex_digit (of_char d div 16)"
    and "hex_digit (of_char c mod 16) = hex_digit (of_char d mod 16)"
  shows "c = d"
proof -
  have lt: "(of_char x :: nat) < 256" for x :: char
    using nat_of_char_less_256 .
  have "(of_char c :: nat) div 16 = of_char d div 16" "(of_char c :: nat) mod 16 = of_char d mod 16"
    using assms lt [of c] lt [of d] hex_digit_inj by (auto simp: less_mult_imp_div_less)
  then have "(of_char c :: nat) = of_char d"
    by (metis div_mult_mod_eq)
  then show ?thesis by simp
qed

lemma hex_encode_inj: "hex_encode xs = hex_encode ys \<longleftrightarrow> xs = ys"
proof (induction xs arbitrary: ys)
  case Nil
  then show ?case by (cases ys) (simp_all add: hex_encode_def)
next
  case (Cons x xs)
  then show ?case by (cases ys) (auto simp: hex_encode_def dest: hex_byte_inj)
qed

section \<open>Properties\<close>

text \<open>An operator's limit change is all or nothing. Either the limits are refused
  with an error and the key is untouched, or they are sound and the key carries exactly
  them; in both cases its identity, hash and revocation state do not change.\<close>

theorem ApplyLimits_atomic:
  "case ApplyLimits k l of
     (Some e, k') \<Rightarrow> Validate l = Some e \<and> k' = k
   | (None, k') \<Rightarrow> Validate l = None \<and> Limits k' = l \<and> key_identity k' = key_identity k"
  by (auto simp: ApplyLimits_def Limits_def key_identity_def split: option.splits)

text \<open>A key for the demonstrations.\<close>

definition sample_key :: "uint \<Rightarrow> string \<Rightarrow> apikey" where
  "sample_key i h = \<lparr>ID = i, Name = ''acme'', KeyHash = h, BatchMax = 25, RatePerMin = 100,
     TokenBudget = 1000, BudgetPeriod = Monthly, Priority = 0, RevokedAt = None, CreatedAt = 5\<rparr>"

end
