(* ===== verification/Calendar.thy ===== *)
theory Calendar
  imports Prelude
begin

text \<open>
  What the program uses of Go's \<open>time\<close> package for calendar arithmetic: the
  proleptic Gregorian calendar, \<open>Date()\<close>, \<open>Weekday()\<close>, \<open>time.Date\<close> and
  \<open>AddDate\<close>. Day 0 is Monday 0001-01-01. A location is its offset function from
  instants to nanoseconds east of UTC; \<open>time.Date\<close> looks the offset up twice, as
  the library does near a zone transition.
\<close>

section \<open>Dates, ordered lexicographically\<close>

datatype date = Date (year: int) (month: int) (day: int)

instantiation date :: linorder
begin

definition less_eq_date :: "date \<Rightarrow> date \<Rightarrow> bool" where
  "less_eq_date a b \<longleftrightarrow> year a < year b \<or> year a = year b \<and>
     (month a < month b \<or> month a = month b \<and> day a \<le> day b)"

definition less_date :: "date \<Rightarrow> date \<Rightarrow> bool" where
  "less_date a b \<longleftrightarrow> year a < year b \<or> year a = year b \<and>
     (month a < month b \<or> month a = month b \<and> day a < day b)"

instance
  by standard (auto simp: less_eq_date_def less_date_def intro: date.expand)

end

section \<open>Day numbers\<close>

definition leap :: "int \<Rightarrow> bool" where
  "leap y \<longleftrightarrow> y mod 4 = 0 \<and> (y mod 100 \<noteq> 0 \<or> y mod 400 = 0)"

definition days_before_year :: "int \<Rightarrow> int" where
  "days_before_year y = 365 * (y - 1) + (y - 1) div 4 - (y - 1) div 100 + (y - 1) div 400"

definition month_starts :: "bool \<Rightarrow> int list" where
  "month_starts l = (if l then [0, 31, 60, 91, 121, 152, 182, 213, 244, 274, 305, 335]
                     else [0, 31, 59, 90, 120, 151, 181, 212, 243, 273, 304, 334])"

definition year_length :: "int \<Rightarrow> int" where
  "year_length y = (if leap y then 366 else 365)"

definition month_length :: "int \<Rightarrow> int \<Rightarrow> int" where
  "month_length y m = (if m = 12 then year_length y else month_starts (leap y) ! nat m)
     - month_starts (leap y) ! nat (m - 1)"

definition days_of_date :: "date \<Rightarrow> int" where
  "days_of_date d = days_before_year (year d) + month_starts (leap (year d)) ! nat (month d - 1)
     + (day d - 1)"

definition valid_date :: "date \<Rightarrow> bool" where
  "valid_date d \<longleftrightarrow> 1 \<le> month d \<and> month d \<le> 12 \<and> 1 \<le> day d \<and> day d \<le> month_length (year d) (month d)"

definition year_of_days :: "int \<Rightarrow> int" where
  "year_of_days n =
     (let y = 400 * n div 146097 + 1
      in if days_before_year (y + 1) \<le> n then y + 1
         else if n < days_before_year y then y - 1 else y)"

definition month_of_yday :: "bool \<Rightarrow> int \<Rightarrow> nat" where
  "month_of_yday l yd = length (filter (\<lambda>s. s \<le> yd) (month_starts l))"

definition date_of_days :: "int \<Rightarrow> date" where
  "date_of_days n =
     (let y = year_of_days n; yd = n - days_before_year y; m = month_of_yday (leap y) yd
      in Date y (int m) (yd - month_starts (leap y) ! (m - 1) + 1))"

lemma div_pred:
  fixes y k :: int
  assumes "0 < k"
  shows "y div k = (y - 1) div k + (if y mod k = 0 then 1 else 0)"
proof (cases "y mod k = 0")
  case True
  then have "y - 1 = k * (y div k - 1) + (k - 1)"
    using mult_div_mod_eq [of k y] by (simp add: right_diff_distrib)
  then have "(y - 1) div k = y div k - 1"
    by (rule int_div_pos_eq) (use assms in auto)
  with True show ?thesis by simp
next
  case False
  have "y - 1 = k * (y div k) + (y mod k - 1)"
    using mult_div_mod_eq [of k y] by simp
  moreover have "0 \<le> y mod k" "y mod k < k"
    using assms by simp_all
  ultimately have "(y - 1) div k = y div k"
    by (intro int_div_pos_eq [where r = "y mod k - 1"]) (use False in auto)
  with False show ?thesis by simp
qed

lemma mod_multiples:
  fixes y :: int
  shows "y mod 400 = 0 \<Longrightarrow> y mod 100 = 0" and "y mod 100 = 0 \<Longrightarrow> y mod 4 = 0"
  by (simp_all only: mod_eq_0_iff_dvd) (auto elim: dvd_trans [rotated])

lemma leap_arith:
  assumes "y mod 400 = 0 \<Longrightarrow> y mod 100 = 0" and "y mod 100 = 0 \<Longrightarrow> y mod 4 = 0"
  shows "365 + (if y mod 4 = 0 then 1 else 0) - (if y mod 100 = 0 then 1 else 0)
      + (if y mod 400 = 0 then 1 else 0) = year_length y"
  using assms unfolding year_length_def leap_def
  by (cases "y mod 4 = 0"; cases "y mod 100 = 0"; cases "y mod 400 = 0") simp_all

lemma days_before_year_Suc: "days_before_year (y + 1) = days_before_year y + year_length y"
proof -
  have d: "y div 4 = (y - 1) div 4 + (if y mod 4 = 0 then 1 else 0)"
    "y div 100 = (y - 1) div 100 + (if y mod 100 = 0 then 1 else 0)"
    "y div 400 = (y - 1) div 400 + (if y mod 400 = 0 then 1 else 0)"
    by (rule div_pred; simp)+
  have "days_before_year (y + 1) = 365 * y + y div 4 - y div 100 + y div 400"
    by (simp add: days_before_year_def)
  also have "\<dots> = 365 * y + ((y - 1) div 4 + (if y mod 4 = 0 then 1 else 0))
      - ((y - 1) div 100 + (if y mod 100 = 0 then 1 else 0))
      + ((y - 1) div 400 + (if y mod 400 = 0 then 1 else 0))"
    by (simp only: d)
  also have "\<dots> = days_before_year y + (365 + (if y mod 4 = 0 then 1 else 0)
      - (if y mod 100 = 0 then 1 else 0) + (if y mod 400 = 0 then 1 else 0))"
    unfolding days_before_year_def right_diff_distrib by linarith
  also have "365 + (if y mod 4 = 0 then 1 else 0) - (if y mod 100 = 0 then 1 else 0)
      + (if y mod 400 = 0 then 1 else 0) = year_length y"
    by (rule leap_arith [OF mod_multiples [of y]])
  finally show ?thesis .
qed

lemma year_length_bounds: "365 \<le> year_length y" "year_length y \<le> 366"
  by (simp_all add: year_length_def)

lemma div_bounds:
  fixes z k :: int
  assumes "0 < k"
  shows "k * (z div k) \<le> z" "z < k * (z div k) + k"
  using mult_div_mod_eq [of k z] pos_mod_sign [OF assms, of z] pos_mod_bound [OF assms, of z]
  by linarith+

lemma year_arith:
  fixes z a b c d :: int
  assumes "4 * a \<le> z" "z < 4 * a + 4" "100 * b \<le> z" "z < 100 * b + 100"
    "400 * c \<le> z" "z < 400 * c + 400" "d = 365 * z + a - b + c"
  shows "400 * d \<le> 146097 * z + 400" "146097 * z - 700 < 400 * d"
  using assms by linarith+

lemma days_before_year_bounds:
  "400 * days_before_year y \<le> 146097 * (y - 1) + 400"
  "146097 * (y - 1) - 700 < 400 * days_before_year y"
  by (rule year_arith [OF div_bounds div_bounds div_bounds days_before_year_def]; simp)+

lemma days_before_year_strict:
  assumes "y < z"
  shows "days_before_year y + year_length y \<le> days_before_year z"
  using assms
proof (induction "nat (z - y)" arbitrary: z)
  case 0
  then show ?case by simp
next
  case (Suc k)
  show ?case
  proof (cases "z = y + 1")
    case True
    then show ?thesis by (simp add: days_before_year_Suc)
  next
    case False
    with Suc have "days_before_year y + year_length y \<le> days_before_year (z - 1)"
      by (intro Suc.hyps) auto
    also have "\<dots> \<le> days_before_year z"
      using days_before_year_Suc [of "z - 1"] year_length_bounds(1) [of "z - 1"] by simp
    finally show ?thesis .
  qed
qed

lemma year_of_days_correct:
  "days_before_year (year_of_days n) \<le> n" "n < days_before_year (year_of_days n + 1)"
proof -
  define z where "z = 400 * n div 146097"
  have z: "146097 * z \<le> 400 * n" "400 * n < 146097 * z + 146097"
    unfolding z_def by (rule div_bounds; simp)+
  have lo: "days_before_year z \<le> n"
    using z(1) days_before_year_bounds(1) [of z] by (simp add: right_diff_distrib)
  have hi: "n < days_before_year (z + 3)"
    using z(2) days_before_year_bounds(2) [of "z + 3"] by (simp add: distrib_left)
  show "days_before_year (year_of_days n) \<le> n" "n < days_before_year (year_of_days n + 1)"
    using lo hi unfolding year_of_days_def Let_def z_def [symmetric]
    by (auto simp: add.assoc split: if_splits)
qed

lemma year_of_days_unique:
  assumes "days_before_year y \<le> n" "n < days_before_year (y + 1)"
  shows "year_of_days n = y"
proof (rule ccontr)
  assume "year_of_days n \<noteq> y"
  then consider "year_of_days n < y" | "y < year_of_days n" by linarith
  then show False
    using assms year_of_days_correct [of n] days_before_year_strict [of "year_of_days n" y]
      days_before_year_strict [of y "year_of_days n"]
    by cases (auto simp: days_before_year_Suc)
qed

lemma month_of_yday_bounds:
  assumes "0 \<le> yd" "yd < (if l then 366 else 365)"
  shows "1 \<le> month_of_yday l yd" "month_of_yday l yd \<le> 12"
    "month_starts l ! (month_of_yday l yd - 1) \<le> yd"
    "month_of_yday l yd = 12 \<or> yd < month_starts l ! month_of_yday l yd"
  using assms by (auto simp: month_of_yday_def month_starts_def)

lemma sorted_month_starts: "sorted (month_starts l)" "length (month_starts l) = 12"
  by (simp_all add: month_starts_def)

lemma month_of_yday_unique:
  assumes m: "1 \<le> m" "m \<le> 12" and yd: "month_starts l ! (m - 1) \<le> yd"
    "m = 12 \<or> yd < month_starts l ! m"
  shows "month_of_yday l yd = m"
  unfolding month_of_yday_def
proof (rule length_filter_prefix)
  show "m \<le> length (month_starts l)"
    using m by (simp add: sorted_month_starts)
  show "month_starts l ! i \<le> yd" if "i < m" for i
  proof -
    have "i \<le> m - 1" "m - 1 < length (month_starts l)"
      using that m by (simp_all add: sorted_month_starts)
    then show ?thesis
      using sorted_nth_mono [OF sorted_month_starts(1), of i "m - 1" l] yd(1) by linarith
  qed
  show "\<not> month_starts l ! i \<le> yd" if "m \<le> i" "i < length (month_starts l)" for i
    using sorted_nth_mono [OF sorted_month_starts(1), of m i l] that m yd(2)
    by (auto simp: sorted_month_starts)
qed

lemma month_starts_range: "i < 12 \<Longrightarrow> 0 \<le> month_starts l ! i \<and> month_starts l ! i < 365"
proof -
  have "list_all (\<lambda>s. 0 \<le> s \<and> s < 365) (month_starts l)" and len: "length (month_starts l) = 12"
    by (simp_all add: month_starts_def)
  then show "i < 12 \<Longrightarrow> 0 \<le> month_starts l ! i \<and> month_starts l ! i < 365"
    by (simp add: list_all_length)
qed

lemma month_within_year:
  "1 \<le> m \<Longrightarrow> m \<le> 12 \<Longrightarrow> m \<noteq> 12 \<Longrightarrow> month_starts (leap y) ! nat m < year_length y"
  using month_starts_range [of "nat m" "leap y"] year_length_bounds(1) [of y] by linarith

lemma nat_int_pred [simp]: "nat (int k - 1) = k - 1"
  by arith

lemma month_of_year_day:
  "0 \<le> n - days_before_year (year_of_days n)"
  "n - days_before_year (year_of_days n) < (if leap (year_of_days n) then 366 else 365)"
  using year_of_days_correct [of n] days_before_year_Suc [of "year_of_days n"]
  by (simp_all add: year_length_def split: if_splits)

section \<open>The two directions are inverse\<close>

theorem days_of_date_of_days [simp]: "days_of_date (date_of_days n) = n"
  by (simp add: days_of_date_def date_of_days_def Let_def nat_diff_distrib)

lemma valid_date_of_days: "valid_date (date_of_days n)"
proof -
  let ?y = "year_of_days n" and ?yd = "n - days_before_year (year_of_days n)"
  let ?m = "month_of_yday (leap ?y) ?yd"
  note b = month_of_yday_bounds [OF month_of_year_day [of n]]
  have "?yd < (if ?m = 12 then year_length ?y else month_starts (leap ?y) ! ?m)"
    using b(4) month_of_year_day(2) [of n] by (auto simp: year_length_def)
  then show ?thesis
    using b by (auto simp: valid_date_def date_of_days_def Let_def month_length_def
        nat_diff_distrib)
qed

lemma date_of_days_of_date:
  assumes "valid_date d"
  shows "date_of_days (days_of_date d) = d"
proof (cases d)
  case (Date y m dd)
  let ?yd = "month_starts (leap y) ! nat (m - 1) + (dd - 1)"
  have m: "1 \<le> nat m" "nat m \<le> 12" "nat (m - 1) = nat m - 1"
    and dd: "1 \<le> dd" "dd \<le> month_length y m"
    using assms by (auto simp: valid_date_def Date)
  have yd: "nat m = 12 \<or> ?yd < month_starts (leap y) ! nat m" "?yd < year_length y"
    using dd m month_within_year [of m y] by (auto simp: month_length_def split: if_splits) linarith
  have nonneg: "0 \<le> month_starts (leap y) ! nat (m - 1)"
    using month_starts_range [of "nat (m - 1)" "leap y"] m by simp
  have y: "year_of_days (days_of_date d) = y"
    using yd(2) dd(1) nonneg
    by (intro year_of_days_unique) (auto simp: days_of_date_def Date days_before_year_Suc)
  have "month_of_yday (leap y) ?yd = nat m"
    using m dd(1) yd(1) by (intro month_of_yday_unique) auto
  then show ?thesis
    using m assms by (simp add: date_of_days_def Let_def y, simp add: days_of_date_def Date valid_date_def)
qed

lemma yday_less:
  assumes "valid_date d"
  shows "0 \<le> month_starts (leap (year d)) ! nat (month d - 1) + (day d - 1)"
    "month_starts (leap (year d)) ! nat (month d - 1) + (day d - 1) < year_length (year d)"
proof -
  have m: "1 \<le> month d" "month d \<le> 12" "1 \<le> day d" "day d \<le> month_length (year d) (month d)"
    using assms by (auto simp: valid_date_def)
  show "0 \<le> month_starts (leap (year d)) ! nat (month d - 1) + (day d - 1)"
    using month_starts_range [of "nat (month d - 1)" "leap (year d)"] m by simp
  show "month_starts (leap (year d)) ! nat (month d - 1) + (day d - 1) < year_length (year d)"
    using m month_within_year [of "month d" "year d"]
    by (cases "month d = 12") (auto simp: month_length_def)
qed

lemma days_of_date_strict_mono:
  assumes "valid_date a" "valid_date b" "a < b"
  shows "days_of_date a < days_of_date b"
proof -
  consider "year a < year b" | "year a = year b" "month a < month b"
    | "year a = year b" "month a = month b" "day a < day b"
    using assms(3) by (auto simp: less_date_def)
  then show ?thesis
  proof cases
    case 1
    then show ?thesis
      using days_before_year_strict [OF 1] yday_less [OF assms(1)] yday_less [OF assms(2)]
      unfolding days_of_date_def by linarith
  next
    case 2
    have "month_starts (leap (year a)) ! nat (month a - 1) + (day a - 1)
        < month_starts (leap (year a)) ! nat (month a)"
      using assms(1,2) 2 by (auto simp: valid_date_def month_length_def)
    also have "\<dots> \<le> month_starts (leap (year a)) ! nat (month b - 1)"
      using assms(1,2) 2 by (intro sorted_nth_mono) (auto simp: valid_date_def sorted_month_starts)
    finally show ?thesis
      using assms(2) 2 by (simp add: days_of_date_def valid_date_def)
  qed (simp add: days_of_date_def)
qed

lemma days_of_date_mono:
  "valid_date a \<Longrightarrow> valid_date b \<Longrightarrow> a \<le> b \<Longrightarrow> days_of_date a \<le> days_of_date b"
  using days_of_date_strict_mono [of a b] by (auto simp: le_less)

section \<open>Instants in a location\<close>

type_synonym zone = "instant \<Rightarrow> duration"

definition UTC :: zone where
  "UTC = (\<lambda>_. 0)"

definition day_ns :: duration where
  "day_ns = 86400 * second"

lemma day_ns_value [simp, codec]: "day_ns = 86400000000000"
  by (simp add: day_ns_def)

definition local_ns :: "zone \<Rightarrow> instant \<Rightarrow> int" where
  "local_ns z t = t + z t"

definition local_day :: "zone \<Rightarrow> instant \<Rightarrow> int" where
  "local_day z t = local_ns z t div day_ns"

definition local_date :: "zone \<Rightarrow> instant \<Rightarrow> date" where
  "local_date z t = date_of_days (local_day z t)"

definition local_clock :: "zone \<Rightarrow> instant \<Rightarrow> duration" where
  "local_clock z t = local_ns z t mod day_ns"

text \<open>\<open>Weekday()\<close>: Sunday is 0.\<close>

definition weekday :: "zone \<Rightarrow> instant \<Rightarrow> int" where
  "weekday z t = (local_day z t + 1) mod 7"

text \<open>
  \<open>time.Date\<close> normalises an out-of-range month into the year, adds the days and
  the clock, and resolves the offset: first as if the local reading were UTC, then,
  unless that offset is zero, at the instant it leads to.
\<close>

definition time_Date :: "zone \<Rightarrow> int \<Rightarrow> int \<Rightarrow> int \<Rightarrow> duration \<Rightarrow> instant" where
  "time_Date z y m d clock =
     (let y' = y + (m - 1) div 12; m' = (m - 1) mod 12 + 1;
          l = (days_of_date (Date y' m' 1) + (d - 1)) * day_ns + clock
      in if z l = 0 then l else l - z (l - z l))"

definition AddDate :: "zone \<Rightarrow> instant \<Rightarrow> int \<Rightarrow> int \<Rightarrow> int \<Rightarrow> instant" where
  "AddDate z t years months days =
     (let d = local_date z t
      in time_Date z (year d + years) (month d + months) (day d + days) (local_clock z t))"

text \<open>A location whose offset never changes (UTC among them).\<close>

abbreviation fixed_zone :: "duration \<Rightarrow> zone" where
  "fixed_zone c \<equiv> (\<lambda>_. c)"

lemma time_Date_fixed:
  "1 \<le> m \<Longrightarrow> m \<le> 12 \<Longrightarrow>
   time_Date (fixed_zone c) y m d clock = days_of_date (Date y m d) * day_ns + clock - c"
  by (simp add: time_Date_def Let_def days_of_date_def)

lemma local_day_time_Date:
  "1 \<le> m \<Longrightarrow> m \<le> 12 \<Longrightarrow> 0 \<le> clock \<Longrightarrow> clock < day_ns \<Longrightarrow>
   local_day (fixed_zone c) (time_Date (fixed_zone c) y m d clock) = days_of_date (Date y m d)"
  by (simp add: time_Date_fixed local_day_def local_ns_def div_pos_pos_trivial)

lemma local_bounds:
  "local_day (fixed_zone c) t * day_ns - c \<le> t"
  "t < (local_day (fixed_zone c) t + 1) * day_ns - c"
  using div_bounds [of day_ns "t + c"] by (simp_all add: local_day_def local_ns_def)

end
