(* ===== verification/Usage.thy ===== *)
theory Usage
  imports Calendar
begin

text \<open>
  The token-accounting domain (src/internal/domain/usage/usage.go): the usage event,
  the five reporting windows computed from the current time, and the report that
  sums each window.
\<close>

section \<open>Data\<close>

record event =
  EventID :: uint
  APIKeyID :: uint
  Model :: string
  PromptTokens :: int
  BatchSize :: int
  EventAt :: instant

record range =
  From :: instant
  To :: instant

record windows =
  Today :: range
  ThisWeek :: range
  ThisMonth :: range
  PastMonth :: range
  Before :: range

record report =
  R_Today :: int
  R_ThisWeek :: int
  R_ThisMonth :: int
  R_PastMonth :: int
  R_Before :: int

definition in_range :: "range \<Rightarrow> instant \<Rightarrow> bool" where
  "in_range r t \<longleftrightarrow> From r \<le> t \<and> t < To r"

section \<open>The reporting windows\<close>

definition ReportWindows :: "zone \<Rightarrow> instant \<Rightarrow> windows" where
  "ReportWindows loc now =
     (let d = local_date loc now;
          startOfDay = time_Date loc (year d) (month d) (day d) 0;
          daysSinceMonday = (weekday loc now + 6) mod 7;
          startOfWeek = AddDate loc startOfDay 0 0 (- daysSinceMonday);
          startOfMonth = time_Date loc (year d) (month d) 1 0;
          startOfPrevMonth = AddDate loc startOfMonth 0 (-1) 0
      in \<lparr>Today = \<lparr>From = startOfDay, To = now\<rparr>,
          ThisWeek = \<lparr>From = startOfWeek, To = now\<rparr>,
          ThisMonth = \<lparr>From = startOfMonth, To = now\<rparr>,
          PastMonth = \<lparr>From = startOfPrevMonth, To = startOfMonth\<rparr>,
          Before = \<lparr>From = 0, To = startOfPrevMonth\<rparr>\<rparr>)"

section \<open>The report\<close>

text \<open>
  \<open>summer\<close> is the \<open>Summer\<close> function value the caller passes; the report stops at the
  first error.
\<close>

definition BuildReport :: "windows \<Rightarrow> (range \<Rightarrow> 'e + int) \<Rightarrow> 'e + report" where
  "BuildReport w summer =
     (case summer (Today w) of Inl e \<Rightarrow> Inl e
      | Inr t \<Rightarrow> (case summer (ThisWeek w) of Inl e \<Rightarrow> Inl e
      | Inr wk \<Rightarrow> (case summer (ThisMonth w) of Inl e \<Rightarrow> Inl e
      | Inr m \<Rightarrow> (case summer (PastMonth w) of Inl e \<Rightarrow> Inl e
      | Inr p \<Rightarrow> (case summer (Before w) of Inl e \<Rightarrow> Inl e
      | Inr b \<Rightarrow> Inr \<lparr>R_Today = t, R_ThisWeek = wk, R_ThisMonth = m,
                     R_PastMonth = p, R_Before = b\<rparr>)))))"

lemma BuildReport_Inr_iff:
  "BuildReport w summer = Inr rep \<longleftrightarrow>
     summer (Today w) = Inr (R_Today rep) \<and> summer (ThisWeek w) = Inr (R_ThisWeek rep) \<and>
     summer (ThisMonth w) = Inr (R_ThisMonth rep) \<and> summer (PastMonth w) = Inr (R_PastMonth rep) \<and>
     summer (Before w) = Inr (R_Before rep)"
  by (cases rep) (auto simp: BuildReport_def split: sum.splits)

section \<open>Where the windows lie, in a location with a fixed offset\<close>

definition first_of_month :: "date \<Rightarrow> date" where
  "first_of_month d = Date (year d) (month d) 1"

definition first_of_prev_month :: "date \<Rightarrow> date" where
  "first_of_prev_month d =
     (if month d = 1 then Date (year d - 1) 12 1 else Date (year d) (month d - 1) 1)"

lemma valid_first:
  assumes "valid_date d"
  shows "valid_date (first_of_month d)" "valid_date (first_of_prev_month d)"
proof -
  have "1 \<le> month_length y m" if "1 \<le> m" "m \<le> 12" for y m
  proof (cases "m = 12")
    case True
    then show ?thesis
      by (simp add: month_length_def month_starts_def year_length_def)
  next
    case False
    have "nat (m - 1) < nat m" "nat m < 12" using that False by auto
    then have "month_starts (leap y) ! nat (m - 1) < month_starts (leap y) ! nat m"
      by (intro sorted_wrt_nth_less [of "(<)"]) (auto simp: month_starts_def)
    with False show ?thesis by (simp add: month_length_def)
  qed
  then show "valid_date (first_of_month d)" "valid_date (first_of_prev_month d)"
    using assms by (auto simp: valid_date_def first_of_month_def first_of_prev_month_def)
qed

lemma first_order:
  assumes "valid_date d"
  shows "days_of_date (first_of_month d) \<le> days_of_date d"
    "days_of_date (first_of_prev_month d) < days_of_date (first_of_month d)"
proof -
  have "first_of_month d \<le> d" "first_of_prev_month d < first_of_month d"
    using assms by (auto simp: first_of_month_def first_of_prev_month_def less_eq_date_def
        less_date_def valid_date_def)
  then show "days_of_date (first_of_month d) \<le> days_of_date d"
    "days_of_date (first_of_prev_month d) < days_of_date (first_of_month d)"
    using assms valid_first by (auto intro: days_of_date_mono days_of_date_strict_mono)
qed

definition midnight :: "duration \<Rightarrow> int \<Rightarrow> instant" where
  "midnight c n = n * day_ns - c"

lemma midnight_le_iff [simp]: "midnight c n \<le> midnight c m \<longleftrightarrow> n \<le> m"
  by (simp add: midnight_def)

lemma local_day_midnight [simp]: "local_day (fixed_zone c) (midnight c n) = n"
  by (simp add: local_day_def local_ns_def midnight_def)

lemma local_clock_midnight [simp]: "local_clock (fixed_zone c) (midnight c n) = 0"
  by (simp add: local_clock_def local_ns_def midnight_def)

lemma time_Date_midnight:
  "1 \<le> m \<Longrightarrow> m \<le> 12 \<Longrightarrow> time_Date (fixed_zone c) y m d 0 = midnight c (days_of_date (Date y m d))"
  by (simp add: time_Date_fixed midnight_def)

lemma AddDate_days:
  "AddDate (fixed_zone c) (midnight c n) 0 0 k = midnight c (n + k)"
proof -
  let ?d = "date_of_days n"
  have "valid_date ?d" by (rule valid_date_of_days)
  then have "AddDate (fixed_zone c) (midnight c n) 0 0 k
      = midnight c (days_of_date (Date (year ?d) (month ?d) (day ?d + k)))"
    by (simp add: AddDate_def local_date_def Let_def time_Date_midnight valid_date_def)
  also have "days_of_date (Date (year ?d) (month ?d) (day ?d + k)) = days_of_date ?d + k"
    by (simp add: days_of_date_def)
  finally show ?thesis by simp
qed

lemma time_Date_prev_month:
  assumes "1 \<le> m" "m \<le> 12"
  shows "time_Date (fixed_zone c) y (m - 1) 1 0 =
    midnight c (days_of_date (if m = 1 then Date (y - 1) 12 1 else Date y (m - 1) 1))"
  using assms by (auto simp: time_Date_def Let_def midnight_def days_of_date_def
      div_pos_pos_trivial mod_pos_pos_trivial)

lemma AddDate_prev_month:
  assumes "valid_date d"
  shows "AddDate (fixed_zone c) (midnight c (days_of_date (first_of_month d))) 0 (-1) 0
    = midnight c (days_of_date (first_of_prev_month d))"
proof -
  have ld: "local_date (fixed_zone c) (midnight c (days_of_date (first_of_month d)))
      = first_of_month d"
    by (simp only: local_date_def local_day_midnight date_of_days_of_date valid_first assms)
  have m: "1 \<le> month d" "month d \<le> 12" using assms by (auto simp: valid_date_def)
  show ?thesis
    unfolding AddDate_def ld Let_def local_clock_midnight
    using time_Date_prev_month [OF m, of c "year d"]
    by (simp add: first_of_month_def first_of_prev_month_def)
qed

lemma ReportWindows_fixed:
  fixes c now
  defines "n \<equiv> local_day (fixed_zone c) now"
  shows "ReportWindows (fixed_zone c) now =
    (let M = midnight c (days_of_date (first_of_month (date_of_days n)));
         P = midnight c (days_of_date (first_of_prev_month (date_of_days n)))
     in \<lparr>Today = \<lparr>From = midnight c n, To = now\<rparr>,
         ThisWeek = \<lparr>From = midnight c (n - (n mod 7)), To = now\<rparr>,
         ThisMonth = \<lparr>From = M, To = now\<rparr>,
         PastMonth = \<lparr>From = P, To = M\<rparr>,
         Before = \<lparr>From = 0, To = P\<rparr>\<rparr>)"
proof -
  let ?d = "date_of_days n"
  have v: "valid_date ?d" by (rule valid_date_of_days)
  then have m: "1 \<le> month ?d" "month ?d \<le> 12" by (auto simp: valid_date_def)
  have wd: "(weekday (fixed_zone c) now + 6) mod 7 = n mod 7"
    by (simp add: weekday_def n_def) presburger
  have sod: "time_Date (fixed_zone c) (year ?d) (month ?d) (day ?d) 0 = midnight c n"
    using m by (simp add: time_Date_midnight)
  have som: "time_Date (fixed_zone c) (year ?d) (month ?d) 1 0
      = midnight c (days_of_date (first_of_month ?d))"
    using m by (simp add: time_Date_midnight first_of_month_def)
  show ?thesis
    unfolding ReportWindows_def Let_def local_date_def n_def [symmetric] wd sod som
      AddDate_days AddDate_prev_month [OF v] by simp
qed

lemma windows_order:
  fixes c now
  defines "w \<equiv> ReportWindows (fixed_zone c) now"
  shows "From (PastMonth w) < From (ThisMonth w)" "From (ThisMonth w) \<le> From (Today w)"
    "From (ThisWeek w) \<le> From (Today w)" "From (Today w) \<le> now"
    "To (PastMonth w) = From (ThisMonth w)" "To (Before w) = From (PastMonth w)"
    "From (Before w) = 0" "To (ThisMonth w) = now" "To (Today w) = now" "To (ThisWeek w) = now"
proof -
  let ?n = "local_day (fixed_zone c) now"
  have v: "valid_date (date_of_days ?n)" by (rule valid_date_of_days)
  show "From (PastMonth w) < From (ThisMonth w)" "From (ThisMonth w) \<le> From (Today w)"
    "From (ThisWeek w) \<le> From (Today w)" "From (Today w) \<le> now"
    "To (PastMonth w) = From (ThisMonth w)" "To (Before w) = From (PastMonth w)"
    "From (Before w) = 0" "To (ThisMonth w) = now" "To (Today w) = now" "To (ThisWeek w) = now"
    using first_order [OF v] local_bounds(1) [of c now]
    by (simp_all add: w_def ReportWindows_fixed Let_def midnight_def)
qed

section \<open>Properties\<close>

text \<open>The historical buckets partition the past. In every location with a fixed
  offset, an event that happened before now lies in exactly one of this month, past month
  and before, so that adding the three gives everything the key ever spent.\<close>

theorem windows_partition:
  assumes "0 \<le> t" "t < now"
  shows "(if in_range (ThisMonth (ReportWindows (fixed_zone c) now)) t then 1 else 0) +
    (if in_range (PastMonth (ReportWindows (fixed_zone c) now)) t then 1 else 0) +
    (if in_range (Before (ReportWindows (fixed_zone c) now)) t then 1 else 0) = (1::nat)"
  using assms windows_order [of c now] by (auto simp: in_range_def)

theorem windows_partition_witness:
  "let now = time_Date UTC 2026 7 1 (12 * 3600 * second); w = ReportWindows (fixed_zone 0) now;
       t = now - 86400 * second
   in (if in_range (ThisMonth w) t then 1 else 0) + (if in_range (PastMonth w) t then 1 else 0) +
      (if in_range (Before w) t then 1 else 0) = (1::nat)"
proof -
  let ?now = "time_Date UTC 2026 7 1 (12 * 3600 * second)"
  have "0 \<le> ?now - 86400 * second" "?now - 86400 * second < ?now"
    unfolding UTC_def by code_simp+
  from windows_partition [OF this, of 0] show ?thesis unfolding Let_def .
qed

text \<open>Each window starts where its name says: today at this date's midnight, the week
  on a Monday midnight at most six days earlier, the month on its first day, and the past
  month on the first day of the month before; the half-open ends meet without a gap.\<close>

theorem windows_boundaries:
  fixes c now
  defines "w \<equiv> ReportWindows (fixed_zone c) now" and "z \<equiv> fixed_zone c"
  shows "local_date z (From (Today w)) = local_date z now \<and> local_clock z (From (Today w)) = 0 \<and>
    weekday z (From (ThisWeek w)) = 1 \<and> local_clock z (From (ThisWeek w)) = 0 \<and>
    (local_day z now - 6 \<le> local_day z (From (ThisWeek w)) \<and>
     local_day z (From (ThisWeek w)) \<le> local_day z now) \<and>
    local_date z (From (ThisMonth w)) = first_of_month (local_date z now) \<and>
    local_date z (From (PastMonth w)) = first_of_prev_month (local_date z now) \<and>
    To (PastMonth w) = From (ThisMonth w) \<and> To (Before w) = From (PastMonth w)"
proof -
  let ?n = "local_day z now"
  have v: "valid_date (date_of_days ?n)" by (rule valid_date_of_days)
  have "(?n - ?n mod 7 + 1) mod 7 = 1"
    by (metis add.commute minus_mod_eq_mult_div mod_mult_self2 mod_pos_pos_trivial
        one_less_numeral_iff semiring_norm(77) zero_le_one)
  moreover have "0 \<le> ?n mod 7" "?n mod 7 \<le> 6"
    by simp_all
  ultimately show ?thesis
    unfolding w_def z_def
    by (simp add: ReportWindows_fixed Let_def weekday_def local_date_def
        date_of_days_of_date valid_first [OF v, unfolded z_def])
qed

text \<open>When the week is inside the month. The week so far is contained in the month so
  far exactly when more days of the month have begun than days have passed since Monday;
  on Wednesday 1 July 2026 it is not, and tokens spent on the Monday before count towards
  this week but not towards this month.\<close>

theorem week_nested_iff:
  "From (ThisMonth (ReportWindows (fixed_zone c) now)) \<le> From (ThisWeek (ReportWindows (fixed_zone c) now))
     \<longleftrightarrow> (weekday (fixed_zone c) now + 6) mod 7 < day (local_date (fixed_zone c) now)"
proof -
  let ?n = "local_day (fixed_zone c) now"
  have wd: "(weekday (fixed_zone c) now + 6) mod 7 = ?n mod 7"
    by (simp add: weekday_def) presburger
  have "days_of_date (first_of_month (date_of_days ?n)) = ?n - (day (date_of_days ?n) - 1)"
    using days_of_date_of_days [of ?n] unfolding days_of_date_def first_of_month_def by simp
  then show ?thesis
    unfolding wd by (auto simp: ReportWindows_fixed Let_def local_date_def)
qed

theorem week_outside_month:
  "let now = time_Date UTC 2026 7 1 (12 * 3600 * second); w = ReportWindows UTC now;
       monday = time_Date UTC 2026 6 29 (9 * 3600 * second)
   in in_range (ThisWeek w) monday \<and> \<not> in_range (ThisMonth w) monday \<and> in_range (PastMonth w) monday"
  unfolding UTC_def by code_simp

end
