(* ===== verification/Store.thy ===== *)
theory Store
  imports Apikey Usage
begin

text \<open>
  The persistence layer (src/internal/platform/database). GORM and SQLite are third
  party, so the database is a parameter: a \<open>driver\<close> of the statements the repositories
  issue, over a database state of any type. Query conditions and column updates are the
  source's own and are passed to the driver as predicates and row functions. The locale
  \<open>sql_driver\<close> states what the repositories rely on: a statement that succeeds has
  its SQL meaning on the two tables; a statement may always fail. \<open>mem_driver\<close>
  is an instance on row lists.
\<close>

section \<open>The driver\<close>

datatype gorm_error = RecordNotFound | DriverError string

record 'db driver =
  create_key :: "'db \<Rightarrow> apikey \<Rightarrow> gorm_error + (apikey \<times> 'db)"
  first_key :: "'db \<Rightarrow> (apikey \<Rightarrow> bool) \<Rightarrow> gorm_error + apikey"
  find_keys_newest :: "'db \<Rightarrow> gorm_error + apikey list"
  update_keys :: "'db \<Rightarrow> (apikey \<Rightarrow> bool) \<Rightarrow> (apikey \<Rightarrow> apikey) \<Rightarrow> gorm_error + (int \<times> 'db)"
  create_event :: "'db \<Rightarrow> event \<Rightarrow> gorm_error + (event \<times> 'db)"
  sum_prompt_tokens :: "'db \<Rightarrow> (event \<Rightarrow> bool) \<Rightarrow> gorm_error + int option"

section \<open>The repositories\<close>

datatype repo_error = ErrNotFound | RepoError string gorm_error

text \<open>Every method returns its result and the database as it leaves it.\<close>

definition Create :: "'db driver \<Rightarrow> 'db \<Rightarrow> apikey \<Rightarrow> (repo_error + apikey) \<times> 'db" where
  "Create g db k =
     (case create_key g db k of
        Inl e \<Rightarrow> (Inl (RepoError ''apikey repo: create'' e), db)
      | Inr (k', db') \<Rightarrow> (Inr k', db'))"

definition ByHash :: "'db driver \<Rightarrow> 'db \<Rightarrow> string \<Rightarrow> repo_error + apikey" where
  "ByHash g db h =
     (case first_key g db (\<lambda>k. KeyHash k = h) of
        Inl RecordNotFound \<Rightarrow> Inl ErrNotFound
      | Inl e \<Rightarrow> Inl (RepoError ''apikey repo: by hash'' e)
      | Inr k \<Rightarrow> Inr k)"

definition ByID :: "'db driver \<Rightarrow> 'db \<Rightarrow> uint \<Rightarrow> repo_error + apikey" where
  "ByID g db i =
     (case first_key g db (\<lambda>k. ID k = i) of
        Inl RecordNotFound \<Rightarrow> Inl ErrNotFound
      | Inl e \<Rightarrow> Inl (RepoError ''apikey repo: by id'' e)
      | Inr k \<Rightarrow> Inr k)"

definition ListKeys :: "'db driver \<Rightarrow> 'db \<Rightarrow> repo_error + apikey list" where
  "ListKeys g db =
     (case find_keys_newest g db of
        Inl e \<Rightarrow> Inl (RepoError ''apikey repo: list'' e)
      | Inr ks \<Rightarrow> Inr ks)"

definition set_limit_columns :: "limits \<Rightarrow> apikey \<Rightarrow> apikey" where
  "set_limit_columns l k =
     k\<lparr>BatchMax := L_BatchMax l, RatePerMin := L_RatePerMin l, TokenBudget := L_TokenBudget l,
       BudgetPeriod := L_BudgetPeriod l, Priority := L_Priority l\<rparr>"

definition UpdateLimits :: "'db driver \<Rightarrow> 'db \<Rightarrow> uint \<Rightarrow> limits \<Rightarrow> repo_error option \<times> 'db" where
  "UpdateLimits g db i l =
     (case update_keys g db (\<lambda>k. ID k = i) (set_limit_columns l) of
        Inl e \<Rightarrow> (Some (RepoError ''apikey repo: update limits'' e), db)
      | Inr (rows, db') \<Rightarrow> (if rows = 0 then Some ErrNotFound else None, db'))"

text \<open>\<open>now\<close> is the \<open>time.Now()\<close> the method reads.\<close>

definition Revoke :: "'db driver \<Rightarrow> 'db \<Rightarrow> instant \<Rightarrow> uint \<Rightarrow> repo_error option \<times> 'db" where
  "Revoke g db now i =
     (case update_keys g db (\<lambda>k. ID k = i) (\<lambda>k. k\<lparr>RevokedAt := Some now\<rparr>) of
        Inl e \<Rightarrow> (Some (RepoError ''apikey repo: revoke'' e), db)
      | Inr (_, db') \<Rightarrow> (None, db'))"

definition Record :: "'db driver \<Rightarrow> 'db \<Rightarrow> event \<Rightarrow> repo_error option \<times> 'db" where
  "Record g db e =
     (case create_event g db e of
        Inl err \<Rightarrow> (Some (RepoError ''usage repo: record'' err), db)
      | Inr (_, db') \<Rightarrow> (None, db'))"

text \<open>\<open>sql.NullInt64\<close>: a NULL scalar reads as 0.\<close>

definition SumTokens :: "'db driver \<Rightarrow> 'db \<Rightarrow> uint \<Rightarrow> instant \<Rightarrow> instant \<Rightarrow> repo_error + int" where
  "SumTokens g db key_id t_from t_to =
     (case sum_prompt_tokens g db
          (\<lambda>e. APIKeyID e = key_id \<and> t_from \<le> EventAt e \<and> EventAt e < t_to) of
        Inl e \<Rightarrow> Inl (RepoError ''usage repo: sum tokens'' e)
      | Inr None \<Rightarrow> Inr 0
      | Inr (Some n) \<Rightarrow> Inr n)"

section \<open>What the repositories rely on\<close>

definition tokens_where :: "(event \<Rightarrow> bool) \<Rightarrow> event list \<Rightarrow> int" where
  "tokens_where P es = sum_list (map PromptTokens (filter P es))"

locale sql_driver =
  fixes g :: "'db driver"
    and keys_of :: "'db \<Rightarrow> apikey list"
    and events_of :: "'db \<Rightarrow> event list"
  assumes create_key_ok: "create_key g db k = Inr (k', db') \<Longrightarrow>
      keys_of db' = keys_of db @ [k'] \<and> events_of db' = events_of db \<and>
      Limits k' = Limits k \<and> KeyHash k' = KeyHash k \<and> Name k' = Name k \<and>
      RevokedAt k' = RevokedAt k \<and> ID k' \<notin> ID ` set (keys_of db) \<and>
      KeyHash k \<notin> KeyHash ` set (keys_of db)"
    and first_key_ok: "first_key g db P = Inr k \<Longrightarrow> find P (keys_of db) = Some k"
    and first_key_missing: "first_key g db P = Inl RecordNotFound \<Longrightarrow> find P (keys_of db) = None"
    and find_keys_ok: "find_keys_newest g db = Inr ks \<Longrightarrow>
      set ks = set (keys_of db) \<and> length ks = length (keys_of db) \<and>
      sorted_wrt (\<lambda>a b. CreatedAt b \<le> CreatedAt a) ks"
    and update_keys_ok: "update_keys g db P f = Inr (n, db') \<Longrightarrow>
      keys_of db' = map (\<lambda>k. if P k then f k else k) (keys_of db) \<and>
      events_of db' = events_of db \<and> n = int (length (filter P (keys_of db)))"
    and create_event_ok: "create_event g db e = Inr (e', db') \<Longrightarrow>
      keys_of db' = keys_of db \<and> events_of db' = events_of db @ [e'] \<and>
      (\<exists>i. e' = e\<lparr>EventID := i\<rparr>)"
    and sum_ok: "sum_prompt_tokens g db Q = Inr r \<Longrightarrow>
      r = Some (tokens_where Q (events_of db))"
begin

lemma SumTokens_exact:
  "SumTokens g db i a b = Inr n \<Longrightarrow>
     n = tokens_where (\<lambda>e. APIKeyID e = i \<and> a \<le> EventAt e \<and> EventAt e < b) (events_of db)"
  by (auto simp: SumTokens_def dest: sum_ok split: sum.splits option.splits)

lemma ByHash_Inr: "ByHash g db h = Inr k \<Longrightarrow> find (\<lambda>k. KeyHash k = h) (keys_of db) = Some k"
  by (auto simp: ByHash_def dest: first_key_ok split: sum.splits gorm_error.splits)

lemma ByHash_Inl_NotFound:
  "ByHash g db h = Inl ErrNotFound \<Longrightarrow> find (\<lambda>k. KeyHash k = h) (keys_of db) = None"
  by (auto simp: ByHash_def dest: first_key_missing split: sum.splits gorm_error.splits)

lemma ByID_Inr: "ByID g db i = Inr k \<Longrightarrow> k \<in> set (keys_of db) \<and> ID k = i"
  by (auto simp: ByID_def find_Some_iff dest!: first_key_ok split: sum.splits gorm_error.splits)

lemma Record_ok:
  "Record g db e = (None, db') \<Longrightarrow> keys_of db' = keys_of db \<and>
     (\<exists>i. events_of db' = events_of db @ [e\<lparr>EventID := i\<rparr>])"
  by (auto simp: Record_def dest: create_event_ok split: sum.splits)

lemma Record_failed: "Record g db e = (Some err, db') \<Longrightarrow> db' = db"
  by (auto simp: Record_def split: sum.splits)

lemma Revoke_ok:
  "Revoke g db now i = (None, db') \<Longrightarrow>
     keys_of db' = map (\<lambda>k. if ID k = i then k\<lparr>RevokedAt := Some now\<rparr> else k) (keys_of db) \<and>
     events_of db' = events_of db"
  by (auto simp: Revoke_def dest: update_keys_ok split: sum.splits)

lemma UpdateLimits_ok:
  "UpdateLimits g db i l = (None, db') \<Longrightarrow>
     keys_of db' = map (\<lambda>k. if ID k = i then set_limit_columns l k else k) (keys_of db) \<and>
     events_of db' = events_of db \<and> (\<exists>k\<in>set (keys_of db). ID k = i)"
  by (auto simp: UpdateLimits_def filter_empty_conv dest!: update_keys_ok
      split: sum.splits if_splits)

lemma UpdateLimits_failed:
  "UpdateLimits g db i l = (Some e, db') \<Longrightarrow> keys_of db' = keys_of db \<and> events_of db' = events_of db"
  by (auto simp: UpdateLimits_def filter_empty_conv map_idI dest!: update_keys_ok
      split: sum.splits if_splits)

lemma Create_ok:
  "Create g db k = (Inr k', db') \<Longrightarrow>
     keys_of db' = keys_of db @ [k'] \<and> Limits k' = Limits k \<and> KeyHash k' = KeyHash k \<and>
     RevokedAt k' = RevokedAt k \<and> ID k' \<notin> ID ` set (keys_of db) \<and>
     KeyHash k' \<notin> KeyHash ` set (keys_of db) \<and> events_of db' = events_of db"
  by (auto simp: Create_def dest!: create_key_ok split: sum.splits) (metis imageI)

end

section \<open>A driver on row lists\<close>

text \<open>
  Tables as lists in primary-key order, autoincrement counters, the unique index on
  \<open>key_hash\<close>, and a switch that makes every statement fail.
\<close>

record mem_db =
  mem_keys :: "apikey list"
  mem_events :: "event list"
  mem_next_key :: uint
  mem_next_event :: uint
  mem_down :: bool

definition mem_guard :: "mem_db \<Rightarrow> gorm_error + 'a \<Rightarrow> gorm_error + 'a" where
  "mem_guard db r = (if mem_down db then Inl (DriverError ''disk I/O error'') else r)"

fun insert_newest :: "apikey \<Rightarrow> apikey list \<Rightarrow> apikey list" where
  "insert_newest k [] = [k]"
| "insert_newest k (x # xs) = (if CreatedAt x \<le> CreatedAt k then k # x # xs else x # insert_newest k xs)"

definition fresh_key_id :: "mem_db \<Rightarrow> uint" where
  "fresh_key_id db = Suc (foldr max (map ID (mem_keys db)) (mem_next_key db))"

definition mem_driver :: "mem_db driver" where
  "mem_driver =
     \<lparr>create_key = (\<lambda>db k. mem_guard db
        (if KeyHash k \<in> KeyHash ` set (mem_keys db) then Inl (DriverError ''UNIQUE constraint failed'')
         else let k' = k\<lparr>ID := fresh_key_id db\<rparr>
              in Inr (k', db\<lparr>mem_keys := mem_keys db @ [k'], mem_next_key := fresh_key_id db\<rparr>))),
      first_key = (\<lambda>db P. mem_guard db
        (case find P (mem_keys db) of None \<Rightarrow> Inl RecordNotFound | Some k \<Rightarrow> Inr k)),
      find_keys_newest = (\<lambda>db. mem_guard db (Inr (foldr insert_newest (mem_keys db) []))),
      update_keys = (\<lambda>db P f. mem_guard db
        (Inr (int (length (filter P (mem_keys db))),
              db\<lparr>mem_keys := map (\<lambda>k. if P k then f k else k) (mem_keys db)\<rparr>))),
      create_event = (\<lambda>db e. mem_guard db
        (let e' = e\<lparr>EventID := mem_next_event db\<rparr>
         in Inr (e', db\<lparr>mem_events := mem_events db @ [e'],
                       mem_next_event := Suc (mem_next_event db)\<rparr>))),
      sum_prompt_tokens = (\<lambda>db Q. mem_guard db (Inr (Some (tokens_where Q (mem_events db)))))\<rparr>"

lemma foldr_max_ge: "x \<in> set xs \<Longrightarrow> x \<le> foldr max xs b" for x :: nat
  by (induction xs) (auto simp: le_max_iff_disj)

lemma fresh_key_id_new: "fresh_key_id db \<notin> ID ` set (mem_keys db)"
  using foldr_max_ge [of _ "map ID (mem_keys db)" "mem_next_key db"]
  by (fastforce simp: fresh_key_id_def dest: foldr_max_ge)

lemma set_insert_newest [simp]: "set (insert_newest k xs) = insert k (set xs)"
  by (induction xs) auto

lemma length_insert_newest [simp]: "length (insert_newest k xs) = Suc (length xs)"
  by (induction xs) auto

lemma sorted_insert_newest:
  "sorted_wrt (\<lambda>a b. CreatedAt b \<le> CreatedAt a) xs \<Longrightarrow>
   sorted_wrt (\<lambda>a b. CreatedAt b \<le> CreatedAt a) (insert_newest k xs)"
  by (induction xs) (auto intro: order.trans)

lemma foldr_insert_newest:
  "set (foldr insert_newest ks []) = set ks \<and> length (foldr insert_newest ks []) = length ks \<and>
   sorted_wrt (\<lambda>a b. CreatedAt b \<le> CreatedAt a) (foldr insert_newest ks [])"
  by (induction ks) (auto simp: sorted_insert_newest)

interpretation mem: sql_driver mem_driver mem_keys mem_events
proof (unfold_locales, goal_cases)
  case (1 db k k' db')
  then show ?case
    using fresh_key_id_new [of db]
    by (auto simp: mem_driver_def mem_guard_def Let_def Limits_def split: if_splits)
next
  case (4 db ks)
  then show ?case
    using foldr_insert_newest [of "mem_keys db"]
    by (auto simp: mem_driver_def mem_guard_def split: if_splits)
qed (auto simp: mem_driver_def mem_guard_def Let_def split: if_splits option.splits)

section \<open>Properties\<close>

lemma key_identity_set_limit_columns [simp]: "key_identity (set_limit_columns l k) = key_identity k"
  by (simp add: key_identity_def set_limit_columns_def)

lemma ID_set_limit_columns [simp]: "ID (set_limit_columns l k) = ID k"
  by (simp add: set_limit_columns_def)

lemma Limits_set_limit_columns [simp]: "Limits (set_limit_columns l k) = l"
  by (simp add: Limits_def set_limit_columns_def)

definition sample_db :: mem_db where
  "sample_db = \<lparr>mem_keys = [sample_key 1 ''h1'', sample_key 2 ''h2''], mem_events = [],
     mem_next_key = 2, mem_next_event = 1, mem_down = False\<rparr>"

definition revoked_db :: "instant \<Rightarrow> mem_db" where
  "revoked_db t = sample_db\<lparr>mem_keys := [sample_key 1 ''h1'', sample_key 2 ''h2''\<lparr>RevokedAt := Some t\<rparr>]\<rparr>"

lemmas sample_defs = sample_db_def sample_key_def mem_driver_def mem_guard_def

lemma sample_key_fields:
  "ID (sample_key i h) = i" "KeyHash (sample_key i h) = h" "RevokedAt (sample_key i h) = None"
  by (simp_all add: sample_key_def)

lemma sample_revoked:
  "Revoke mem_driver sample_db t 2 = (None, revoked_db t)"
  "Revoke mem_driver (revoked_db t) t' 2 = (None, revoked_db t')"
  by (simp_all add: Revoke_def revoked_db_def sample_defs)

lemma revoked_member:
  assumes "k \<in> set (map (\<lambda>k. if ID k = i then k\<lparr>RevokedAt := Some now\<rparr> else k) ks)" "ID k = i"
  shows "RevokedAt k = Some now"
proof -
  from assms(1) obtain k0 where "k = (if ID k0 = i then k0\<lparr>RevokedAt := Some now\<rparr> else k0)"
    unfolding set_map by blast
  with assms(2) show ?thesis by (cases "ID k0 = i") simp_all
qed

text \<open>A revocation that succeeds takes effect. Whatever the database, a key with the
  revoked id that is looked up by its hash afterwards is a revoked key.\<close>

theorem Revoke_effective:
  assumes "sql_driver g K E" and "Revoke g db now i = (None, db')"
    and "ByHash g db' h = Inr k" and "ID k = i"
  shows "IsRevoked k"
proof -
  from sql_driver.ByHash_Inr [OF assms(1,3)] have "k \<in> set (K db')"
    by (metis find_Some_iff nth_mem)
  then show ?thesis
    using sql_driver.Revoke_ok [OF assms(1,2)] assms(4) revoked_member [of k i now "K db"]
    by (simp add: IsRevoked_def)
qed

theorem Revoke_effective_witness:
  "ByHash mem_driver (revoked_db 77) ''h2'' = Inr (sample_key 2 ''h2''\<lparr>RevokedAt := Some 77\<rparr>) \<and>
   IsRevoked (sample_key 2 ''h2''\<lparr>RevokedAt := Some 77\<rparr>)"
proof -
  let ?k = "sample_key 2 ''h2''\<lparr>RevokedAt := Some 77\<rparr>"
  have b: "ByHash mem_driver (revoked_db 77) ''h2'' = Inr ?k" and i: "ID ?k = 2"
    by (simp_all add: ByHash_def revoked_db_def mem_driver_def mem_guard_def sample_db_def sample_key_fields)
  from Revoke_effective [OF mem.sql_driver_axioms sample_revoked(1) b i] b show ?thesis by blast
qed

text \<open>A limit change moves exactly one key's governance. A successful update has
  found the id, leaves that key with exactly the new limits, and changes no key's identity
  and no other key; a refused or failed update (an unknown id among them) changes nothing.\<close>

theorem UpdateLimits_effect:
  assumes "sql_driver g K E" and "UpdateLimits g db i l = (r, db')"
  shows "E db' = E db \<and>
    (if r = None
     then (\<exists>k\<in>set (K db). ID k = i) \<and> (\<forall>k'\<in>set (K db'). ID k' = i \<longrightarrow> Limits k' = l) \<and>
       map key_identity (K db') = map key_identity (K db) \<and>
       filter (\<lambda>k. ID k \<noteq> i) (K db') = filter (\<lambda>k. ID k \<noteq> i) (K db)
     else K db' = K db)"
proof (cases r)
  case None
  have other: "filter (\<lambda>k. ID k \<noteq> i) (map (\<lambda>k. if ID k = i then set_limit_columns l k else k) ks)
      = filter (\<lambda>k. ID k \<noteq> i) ks" for ks
    by (induction ks) auto
  show ?thesis
    using sql_driver.UpdateLimits_ok [OF assms(1), of db i l db'] assms(2) None
    by (auto simp: other)
next
  case (Some e)
  then show ?thesis
    using sql_driver.UpdateLimits_failed [OF assms(1), of db i l e db'] assms(2) by simp
qed

definition sample_limits :: limits where
  "sample_limits = \<lparr>L_BatchMax = 50, L_RatePerMin = 200, L_TokenBudget = -1,
     L_BudgetPeriod = Lifetime, L_Priority = 9\<rparr>"

definition updated_db :: mem_db where
  "updated_db = sample_db\<lparr>mem_keys := [sample_key 1 ''h1'', set_limit_columns sample_limits (sample_key 2 ''h2'')]\<rparr>"

theorem UpdateLimits_effect_witness:
  "UpdateLimits mem_driver sample_db 2 sample_limits = (None, updated_db) \<and>
   UpdateLimits mem_driver sample_db 7 sample_limits = (Some ErrNotFound, sample_db) \<and>
   map key_identity (mem_keys updated_db) = map key_identity (mem_keys sample_db)"
proof -
  have a: "UpdateLimits mem_driver sample_db 2 sample_limits = (None, updated_db)"
    and b: "UpdateLimits mem_driver sample_db 7 sample_limits = (Some ErrNotFound, sample_db)"
    by (simp_all add: UpdateLimits_def updated_db_def set_limit_columns_def sample_defs)
  show ?thesis
    using a b UpdateLimits_effect [OF mem.sql_driver_axioms a] by simp
qed

text \<open>Revoking twice is not a no-op on the row. The second revocation succeeds and
  moves the revocation time of an already revoked key to the later moment.\<close>

theorem Revoke_restamps:
  assumes "sql_driver g K E" and "Revoke g db t1 i = (None, db1)" and "Revoke g db1 t2 i = (None, db2)"
    and "k \<in> set (K db2)" and "ID k = i"
  shows "RevokedAt k = Some t2"
  using sql_driver.Revoke_ok [OF assms(1,3)] assms(4,5) revoked_member [of k i t2 "K db1"] by simp

theorem Revoke_restamps_witness:
  "Revoke mem_driver (revoked_db 77) 99 2 = (None, revoked_db 99) \<and>
   RevokedAt (sample_key 2 ''h2''\<lparr>RevokedAt := Some 99\<rparr>) = Some 99"
proof -
  have k: "sample_key 2 ''h2''\<lparr>RevokedAt := Some 99\<rparr> \<in> set (mem_keys (revoked_db 99))"
    "ID (sample_key 2 ''h2''\<lparr>RevokedAt := Some 99\<rparr>) = 2"
    by (simp_all add: revoked_db_def sample_key_fields)
  from Revoke_restamps [OF mem.sql_driver_axioms sample_revoked(1) sample_revoked(2) k]
  show ?thesis by (simp only: sample_revoked simp_thms)
qed

end
