(* ===== verification/Budget.thy ===== *)
theory Budget
  imports Store
begin

text \<open>
  The budget checker (src/internal/budget/budget.go) and the interface it needs from
  persistence, \<open>TokenSummer\<close>, as the locale \<open>token_summer\<close>: a sum over a half-open
  range is exact with respect to what the key spent at the instants of the range. The
  report of the usage domain relies on the same interface. The repositories over any
  lawful driver provide it.
\<close>

section \<open>The checker\<close>

record status =
  Exhausted :: bool
  RemainingTokens :: int

text \<open>\<open>sumf\<close> is the \<open>TokenSummer\<close>, \<open>loc\<close> and \<open>now\<close> what the clock returns.\<close>

definition Status ::
    "(uint \<Rightarrow> instant \<Rightarrow> instant \<Rightarrow> 'e + int) \<Rightarrow> zone \<Rightarrow> instant \<Rightarrow> apikey \<Rightarrow> 'e + status" where
  "Status sumf loc now k =
     (if IsUnlimited k then Inr \<lparr>Exhausted = False, RemainingTokens = Unlimited\<rparr>
      else if BudgetPeriod k = Monthly
      then (case sumf (ID k) (From (ThisMonth (ReportWindows loc now))) now of
              Inl e \<Rightarrow> Inl e
            | Inr used \<Rightarrow> Inr \<lparr>Exhausted = BudgetExhausted k used 0,
                             RemainingTokens = Remaining k used 0\<rparr>)
      else (case sumf (ID k) 0 now of
              Inl e \<Rightarrow> Inl e
            | Inr used \<Rightarrow> Inr \<lparr>Exhausted = BudgetExhausted k 0 used,
                             RemainingTokens = Remaining k 0 used\<rparr>))"

text \<open>The beginning of the period a key's budget is measured over.\<close>

definition period_start :: "zone \<Rightarrow> instant \<Rightarrow> apikey \<Rightarrow> instant" where
  "period_start loc now k =
     (if BudgetPeriod k = Monthly then From (ThisMonth (ReportWindows loc now)) else 0)"

lemma Status_limited:
  "\<not> IsUnlimited k \<Longrightarrow> Status sumf loc now k =
     (case sumf (ID k) (period_start loc now k) now of
        Inl e \<Rightarrow> Inl e
      | Inr used \<Rightarrow> Inr \<lparr>Exhausted = TokenBudget k \<le> used,
          RemainingTokens = max 0 (i64 (TokenBudget k - used))\<rparr>)"
  by (auto simp: Status_def period_start_def BudgetExhausted_def Remaining_def Let_def max_def
      split: sum.splits)

section \<open>The interface to persistence\<close>

locale token_summer =
  fixes sumf :: "uint \<Rightarrow> instant \<Rightarrow> instant \<Rightarrow> 'e + int"
    and spent :: "uint \<Rightarrow> (instant \<Rightarrow> bool) \<Rightarrow> int"
  assumes sum_exact: "sumf k a b = Inr n \<Longrightarrow> n = spent k (\<lambda>t. a \<le> t \<and> t < b)"
    and spent_disjoint: "(\<And>t. \<not> (P t \<and> Q t)) \<Longrightarrow>
      spent k (\<lambda>t. P t \<or> Q t) = spent k P + spent k Q"
begin

lemma spent_adjacent:
  "a \<le> b \<Longrightarrow> b \<le> c \<Longrightarrow>
     spent k (\<lambda>t. a \<le> t \<and> t < c) = spent k (\<lambda>t. a \<le> t \<and> t < b) + spent k (\<lambda>t. b \<le> t \<and> t < c)"
proof -
  assume "a \<le> b" "b \<le> c"
  then have "(\<lambda>t. a \<le> t \<and> t < c) = (\<lambda>t. (a \<le> t \<and> t < b) \<or> (b \<le> t \<and> t < c))"
    by auto
  then show ?thesis using spent_disjoint [of "\<lambda>t. a \<le> t \<and> t < b" "\<lambda>t. b \<le> t \<and> t < c" k] by auto
qed

lemma spent_none [simp]: "spent k (\<lambda>t. False) = 0"
  using spent_disjoint [of "\<lambda>t. False" "\<lambda>t. False" k] by simp

lemma Status_Inr:
  assumes "Status sumf loc now k = Inr st" "\<not> IsUnlimited k"
  shows "Exhausted st \<longleftrightarrow> TokenBudget k \<le> spent (ID k) (\<lambda>t. period_start loc now k \<le> t \<and> t < now)"
    and "RemainingTokens st =
      max 0 (i64 (TokenBudget k - spent (ID k) (\<lambda>t. period_start loc now k \<le> t \<and> t < now)))"
  using assms by (auto simp: Status_limited dest!: sum_exact split: sum.splits)

text \<open>The three disjoint windows of a report add up to everything spent before now.\<close>

lemma report_total:
  assumes "BuildReport (ReportWindows (fixed_zone c) now) (\<lambda>r. sumf k (From r) (To r)) = Inr rep"
    and "0 \<le> From (PastMonth (ReportWindows (fixed_zone c) now))"
  shows "R_ThisMonth rep + R_PastMonth rep + R_Before rep = spent k (\<lambda>t. 0 \<le> t \<and> t < now)"
proof -
  let ?w = "ReportWindows (fixed_zone c) now"
  have o: "0 \<le> From (PastMonth ?w)" "From (PastMonth ?w) \<le> From (ThisMonth ?w)" "From (ThisMonth ?w) \<le> now"
    using windows_order [of c now] assms(2) by simp_all
  have "R_ThisMonth rep = spent k (\<lambda>t. From (ThisMonth ?w) \<le> t \<and> t < now)"
    "R_PastMonth rep = spent k (\<lambda>t. From (PastMonth ?w) \<le> t \<and> t < From (ThisMonth ?w))"
    "R_Before rep = spent k (\<lambda>t. 0 \<le> t \<and> t < From (PastMonth ?w))"
    using assms(1) windows_order [of c now] by (auto simp: BuildReport_Inr_iff dest!: sum_exact)
  then show ?thesis
    using spent_adjacent [OF o(1) order.trans [OF o(2,3)], of k] spent_adjacent [OF o(2,3), of k]
    by simp
qed

end

section \<open>The repository provides it\<close>

definition spent_in :: "event list \<Rightarrow> uint \<Rightarrow> (instant \<Rightarrow> bool) \<Rightarrow> int" where
  "spent_in es k P = tokens_where (\<lambda>e. APIKeyID e = k \<and> P (EventAt e)) es"

lemma spent_in_disjoint:
  "(\<And>t. \<not> (P t \<and> Q t)) \<Longrightarrow>
   spent_in es k (\<lambda>t. P t \<or> Q t) = spent_in es k P + spent_in es k Q"
  by (induction es) (auto simp: spent_in_def tokens_where_def)

lemma spent_in_nonneg: "(\<And>e. e \<in> set es \<Longrightarrow> 0 \<le> PromptTokens e) \<Longrightarrow> 0 \<le> spent_in es k P"
  unfolding spent_in_def tokens_where_def by (rule sum_list_nonneg_map) auto

lemma spent_in_append [simp]: "spent_in (es @ fs) k P = spent_in es k P + spent_in fs k P"
  by (simp add: spent_in_def tokens_where_def)

locale sql_db = sql_driver g keys_of events_of
  for g :: "'db driver" and keys_of :: "'db \<Rightarrow> apikey list" and events_of :: "'db \<Rightarrow> event list" +
  fixes db :: 'db

sublocale sql_db \<subseteq> ledger: token_summer "SumTokens g db" "spent_in (events_of db)"
  by unfold_locales (auto simp: spent_in_def dest: SumTokens_exact intro: spent_in_disjoint [unfolded spent_in_def])

interpretation mem_db: sql_db mem_driver mem_keys mem_events db
  for db
  by (rule sql_db.intro) (rule mem.sql_driver_axioms)

context sql_db
begin

lemma Status_in_db:
  "Status (SumTokens g db) loc now k = Inr st \<Longrightarrow> \<not> IsUnlimited k \<Longrightarrow>
   used = spent_in (events_of db) (ID k) (\<lambda>t. period_start loc now k \<le> t \<and> t < now) \<Longrightarrow>
     Exhausted st = (TokenBudget k \<le> used) \<and> RemainingTokens st = max 0 (i64 (TokenBudget k - used))"
  using ledger.Status_Inr by blast

lemma report_in_db:
  "BuildReport (ReportWindows (fixed_zone c) now) (\<lambda>r. SumTokens g db k (From r) (To r)) = Inr rep \<Longrightarrow>
   0 \<le> From (PastMonth (ReportWindows (fixed_zone c) now)) \<Longrightarrow>
     R_ThisMonth rep + R_PastMonth rep + R_Before rep = spent_in (events_of db) k (\<lambda>t. 0 \<le> t \<and> t < now)"
  by (rule ledger.report_total)

end

section \<open>Properties\<close>

text \<open>C31: the budget decision is about the right tokens. For a limited key the checker
  reports exhaustion exactly when the tokens recorded for that key in its own period (the
  month so far, or ever) have reached the budget, and otherwise the exact remainder; the
  two figures never contradict each other.\<close>

theorem Status_sound:
  assumes "sql_driver g K E" and "Status (SumTokens g db) loc now k = Inr st"
    and "\<not> IsUnlimited k"
    and "used = spent_in (E db) (ID k) (\<lambda>t. period_start loc now k \<le> t \<and> t < now)"
    and "0 \<le> used" and "used \<le> max_i64" and "0 < TokenBudget k" and "TokenBudget k \<le> max_i64"
  shows "(Exhausted st \<longleftrightarrow> TokenBudget k \<le> used) \<and>
    RemainingTokens st = max 0 (TokenBudget k - used) \<and>
    (Exhausted st \<longleftrightarrow> RemainingTokens st = 0)"
proof -
  have l: "sql_db g K E" by (rule sql_db.intro) (rule assms(1))
  have "in_i64 (TokenBudget k - used)"
    using assms(5-8) by simp
  then show ?thesis
    using sql_db.Status_in_db [OF l assms(2-4)] by auto
qed

definition spent_db :: mem_db where
  "spent_db = sample_db\<lparr>mem_events := [
     \<lparr>EventID = 1, APIKeyID = 1, Model = ''bge-m3'', PromptTokens = 400, BatchSize = 2, EventAt = 100\<rparr>,
     \<lparr>EventID = 2, APIKeyID = 2, Model = ''bge-m3'', PromptTokens = 900, BatchSize = 1, EventAt = 150\<rparr>]\<rparr>"

definition lifetime_key :: "int \<Rightarrow> apikey" where
  "lifetime_key b = (sample_key 1 ''h1'')\<lparr>BudgetPeriod := Lifetime, TokenBudget := b\<rparr>"

theorem Status_sound_witness:
  "Status (SumTokens mem_driver spent_db) UTC 200 (lifetime_key 1000)
     = Inr \<lparr>Exhausted = False, RemainingTokens = 600\<rparr> \<and>
   (False \<longleftrightarrow> (600::int) = 0) \<and>
   Status (SumTokens mem_driver spent_db) UTC 200 (lifetime_key 400)
     = Inr \<lparr>Exhausted = True, RemainingTokens = 0\<rparr>"
proof -
  have st: "Status (SumTokens mem_driver spent_db) UTC 200 (lifetime_key 1000)
      = Inr \<lparr>Exhausted = False, RemainingTokens = 600\<rparr>"
    "Status (SumTokens mem_driver spent_db) UTC 200 (lifetime_key 400)
      = Inr \<lparr>Exhausted = True, RemainingTokens = 0\<rparr>"
    by code_simp+
  have used: "spent_in (mem_events spent_db) (ID (lifetime_key b))
      (\<lambda>t. period_start UTC 200 (lifetime_key b) \<le> t \<and> t < 200) = 400" for b
    by (simp add: spent_in_def tokens_where_def spent_db_def lifetime_key_def sample_key_def
        period_start_def)
  have lim: "\<not> IsUnlimited (lifetime_key 1000)" "TokenBudget (lifetime_key 1000) = 1000"
    by (simp_all add: IsUnlimited_def Unlimited_def lifetime_key_def)
  show ?thesis
    using Status_sound [OF mem.sql_driver_axioms st(1) lim(1) used [symmetric]] st lim(2) by simp
qed

text \<open>An unlimited key is never stopped by bookkeeping. Its budget check succeeds with
  no finite remainder whatever the summer answers; for every other key a failing sum is
  reported as the failure it is, not as a decision.\<close>

theorem Status_errors:
  "Status sumf loc now k =
     (if IsUnlimited k then Inr \<lparr>Exhausted = False, RemainingTokens = -1\<rparr>
      else case sumf (ID k) (period_start loc now k) now of
        Inl e \<Rightarrow> Inl e
      | Inr used \<Rightarrow> Inr \<lparr>Exhausted = TokenBudget k \<le> used,
          RemainingTokens = max 0 (i64 (TokenBudget k - used))\<rparr>)"
  by (simp add: Status_limited) (simp add: Status_def Unlimited_def)

text \<open>The dashboard's derived lifetime agrees with the budget's. For a report built
  from the repository, this month plus past month plus before is what the budget checker
  sums for a lifetime key at the same moment.\<close>

theorem report_matches_lifetime:
  assumes "sql_driver g K E"
    and "BuildReport (ReportWindows (fixed_zone c) now) (\<lambda>r. SumTokens g db i (From r) (To r)) = Inr rep"
    and "0 \<le> From (PastMonth (ReportWindows (fixed_zone c) now))"
    and "SumTokens g db i 0 now = Inr used"
  shows "R_ThisMonth rep + R_PastMonth rep + R_Before rep = used"
proof -
  have "sql_db g K E" by (rule sql_db.intro) (rule assms(1))
  from sql_db.report_in_db [OF this assms(2,3)] sql_driver.SumTokens_exact [OF assms(1,4)]
  show ?thesis by (simp add: spent_in_def conj_assoc)
qed

text \<open>The events of the repository's own bucketing test, 15 July 2026 10:30 UTC.\<close>

definition at_nine :: "int \<Rightarrow> int \<Rightarrow> int \<Rightarrow> instant" where
  "at_nine y m d = time_Date UTC y m d (9 * 3600 * second)"

definition usage_event :: "uint \<Rightarrow> int \<Rightarrow> instant \<Rightarrow> event" where
  "usage_event i n t = \<lparr>EventID = 0, APIKeyID = i, Model = ''bge-m3'', PromptTokens = n,
     BatchSize = 1, EventAt = t\<rparr>"

definition july_db :: mem_db where
  "july_db = sample_db\<lparr>mem_events := [usage_event 1 100 (at_nine 2026 7 15),
     usage_event 1 50 (at_nine 2026 7 10), usage_event 1 30 (at_nine 2026 6 15),
     usage_event 1 20 (at_nine 2026 5 15), usage_event 999 777 (at_nine 2026 7 15)]\<rparr>"

definition july_now :: instant where
  "july_now = time_Date UTC 2026 7 15 (10 * 3600 * second + 30 * minute)"

lemma july_report:
  "BuildReport (ReportWindows (fixed_zone 0) july_now)
     (\<lambda>r. SumTokens mem_driver july_db 1 (From r) (To r)) =
   Inr \<lparr>R_Today = 100, R_ThisWeek = 100, R_ThisMonth = 150, R_PastMonth = 30, R_Before = 20\<rparr>"
  by code_simp

theorem report_matches_lifetime_witness:
  "SumTokens mem_driver july_db 1 0 july_now = Inr (150 + 30 + 20)"
proof -
  have p: "0 \<le> From (PastMonth (ReportWindows (fixed_zone 0) july_now))"
    and s: "SumTokens mem_driver july_db 1 0 july_now = Inr 200"
    by code_simp+
  from report_matches_lifetime [OF mem.sql_driver_axioms july_report p s] s show ?thesis
    by simp
qed

end
