(* ===== verification/Queue.thy ===== *)
theory Queue
  imports Prelude "HOL-Library.Monad_Syntax"
begin

text \<open>
  The admission queue (src/internal/queue/queue.go): its data, one definition per
  operation, the invariant of the structure and what each operation does to it. Every
  critical section of the mutex is one function of the queue; \<open>Acquire\<close>, which blocks
  between two of them, is split at the \<open>select\<close>. Go's random iteration over the class map is an
  argument \<open>ord\<close>, any enumeration of its keys, and the nil dereference that an empty class
  would cause is the result None. The pointer to a waiter is its \<open>wid\<close>.
\<close>

section \<open>Data\<close>

definition DefaultPromoteAfter :: duration where
  "DefaultPromoteAfter = 5 * second"

record waiter =
  wid :: nat
  priority :: int
  since :: instant
  granted :: bool
  promoted :: bool

text \<open>\<open>watchers\<close> maps a watcher's channel to whether its one-place buffer is full.\<close>

record queue =
  capacity :: int
  free :: int
  promoteAfter :: duration
  classes :: "int \<rightharpoonup> waiter list"
  waiting :: int
  justPromoted :: bool
  watchers :: "nat \<rightharpoonup> bool"
  admitted_count :: int
  promoted_count :: int
  cancelled_count :: int

section \<open>Watchers\<close>

definition Watch :: "nat \<Rightarrow> queue \<Rightarrow> queue" where
  "Watch ch q = q\<lparr>watchers := (watchers q)(ch \<mapsto> False)\<rparr>"

definition Unwatch :: "nat \<Rightarrow> queue \<Rightarrow> queue" where
  "Unwatch ch q = q\<lparr>watchers := (watchers q)(ch := None)\<rparr>"

definition notifyLocked :: "queue \<Rightarrow> queue" where
  "notifyLocked q = q\<lparr>watchers := (\<lambda>ch. map_option (\<lambda>_. True) (watchers q ch))\<rparr>"

section \<open>Construction\<close>

datatype queue_panic = BadCapacity int | BadPromoteAfter duration

definition NewWithClock :: "int \<Rightarrow> duration \<Rightarrow> queue_panic + queue" where
  "NewWithClock cap after =
     (if cap < 1 then Inl (BadCapacity cap)
      else if after \<le> 0 then Inl (BadPromoteAfter after)
      else Inr \<lparr>capacity = cap, free = cap, promoteAfter = after, classes = Map.empty,
                waiting = 0, justPromoted = False, watchers = Map.empty,
                admitted_count = 0, promoted_count = 0, cancelled_count = 0\<rparr>)"

section \<open>The class lists\<close>

definition pushLocked :: "waiter \<Rightarrow> queue \<Rightarrow> queue" where
  "pushLocked w q =
     (let l = (case classes q (priority w) of None \<Rightarrow> [] | Some l \<Rightarrow> l)
      in q\<lparr>classes := (classes q)(priority w \<mapsto> l @ [w]), waiting := waiting q + 1\<rparr>)"

definition removeLocked :: "waiter \<Rightarrow> queue \<Rightarrow> queue" where
  "removeLocked w q =
     (case classes q (priority w) of
        None \<Rightarrow> q
      | Some l \<Rightarrow>
          (let l' = filter (\<lambda>v. wid v \<noteq> wid w) l
           in q\<lparr>classes := (if l' = [] then (classes q)(priority w := None)
                            else (classes q)(priority w \<mapsto> l')),
                waiting := waiting q - 1\<rparr>))"

text \<open>The scan of the class heads: the highest priority and the earliest arrival so far.\<close>

fun scan_heads :: "waiter option \<Rightarrow> waiter option \<Rightarrow> waiter list \<Rightarrow> waiter option \<times> waiter option" where
  "scan_heads best oldest [] = (best, oldest)"
| "scan_heads best oldest (h # hs) =
     scan_heads
       (case best of None \<Rightarrow> Some h | Some t \<Rightarrow> if priority t < priority h then Some h else best)
       (case oldest of None \<Rightarrow> Some h | Some a \<Rightarrow> if since h < since a then Some h else oldest)
       hs"

fun class_head :: "queue \<Rightarrow> int \<Rightarrow> waiter option" where
  "class_head q p = (case classes q p of Some (w # ws) \<Rightarrow> Some w | _ \<Rightarrow> None)"

fun class_heads :: "queue \<Rightarrow> int list \<Rightarrow> waiter list option" where
  "class_heads q [] = Some []"
| "class_heads q (p # ps) = do { h \<leftarrow> class_head q p; hs \<leftarrow> class_heads q ps; Some (h # hs) }"

definition popLocked :: "int list \<Rightarrow> instant \<Rightarrow> queue \<Rightarrow> ((waiter \<times> bool) option \<times> queue) option" where
  "popLocked ord now q = do {
     hs \<leftarrow> class_heads q ord;
     case scan_heads None None hs of
       (Some best, Some oldest) \<Rightarrow>
         if \<not> justPromoted q \<and> wid oldest \<noteq> wid best \<and>
            promoteAfter q \<le> time_sub now (since oldest)
         then Some (Some (oldest, True), removeLocked oldest (q\<lparr>justPromoted := True\<rparr>))
         else Some (Some (best, False), removeLocked best (q\<lparr>justPromoted := False\<rparr>))
     | _ \<Rightarrow> Some (None, q)
   }"

text \<open>The result names the waiter whose \<open>ready\<close> channel is closed, with the fields the
  grant wrote.\<close>

definition releaseLocked :: "int list \<Rightarrow> instant \<Rightarrow> queue \<Rightarrow> (waiter option \<times> queue) option" where
  "releaseLocked ord now q = do {
     r \<leftarrow> popLocked ord now q;
     case r of
       (Some (w, p), q') \<Rightarrow> Some (Some (w\<lparr>granted := True, promoted := p\<rparr>), notifyLocked q')
     | (None, q') \<Rightarrow> Some (None, notifyLocked (q'\<lparr>free := free q' + 1\<rparr>))
   }"

section \<open>Acquire\<close>

text \<open>Up to the \<open>select\<close>: a slot at once (None), or a waiter to block on.\<close>

definition Acquire_enter :: "instant \<Rightarrow> nat \<Rightarrow> int \<Rightarrow> queue \<Rightarrow> waiter option \<times> queue" where
  "Acquire_enter now i p q =
     (if 0 < free q \<and> waiting q = 0
      then (None, notifyLocked (q\<lparr>free := free q - 1, admitted_count := u64 (admitted_count q + 1)\<rparr>))
      else (let w = \<lparr>wid = i, priority = p, since = now, granted = False, promoted = False\<rparr>
            in (Some w, notifyLocked (pushLocked w q))))"

text \<open>The branch \<open>case <-w.ready\<close>.\<close>

definition Acquire_ready :: "waiter \<Rightarrow> queue \<Rightarrow> queue" where
  "Acquire_ready w q =
     (let q1 = q\<lparr>admitted_count := u64 (admitted_count q + 1)\<rparr>
      in (if promoted w then q1\<lparr>promoted_count := u64 (promoted_count q1 + 1)\<rparr> else q1))"

text \<open>The branch \<open>case <-ctx.Done()\<close>, for a waiter already granted and one still queued.\<close>

definition Acquire_cancel :: "int list \<Rightarrow> instant \<Rightarrow> waiter \<Rightarrow> queue \<Rightarrow> (waiter option \<times> queue) option" where
  "Acquire_cancel ord now w q =
     (if granted w
      then do { (g, q1) \<leftarrow> releaseLocked ord now q;
                Some (g, q1\<lparr>cancelled_count := u64 (cancelled_count q1 + 1)\<rparr>) }
      else (let q1 = removeLocked w q
            in Some (None, notifyLocked (q1\<lparr>cancelled_count := u64 (cancelled_count q1 + 1)\<rparr>))))"

text \<open>The closure \<open>releaser\<close> returns; its \<open>sync.Once\<close> is the flag \<open>fired\<close>.\<close>

definition Release :: "int list \<Rightarrow> instant \<Rightarrow> bool \<Rightarrow> queue \<Rightarrow> (waiter option \<times> queue) option" where
  "Release ord now fired q = (if fired then Some (None, q) else releaseLocked ord now q)"

section \<open>Stats\<close>

record class_stat =
  CS_Priority :: int
  CS_Waiting :: int
  CS_OldestWait :: duration

record stats =
  Capacity :: int
  InFlight :: int
  Waiting :: int
  PromoteAfter :: duration
  Classes :: "class_stat list"
  OldestWait :: duration
  Admitted :: int
  Promoted :: int
  Cancelled :: int

fun class_stats :: "queue \<Rightarrow> instant \<Rightarrow> int list \<Rightarrow> class_stat list option" where
  "class_stats q now [] = Some []"
| "class_stats q now (p # ps) = do {
     h \<leftarrow> class_head q p;
     cs \<leftarrow> class_stats q now ps;
     Some (\<lparr>CS_Priority = p,
            CS_Waiting = int (length (case classes q p of None \<Rightarrow> [] | Some l \<Rightarrow> l)),
            CS_OldestWait = time_sub now (since h)\<rparr> # cs) }"

definition Stats :: "int list \<Rightarrow> instant \<Rightarrow> queue \<Rightarrow> stats option" where
  "Stats ord now q = do {
     cs \<leftarrow> class_stats q now ord;
     Some \<lparr>Capacity = capacity q, InFlight = capacity q - free q, Waiting = waiting q,
           PromoteAfter = promoteAfter q,
           Classes = rev (sort_key CS_Priority cs),
           OldestWait = foldl (\<lambda>m c. max m (CS_OldestWait c)) 0 cs,
           Admitted = admitted_count q, Promoted = promoted_count q,
           Cancelled = cancelled_count q\<rparr> }"

section \<open>The invariant\<close>

definition class_list :: "queue \<Rightarrow> int \<Rightarrow> waiter list" where
  "class_list q p = (case classes q p of None \<Rightarrow> [] | Some l \<Rightarrow> l)"

definition members :: "queue \<Rightarrow> waiter set" where
  "members q = (\<Union>p. set (class_list q p))"

abbreviation arrived_before :: "waiter \<Rightarrow> waiter \<Rightarrow> bool" where
  "arrived_before v w \<equiv> wid v < wid w \<and> since v \<le> since w"

definition class_ok :: "int \<Rightarrow> waiter list \<Rightarrow> bool" where
  "class_ok p l \<longleftrightarrow> l \<noteq> [] \<and> (\<forall>w \<in> set l. priority w = p \<and> \<not> granted w) \<and>
     sorted_wrt arrived_before l"

definition queue_ok :: "queue \<Rightarrow> bool" where
  "queue_ok q \<longleftrightarrow> 1 \<le> capacity q \<and> 0 \<le> free q \<and> free q \<le> capacity q \<and>
     0 < promoteAfter q \<and> promoteAfter q \<le> max_i64 \<and> finite (dom (classes q)) \<and>
     (\<forall>p l. classes q p = Some l \<longrightarrow> class_ok p l) \<and> inj_on wid (members q) \<and>
     waiting q = int (card (members q)) \<and> (0 < free q \<longrightarrow> members q = {})"

abbreviation key_order :: "int list \<Rightarrow> queue \<Rightarrow> bool" where
  "key_order ord q \<equiv> distinct ord \<and> set ord = dom (classes q)"


lemmas queue_defs = NewWithClock_def pushLocked_def removeLocked_def notifyLocked_def
  Watch_def Unwatch_def

section \<open>What each operation does to the members\<close>

lemma class_list_Some [simp]: "classes q p = Some l \<Longrightarrow> class_list q p = l"
  by (simp add: class_list_def)

lemma class_list_None [simp]: "classes q p = None \<Longrightarrow> class_list q p = []"
  by (simp add: class_list_def)

lemma class_okD: "queue_ok q \<Longrightarrow> classes q p = Some l \<Longrightarrow> class_ok p l"
  by (simp add: queue_ok_def)

lemma class_list_priority: "queue_ok q \<Longrightarrow> w \<in> set (class_list q p) \<Longrightarrow> priority w = p \<and> \<not> granted w"
  by (cases "classes q p") (auto dest: class_okD simp: class_ok_def)

lemma member_iff: "queue_ok q \<Longrightarrow> w \<in> members q \<longleftrightarrow> w \<in> set (class_list q (priority w))"
  using class_list_priority by (auto simp: members_def)

lemma class_of_member:
  assumes "queue_ok q" "w \<in> members q"
  obtains l where "classes q (priority w) = Some l" "w \<in> set l" "class_ok (priority w) l"
proof (cases "classes q (priority w)")
  case None
  with assms that show ?thesis by (simp add: member_iff)
next
  case (Some l)
  with assms that class_okD [of q "priority w" l] show ?thesis by (simp add: member_iff)
qed

lemma class_subset: "classes q p = Some l \<Longrightarrow> set l \<subseteq> members q"
  using UN_upper [of p UNIV "\<lambda>p. set (class_list q p)"] by (simp add: members_def)

lemma finite_members [simp]:
  assumes "queue_ok q"
  shows "finite (members q)"
proof -
  have "p \<in> dom (classes q)" if "w \<in> set (class_list q p)" for w p
    using that by (cases "classes q p") auto
  then have "members q = (\<Union>p \<in> dom (classes q). set (class_list q p))"
    unfolding members_def by blast
  with assms show ?thesis by (simp add: queue_ok_def)
qed

lemma member_fields:
  "queue_ok q \<Longrightarrow> w \<in> members q \<Longrightarrow> \<not> granted w"
  by (simp add: member_iff class_list_priority)

lemma members_update:
  "members (q\<lparr>free := f\<rparr>) = members q" "members (q\<lparr>justPromoted := b\<rparr>) = members q"
  "members (q\<lparr>watchers := ch\<rparr>) = members q" "members (q\<lparr>admitted_count := c\<rparr>) = members q"
  "members (q\<lparr>promoted_count := c\<rparr>) = members q"
  "members (q\<lparr>cancelled_count := c\<rparr>) = members q" "members (q\<lparr>waiting := n\<rparr>) = members q"
  by (simp_all add: members_def class_list_def)

lemma members_notify [simp]: "members (notifyLocked q) = members q"
  by (simp add: members_def class_list_def notifyLocked_def)

lemma queue_ok_update [simp]:
  "queue_ok (q\<lparr>justPromoted := b\<rparr>) = queue_ok q" "queue_ok (q\<lparr>watchers := ch\<rparr>) = queue_ok q"
  "queue_ok (q\<lparr>admitted_count := c\<rparr>) = queue_ok q"
  "queue_ok (q\<lparr>promoted_count := c\<rparr>) = queue_ok q"
  "queue_ok (q\<lparr>cancelled_count := c\<rparr>) = queue_ok q" "queue_ok (notifyLocked q) = queue_ok q"
  by (simp_all add: queue_ok_def members_update notifyLocked_def)

lemma class_list_push:
  "class_list (pushLocked w q) p = class_list q p @ (if p = priority w then [w] else [])"
  by (simp add: class_list_def pushLocked_def split: option.split)

lemma members_push: "members (pushLocked w q) = insert w (members q)"
  by (auto simp: members_def class_list_push split: if_splits)

lemma push_fields [simp]:
  "capacity (pushLocked w q) = capacity q" "free (pushLocked w q) = free q"
  "promoteAfter (pushLocked w q) = promoteAfter q" "waiting (pushLocked w q) = waiting q + 1"
  "justPromoted (pushLocked w q) = justPromoted q" "watchers (pushLocked w q) = watchers q"
  "admitted_count (pushLocked w q) = admitted_count q"
  "promoted_count (pushLocked w q) = promoted_count q"
  "cancelled_count (pushLocked w q) = cancelled_count q"
  "classes (pushLocked w q) = (classes q)(priority w \<mapsto> class_list q (priority w) @ [w])"
  by (simp_all add: pushLocked_def Let_def class_list_def)

lemma queue_ok_intro:
  assumes "queue_ok q" "capacity q' = capacity q" "free q' = free q"
    and "promoteAfter q' = promoteAfter q" "finite (dom (classes q'))"
    and "\<And>p l. classes q' p = Some l \<Longrightarrow> class_ok p l" "members q' = W" "inj_on wid W"
    and "waiting q' = int (card W)" "0 < free q \<Longrightarrow> W = {}"
  shows "queue_ok q'"
  using assms unfolding queue_ok_def by simp

lemma queue_okD:
  assumes "queue_ok q"
  shows "1 \<le> capacity q" "0 \<le> free q" "free q \<le> capacity q" "0 < promoteAfter q"
    "promoteAfter q \<le> max_i64" "finite (dom (classes q))" "inj_on wid (members q)"
    "waiting q = int (card (members q))" "0 < free q \<Longrightarrow> members q = {}"
  using assms unfolding queue_ok_def by blast+

lemma class_ok_push:
  assumes "queue_ok q" "\<not> granted w" "\<forall>v \<in> members q. arrived_before v w"
  shows "class_ok (priority w) (class_list q (priority w) @ [w])"
proof -
  have "sorted_wrt arrived_before (class_list q (priority w))"
    using assms(1) by (cases "classes q (priority w)") (auto dest: class_okD simp: class_ok_def)
  moreover have "set (class_list q (priority w)) \<subseteq> members q" by (auto simp: members_def)
  ultimately show ?thesis
    using assms(2,3) class_list_priority [OF assms(1)]
    by (auto simp: class_ok_def sorted_wrt_append)
qed

lemma queue_ok_push:
  assumes "queue_ok q" "\<not> granted w" "\<forall>v \<in> members q. arrived_before v w"
    and "free q = 0"
  shows "queue_ok (pushLocked w q)"
proof (rule queue_ok_intro [OF assms(1)])
  have new: "wid w \<notin> wid ` members q" using assms(3) by auto
  then show "waiting (pushLocked w q) = int (card (insert w (members q)))"
    using assms(1) queue_okD(8) [OF assms(1)] by (subst card_insert_disjoint) auto
  show "inj_on wid (insert w (members q))"
    using new queue_okD(7) [OF assms(1)] by auto
  show "class_ok p l" if "classes (pushLocked w q) p = Some l" for p l
    using that class_ok_push [OF assms(1-3)] class_okD [OF assms(1)]
    by (auto split: if_splits)
qed (use assms(4) queue_okD(6) [OF assms(1)] in \<open>simp_all add: members_push\<close>)

lemma class_list_remove:
  "class_list (removeLocked w q) p =
     (if p = priority w then filter (\<lambda>v. wid v \<noteq> wid w) (class_list q p) else class_list q p)"
  by (simp add: class_list_def removeLocked_def Let_def split: option.split)

lemma members_remove:
  assumes "queue_ok q" "w \<in> members q"
  shows "members (removeLocked w q) = members q - {w}"
proof -
  have inj: "v = w" if "v \<in> set (class_list q p)" "wid v = wid w" for v p
  proof -
    have "inj_on wid (members q)" using assms(1) by (simp add: queue_ok_def)
    moreover have "v \<in> members q" using that(1) by (auto simp: members_def)
    ultimately show ?thesis using assms(2) that(2) by (auto dest: inj_onD)
  qed
  have "v \<noteq> w" if "v \<in> set (class_list q p)" "p \<noteq> priority w" for v p
    using that assms(1) class_list_priority by blast
  with inj show ?thesis
    by (fastforce simp: members_def class_list_remove split: if_splits)
qed

lemma remove_fields [simp]:
  "capacity (removeLocked w q) = capacity q" "free (removeLocked w q) = free q"
  "promoteAfter (removeLocked w q) = promoteAfter q"
  "justPromoted (removeLocked w q) = justPromoted q" "watchers (removeLocked w q) = watchers q"
  "admitted_count (removeLocked w q) = admitted_count q"
  "promoted_count (removeLocked w q) = promoted_count q"
  "cancelled_count (removeLocked w q) = cancelled_count q"
  by (simp_all add: removeLocked_def Let_def split: option.split)

lemma classes_remove:
  "classes (removeLocked w q) p =
     (if p = priority w
      then (let l = filter (\<lambda>v. wid v \<noteq> wid w) (class_list q p) in if l = [] then None else Some l)
      else classes q p) \<or> classes q (priority w) = None"
  by (simp add: removeLocked_def Let_def split: option.split)

lemma queue_ok_remove:
  assumes "queue_ok q" "w \<in> members q"
  shows "queue_ok (removeLocked w q)"
proof (rule queue_ok_intro [OF assms(1), where W = "members q - {w}"])
  obtain l where l: "classes q (priority w) = Some l" "w \<in> set l" "class_ok (priority w) l"
    using class_of_member assms by metis
  have "waiting (removeLocked w q) = waiting q - 1"
    using l(1) by (simp add: removeLocked_def Let_def)
  moreover have "0 < card (members q)" using assms by (auto simp: card_gt_0_iff)
  ultimately show "waiting (removeLocked w q) = int (card (members q - {w}))"
    using assms queue_okD(8) [OF assms(1)] by (simp add: card_Diff_singleton of_nat_diff)
  show "inj_on wid (members q - {w})"
    using queue_okD(7) [OF assms(1)] by (rule inj_on_diff)
  have l': "class_ok (priority w) (filter (\<lambda>v. wid v \<noteq> wid w) l)"
    if "filter (\<lambda>v. wid v \<noteq> wid w) l \<noteq> []"
    using that l(3) by (simp add: class_ok_def sorted_wrt_filter)
  show "class_ok p k" if "classes (removeLocked w q) p = Some k" for p k
    using classes_remove [of w q p] that l(1) l' class_okD [OF assms(1)]
    by (simp add: Let_def split: if_splits)
  show "finite (dom (classes (removeLocked w q)))"
    using queue_okD(6) [OF assms(1)] l(1) by (simp add: removeLocked_def Let_def)
qed (use assms queue_okD(9) [OF assms(1)] members_remove in auto)

section \<open>The choice of the next waiter\<close>

text \<open>What the queue promises, over the set of waiters alone: \<open>precedes\<close> is strict priority
  with arrival order inside a class, and \<open>pick_ok\<close> allows the waiter that comes first in
  rank, or the earliest arrival if it has aged and the last pick was not a promotion.\<close>

definition precedes :: "waiter \<Rightarrow> waiter \<Rightarrow> bool" where
  "precedes v w \<longleftrightarrow> priority w < priority v \<or> priority v = priority w \<and> wid v < wid w"

definition first_in_rank :: "waiter set \<Rightarrow> waiter \<Rightarrow> bool" where
  "first_in_rank W t \<longleftrightarrow> t \<in> W \<and> (\<forall>v \<in> W. v = t \<or> precedes t v)"

definition aged :: "duration \<Rightarrow> instant \<Rightarrow> waiter \<Rightarrow> bool" where
  "aged after now w \<longleftrightarrow> after \<le> now - since w"

definition pick_ok :: "duration \<Rightarrow> instant \<Rightarrow> bool \<Rightarrow> waiter set \<Rightarrow> waiter \<Rightarrow> bool \<Rightarrow> bool" where
  "pick_ok after now jp W w promo \<longleftrightarrow>
     (if promo
      then \<not> jp \<and> w \<in> W \<and> aged after now w \<and> \<not> first_in_rank W w \<and>
           (\<forall>v \<in> W. since w \<le> since v) \<and>
           (\<forall>v \<in> W. priority v = priority w \<longrightarrow> v = w \<or> wid w < wid v)
      else first_in_rank W w \<and>
           (jp \<or> (\<forall>v \<in> W. \<not> aged after now v) \<or> (\<forall>v \<in> W. since w \<le> since v)))"

lemma aged_time_sub:
  "0 < after \<Longrightarrow> after \<le> max_i64 \<Longrightarrow> after \<le> time_sub now (since w) \<longleftrightarrow> aged after now w"
  by (auto simp: aged_def time_sub_def)

lemma scan_heads_from:
  assumes "scan_heads (Some t) (Some a) hs = (t', a')"
  shows "\<exists>x y. t' = Some x \<and> a' = Some y \<and> x \<in> insert t (set hs) \<and> y \<in> insert a (set hs) \<and>
    (\<forall>v \<in> insert t (set hs). priority v \<le> priority x) \<and>
    (\<forall>v \<in> insert a (set hs). since y \<le> since v)"
  using assms
proof (induction hs arbitrary: t a)
  case Nil
  then show ?case by simp
next
  case (Cons h hs)
  let ?t = "if priority t < priority h then h else t" and ?a = "if since h < since a then h else a"
  have "scan_heads (Some ?t) (Some ?a) hs = (t', a')"
    using Cons.prems by (simp split: if_splits)
  from Cons.IH [OF this] obtain x y where xy: "t' = Some x" "a' = Some y"
    "x \<in> insert ?t (set hs)" "y \<in> insert ?a (set hs)"
    "\<forall>v \<in> insert ?t (set hs). priority v \<le> priority x"
    "\<forall>v \<in> insert ?a (set hs). since y \<le> since v" by blast
  have "priority t \<le> priority ?t" "priority h \<le> priority ?t" "since ?a \<le> since a" "since ?a \<le> since h"
    by auto
  then have "priority t \<le> priority x \<and> priority h \<le> priority x \<and> since y \<le> since a \<and> since y \<le> since h"
    using xy(5,6) by (meson insertI1 order_trans)
  moreover have "x \<in> insert t (set (h # hs))" "y \<in> insert a (set (h # hs))"
    using xy(3,4) by (auto split: if_splits)
  ultimately show ?case using xy by auto
qed

lemma scan_heads_result:
  assumes "hs \<noteq> []"
  obtains x y where "scan_heads None None hs = (Some x, Some y)" "x \<in> set hs" "y \<in> set hs"
    "\<forall>v \<in> set hs. priority v \<le> priority x" "\<forall>v \<in> set hs. since y \<le> since v"
proof -
  obtain h hs' where hs: "hs = h # hs'" using assms by (cases hs) auto
  obtain t' a' where "scan_heads (Some h) (Some h) hs' = (t', a')" by fastforce
  from scan_heads_from [OF this] this that show ?thesis by (auto simp: hs)
qed

lemma class_heads_Some:
  assumes "queue_ok q" "set ord \<subseteq> dom (classes q)"
  shows "class_heads q ord = Some (map (\<lambda>p. hd (class_list q p)) ord)"
  using assms(2)
proof (induction ord)
  case Nil
  then show ?case by simp
next
  case (Cons p ord)
  then obtain l where l: "classes q p = Some l" by auto
  then have "l \<noteq> []" using class_okD [OF assms(1)] by (auto simp: class_ok_def)
  with l have "class_head q p = Some (hd (class_list q p))"
    by (cases l) simp_all
  with Cons show ?case by simp
qed

lemma class_front:
  assumes "queue_ok q" "w \<in> members q"
  defines "h \<equiv> hd (class_list q (priority w))"
  shows "h \<in> members q" "priority h = priority w" "h = w \<or> arrived_before h w"
    "priority w \<in> dom (classes q)"
proof -
  obtain l where l: "classes q (priority w) = Some l" "w \<in> set l" "class_ok (priority w) l"
    using class_of_member assms(1,2) by metis
  then obtain ls where ls: "l = h # ls" unfolding h_def by (cases l) auto
  show "h \<in> members q" using ls class_subset [OF l(1)] by simp
  show "priority h = priority w" "h = w \<or> arrived_before h w"
    using l(2,3) ls by (auto simp: class_ok_def)
  show "priority w \<in> dom (classes q)" using l(1) by auto
qed

lemma class_front_of_key:
  assumes "queue_ok q" "p \<in> dom (classes q)"
  shows "hd (class_list q p) \<in> members q \<and> priority (hd (class_list q p)) = p"
proof -
  obtain l where l: "classes q p = Some l" using assms(2) by auto
  then have "class_ok p l" using class_okD [OF assms(1)] by simp
  with l class_subset [OF l] show ?thesis by (cases l) (auto simp: class_ok_def)
qed

lemma popLocked_none:
  assumes "queue_ok q" "key_order ord q" "members q = {}"
  shows "popLocked ord now q = Some (None, q)"
proof -
  have "dom (classes q) = {}" using class_front_of_key [OF assms(1)] assms(3) by auto
  with assms(2) have "ord = []" by simp
  then show ?thesis by (simp add: popLocked_def)
qed

lemma popLocked_pick:
  assumes ok: "queue_ok q" and ord: "key_order ord q" and ne: "members q \<noteq> {}"
  obtains w p where
    "popLocked ord now q = Some (Some (w, p), removeLocked w (q\<lparr>justPromoted := p\<rparr>))"
    "w \<in> members q" "pick_ok (promoteAfter q) now (justPromoted q) (members q) w p"
proof -
  let ?hs = "map (\<lambda>p. hd (class_list q p)) ord"
  have hs: "class_heads q ord = Some ?hs" using class_heads_Some [OF ok] ord by simp
  obtain v where v: "v \<in> members q" using ne by auto
  have "?hs \<noteq> []" using class_front(4) [OF ok v] ord by auto
  from scan_heads_result [OF this] obtain t a where ta:
    "scan_heads None None ?hs = (Some t, Some a)" "t \<in> set ?hs" "a \<in> set ?hs"
    "\<forall>v \<in> set ?hs. priority v \<le> priority t" "\<forall>v \<in> set ?hs. since a \<le> since v" by metis
  have mem: "t \<in> members q" "a \<in> members q"
    using ta(2,3) ord class_front_of_key [OF ok] by auto
  have front: "x = hd (class_list q (priority x))" if x: "x \<in> set ?hs" for x
  proof -
    obtain p where "p \<in> dom (classes q)" "x = hd (class_list q p)" using x ord by auto
    then show ?thesis using class_front_of_key [OF ok, of p] by simp
  qed
  have fifo: "v = x \<or> wid x < wid v" if "x \<in> set ?hs" "v \<in> members q" "priority v = priority x" for x v
    using class_front(3) [OF ok that(2)] front [OF that(1)] that(3) by auto
  have head: "hd (class_list q (priority v)) \<in> set ?hs" if "v \<in> members q" for v
    using class_front(4) [OF ok that] ord by simp
  have rank: "first_in_rank (members q) t"
    unfolding first_in_rank_def
  proof (intro conjI ballI)
    fix v assume v: "v \<in> members q"
    have "priority v \<le> priority t" using ta(4) head [OF v] class_front(2) [OF ok v] by fastforce
    moreover have "v = t \<or> wid t < wid v" if "priority v = priority t"
      using fifo [OF ta(2) v that] .
    ultimately show "v = t \<or> precedes t v" unfolding precedes_def by fastforce
  qed (fact mem(1))
  have early: "since a \<le> since v" if "v \<in> members q" for v
    using ta(5) head [OF that] class_front(3) [OF ok that] by fastforce
  have inj: "wid a = wid t \<longleftrightarrow> a = t" using queue_okD(7) [OF ok] mem by (auto dest: inj_onD)
  have unique: "x = t" if "first_in_rank (members q) x" for x
    using that rank mem(1) unfolding first_in_rank_def precedes_def by force
  have age: "promoteAfter q \<le> time_sub now (since a) \<longleftrightarrow> aged (promoteAfter q) now a"
    using queue_okD(4,5) [OF ok] by (rule aged_time_sub)
  have old: "aged (promoteAfter q) now v \<Longrightarrow> v \<in> members q \<Longrightarrow> aged (promoteAfter q) now a" for v
    using early by (fastforce simp: aged_def)
  show ?thesis
  proof (cases "\<not> justPromoted q \<and> a \<noteq> t \<and> aged (promoteAfter q) now a")
    case True
    with early mem unique fifo [OF ta(3)] have "pick_ok (promoteAfter q) now (justPromoted q) (members q) a True"
      by (auto simp: pick_ok_def)
    with True that [of a True] mem show ?thesis by (simp add: popLocked_def hs ta(1) inj age)
  next
    case False
    with early old rank have "pick_ok (promoteAfter q) now (justPromoted q) (members q) t False"
      by (auto simp: pick_ok_def)
    moreover have "popLocked ord now q = Some (Some (t, False), removeLocked t (q\<lparr>justPromoted := False\<rparr>))"
      using False by (simp add: popLocked_def hs ta(1) inj age)
    ultimately show ?thesis using that [of t False] mem(1) by simp
  qed
qed

section \<open>Releasing\<close>

lemma releaseLocked_cases:
  assumes "queue_ok q" "key_order ord q"
  obtains (idle) "members q = {}"
      "releaseLocked ord now q = Some (None, notifyLocked (q\<lparr>free := free q + 1\<rparr>))"
  | (grant) w p where "w \<in> members q"
      "pick_ok (promoteAfter q) now (justPromoted q) (members q) w p"
      "releaseLocked ord now q = Some (Some (w\<lparr>granted := True, promoted := p\<rparr>),
         notifyLocked (removeLocked w (q\<lparr>justPromoted := p\<rparr>)))"
proof (cases "members q = {}")
  case True
  with assms show ?thesis by (intro idle) (simp_all add: releaseLocked_def popLocked_none)
next
  case False
  obtain w p where
    "popLocked ord now q = Some (Some (w, p), removeLocked w (q\<lparr>justPromoted := p\<rparr>))"
    "w \<in> members q" "pick_ok (promoteAfter q) now (justPromoted q) (members q) w p"
    using popLocked_pick [OF assms False] .
  then show ?thesis by (intro grant [of w p]) (simp_all add: releaseLocked_def)
qed

lemma queue_ok_free:
  "queue_ok q \<Longrightarrow> members q = {} \<Longrightarrow> 0 \<le> f \<Longrightarrow> f \<le> capacity q \<Longrightarrow> queue_ok (q\<lparr>free := f\<rparr>)"
  by (simp add: queue_ok_def members_update)

lemma notify_fields [simp]:
  "capacity (notifyLocked q) = capacity q" "free (notifyLocked q) = free q"
  "promoteAfter (notifyLocked q) = promoteAfter q" "waiting (notifyLocked q) = waiting q"
  "justPromoted (notifyLocked q) = justPromoted q" "classes (notifyLocked q) = classes q"
  "admitted_count (notifyLocked q) = admitted_count q"
  "promoted_count (notifyLocked q) = promoted_count q"
  "cancelled_count (notifyLocked q) = cancelled_count q"
  by (simp_all add: notifyLocked_def)

lemma notify_signals: "watchers (notifyLocked q) ch = Some full \<Longrightarrow> full"
  by (auto simp: notifyLocked_def)

section \<open>Enumerating the classes\<close>

lemma classes_disjoint:
  "queue_ok q \<Longrightarrow> p \<noteq> p' \<Longrightarrow> set (class_list q p) \<inter> set (class_list q p') = {}"
  using class_list_priority by blast

lemma class_list_distinct: "queue_ok q \<Longrightarrow> distinct (class_list q p)"
proof (cases "classes q p")
  case (Some l)
  moreover assume "queue_ok q"
  ultimately have "sorted_wrt arrived_before l" using class_okD by (auto simp: class_ok_def)
  then have "distinct l" by (induction l) auto
  with Some show ?thesis by simp
qed simp

lemma class_list_dom: "w \<in> set (class_list q p) \<Longrightarrow> p \<in> dom (classes q)"
  by (cases "classes q p") auto

lemma card_classes:
  assumes "queue_ok q" "distinct ord"
  shows "card (\<Union>p \<in> set ord. set (class_list q p)) = sum_list (map (\<lambda>p. length (class_list q p)) ord)"
  using assms(2)
proof (induction ord)
  case (Cons p ord)
  have "set (class_list q p) \<inter> (\<Union>p' \<in> set ord. set (class_list q p')) = {}"
  proof -
    have "set (class_list q p) \<inter> set (class_list q p') = {}" if "p' \<in> set ord" for p'
    proof -
      have "p \<noteq> p'" using that Cons.prems by auto
      then show ?thesis by (rule classes_disjoint [OF assms(1)])
    qed
    then show ?thesis by blast
  qed
  then have "card (set (class_list q p) \<union> (\<Union>p' \<in> set ord. set (class_list q p'))) =
      length (class_list q p) + card (\<Union>p' \<in> set ord. set (class_list q p'))"
    using distinct_card [OF class_list_distinct [OF assms(1), of p]]
    by (subst card_Un_disjoint) auto
  then show ?case using Cons.IH Cons.prems by simp
qed simp

lemma members_keys: "key_order ord q \<Longrightarrow> members q = (\<Union>p \<in> set ord. set (class_list q p))"
  using class_list_dom [of _ q] unfolding members_def by blast

lemma waiting_sum:
  assumes "queue_ok q" "key_order ord q"
  shows "waiting q = int (sum_list (map (\<lambda>p. length (class_list q p)) ord))"
  using queue_okD(8) [OF assms(1)] members_keys [OF assms(2)] card_classes [OF assms(1), of ord] assms(2)
  by simp

text \<open>An order is complete when it accounts for every waiter, which can be computed.\<close>

definition order_check :: "int list \<Rightarrow> queue \<Rightarrow> bool" where
  "order_check ord q \<longleftrightarrow> distinct ord \<and> (\<forall>p \<in> set ord. class_list q p \<noteq> []) \<and>
     waiting q = int (sum_list (map (\<lambda>p. length (class_list q p)) ord))"

lemma order_check_key_order:
  assumes ok: "queue_ok q" and "order_check ord q"
  shows "key_order ord q"
proof -
  have d: "distinct ord" "\<forall>p \<in> set ord. class_list q p \<noteq> []" using assms(2) by (auto simp: order_check_def)
  let ?W = "\<Union>p \<in> set ord. set (class_list q p)"
  have "card ?W = card (members q)"
    using assms(2) queue_okD(8) [OF ok] card_classes [OF ok d(1)] by (simp add: order_check_def)
  moreover have "?W \<subseteq> members q" by (auto simp: members_def)
  ultimately have all: "?W = members q" using ok by (simp add: card_subset_eq)
  have "set ord \<subseteq> dom (classes q)"
    using d(2) by (force simp: class_list_def dom_def split: option.splits)
  moreover have "p \<in> set ord" if "p \<in> dom (classes q)" for p
  proof -
    have "hd (class_list q p) \<in> ?W" "priority (hd (class_list q p)) = p"
      using class_front_of_key [OF ok that] all by auto
    then show ?thesis using class_list_priority [OF ok] by fastforce
  qed
  ultimately show ?thesis using d(1) by auto
qed

section \<open>Stats\<close>

definition class_row :: "queue \<Rightarrow> instant \<Rightarrow> int \<Rightarrow> class_stat" where
  "class_row q now p = \<lparr>CS_Priority = p, CS_Waiting = int (length (class_list q p)),
     CS_OldestWait = time_sub now (since (hd (class_list q p)))\<rparr>"

lemma class_row_fields [simp]:
  "CS_Priority (class_row q now p) = p"
  "CS_Waiting (class_row q now p) = int (length (class_list q p))"
  "CS_OldestWait (class_row q now p) = time_sub now (since (hd (class_list q p)))"
  by (simp_all add: class_row_def)

lemma class_stats_Some:
  assumes "queue_ok q" "set ord \<subseteq> dom (classes q)"
  shows "class_stats q now ord = Some (map (class_row q now) ord)"
  using assms(2)
proof (induction ord)
  case (Cons p ord)
  then obtain l where l: "classes q p = Some l" by auto
  then have "l \<noteq> []" using class_okD [OF assms(1)] by (auto simp: class_ok_def)
  with l have "class_head q p = Some (hd (class_list q p))"
    by (cases l) simp_all
  with Cons show ?case by (simp add: class_list_def class_row_def)
qed simp

lemma foldl_max: "foldl (\<lambda>m c. max m (f c)) a xs = Max (insert a (f ` set xs))" for a :: int
proof (induction xs arbitrary: a)
  case (Cons x xs)
  have "Max (insert (max a (f x)) (f ` set xs)) = Max (insert a (insert (f x) (f ` set xs)))"
  proof (cases "f ` set xs = {}")
    case False
    then show ?thesis by (simp add: max.assoc)
  qed simp
  with Cons.IH show ?case by simp
qed simp

end
