(* ===== verification/QueueRun.thy ===== *)
theory QueueRun
  imports Queue
begin

text \<open>
  The queue at work (src/internal/queue/queue.go): the goroutines that call
  \<open>Acquire\<close> and the release it returns, as an interleaving of the queue's critical
  sections. A request is a position in \<open>phases\<close>, in the order of arrival, which is also its
  waiter's \<open>wid\<close>. Each step reads the clock, which never goes back, and iterates the class
  map in an order of its own choice.
\<close>

section \<open>Requests and steps\<close>

text \<open>A request is blocked in the \<open>select\<close> with its waiter queued or already granted, holds a
  slot, has called its release, or has returned the context's error. The flags of the two
  middle phases remember whether the slot was won by promotion.\<close>

datatype phase = Parked waiter | Granted waiter | Holding bool | Released bool | Abandoned

record sys =
  que :: queue
  phases :: "phase list"
  clock :: instant

datatype queue_event = Arrive int | Resume nat | Cancel nat | Finish nat

datatype outcome = Panic | Disabled | is_Next: Next (next_sys: sys) (next_pick: "waiter option")

fun close_ready :: "waiter option \<Rightarrow> phase list \<Rightarrow> phase list" where
  "close_ready None ps = ps"
| "close_ready (Some w) ps = ps[wid w := Granted w]"

definition settle :: "nat \<Rightarrow> phase \<Rightarrow> instant \<Rightarrow> (waiter option \<times> queue) option \<Rightarrow> sys \<Rightarrow> outcome" where
  "settle i ph now r s =
     (case r of
        None \<Rightarrow> Panic
      | Some (g, q) \<Rightarrow> Next \<lparr>que = q, phases = close_ready g ((phases s)[i := ph]), clock = now\<rparr> g)"

fun fire :: "int list \<Rightarrow> instant \<Rightarrow> queue_event \<Rightarrow> sys \<Rightarrow> outcome" where
  "fire ord now (Arrive p) s =
     (case Acquire_enter now (length (phases s)) p (que s) of
        (None, q) \<Rightarrow> Next \<lparr>que = q, phases = phases s @ [Holding False], clock = now\<rparr> None
      | (Some w, q) \<Rightarrow> Next \<lparr>que = q, phases = phases s @ [Parked w], clock = now\<rparr> None)"
| "fire ord now (Resume i) s =
     (if i < length (phases s)
      then case phases s ! i of
             Granted w \<Rightarrow> Next \<lparr>que = Acquire_ready w (que s),
                                phases = (phases s)[i := Holding (promoted w)], clock = now\<rparr> None
           | _ \<Rightarrow> Disabled
      else Disabled)"
| "fire ord now (Cancel i) s =
     (if i < length (phases s)
      then case phases s ! i of
             Parked w \<Rightarrow> settle i Abandoned now (Acquire_cancel ord now w (que s)) s
           | Granted w \<Rightarrow> settle i Abandoned now (Acquire_cancel ord now w (que s)) s
           | _ \<Rightarrow> Disabled
      else Disabled)"
| "fire ord now (Finish i) s =
     (if i < length (phases s)
      then case phases s ! i of
             Holding b \<Rightarrow> settle i (Released b) now (Release ord now False (que s)) s
           | Released b \<Rightarrow> settle i (Released b) now (Release ord now True (que s)) s
           | _ \<Rightarrow> Disabled
      else Disabled)"

inductive run :: "sys \<Rightarrow> (queue_event \<times> waiter option) list \<Rightarrow> sys \<Rightarrow> bool" where
  run_nil: "run s [] s"
| run_snoc: "run s es s1 \<Longrightarrow> clock s1 \<le> now \<Longrightarrow> key_order ord (que s1) \<Longrightarrow>
     fire ord now e s1 = Next s2 g \<Longrightarrow> run s (es @ [(e, g)]) s2"

definition start_sys :: "queue \<Rightarrow> instant \<Rightarrow> sys" where
  "start_sys q now = \<lparr>que = q, phases = [], clock = now\<rparr>"

definition reachable :: "int \<Rightarrow> duration \<Rightarrow> sys \<Rightarrow> bool" where
  "reachable cap after s \<longleftrightarrow>
     (\<exists>q now es. NewWithClock cap after = Inr q \<and> run (start_sys q now) es s)"

inductive_cases run_snocE: "run s (es @ [x]) s2"

section \<open>The invariant of the system\<close>

fun busy :: "phase \<Rightarrow> bool" where
  "busy (Granted w) = True"
| "busy (Holding b) = True"
| "busy _ = False"

fun parked :: "phase \<Rightarrow> bool" where
  "parked (Parked w) = True"
| "parked _ = False"

definition count_phase :: "(phase \<Rightarrow> bool) \<Rightarrow> sys \<Rightarrow> int" where
  "count_phase P s = int (length (filter P (phases s)))"

text \<open>\<open>tracked\<close>: the queued waiters \<open>W\<close> are exactly those of the parked requests.\<close>

fun at_index :: "nat \<Rightarrow> phase \<Rightarrow> bool" where
  "at_index i (Parked w) \<longleftrightarrow> wid w = i"
| "at_index i (Granted w) \<longleftrightarrow> wid w = i \<and> granted w"
| "at_index i _ \<longleftrightarrow> True"

definition tracked :: "waiter set \<Rightarrow> phase list \<Rightarrow> instant \<Rightarrow> bool" where
  "tracked W ps t \<longleftrightarrow> (\<forall>i < length ps. at_index i (ps ! i)) \<and>
     W = {w. Parked w \<in> set ps} \<and> (\<forall>w \<in> W. since w \<le> t)"

definition sys_ok :: "sys \<Rightarrow> bool" where
  "sys_ok s \<longleftrightarrow> queue_ok (que s) \<and> tracked (members (que s)) (phases s) (clock s) \<and>
     capacity (que s) = free (que s) + count_phase busy s"

lemma filter_update:
  "i < length xs \<Longrightarrow> int (length (filter P (xs[i := x]))) =
     int (length (filter P xs)) - (if P (xs ! i) then 1 else 0) + (if P x then 1 else 0)"
proof (induction xs arbitrary: i)
  case Nil
  then show ?case by simp
next
  case (Cons y ys)
  show ?case
  proof (cases i)
    case 0
    then show ?thesis by simp
  next
    case (Suc j)
    then show ?thesis using Cons.IH [of j] Cons.prems by (simp split: if_splits)
  qed
qed

lemma tracked_members:
  assumes "tracked W ps t"
  shows "w \<in> W \<longleftrightarrow> wid w < length ps \<and> ps ! wid w = Parked w"
proof -
  have "ps ! i = Parked w \<Longrightarrow> i < length ps \<Longrightarrow> wid w = i" for i
    using assms by (metis at_index.simps(1) tracked_def)
  then show ?thesis using assms by (auto simp: tracked_def in_set_conv_nth)
qed

lemma tracked_granted:
  "tracked W ps t \<Longrightarrow> i < length ps \<Longrightarrow> ps ! i = Granted w \<Longrightarrow> wid w = i \<and> granted w"
  unfolding tracked_def using at_index.simps(2) by metis

lemma tracked_since: "tracked W ps t \<Longrightarrow> w \<in> W \<Longrightarrow> t \<le> t' \<Longrightarrow> since w \<le> t'"
  unfolding tracked_def by fastforce

lemma tracked_append:
  assumes "tracked W ps t" "t \<le> t'" "at_index (length ps) ph" "\<And>w. ph = Parked w \<Longrightarrow> since w \<le> t'"
  shows "tracked ({w. ph = Parked w} \<union> W) (ps @ [ph]) t'"
proof -
  have "since w \<le> t'" if "w \<in> W" for w using tracked_since [OF assms(1) that assms(2)] .
  with assms show ?thesis by (auto simp: tracked_def nth_append less_Suc_eq)
qed

lemma tracked_update:
  assumes tr: "tracked W ps t" and i: "i < length ps" and "t \<le> t'" and ph: "at_index i ph" "\<not> parked ph"
  shows "tracked (W - {w. ps ! i = Parked w}) (ps[i := ph]) t'"
proof -
  have new: "Parked w \<in> set (ps[i := ph]) \<longleftrightarrow> Parked w \<in> set ps \<and> ps ! i \<noteq> Parked w" for w
  proof -
    have at: "wid w = j" if "ps ! j = Parked w" "j < length ps" for j
      using that tr by (metis at_index.simps(1) tracked_def)
    have "ph \<noteq> Parked w" using ph(2) by auto
    then show ?thesis using at i
      by (metis in_set_conv_nth length_list_update nth_list_update_eq nth_list_update_neq)
  qed
  have "\<forall>j < length (ps[i := ph]). at_index j (ps[i := ph] ! j)"
    using tr ph(1) i unfolding tracked_def
    by (metis length_list_update nth_list_update_eq nth_list_update_neq)
  moreover have "since w \<le> t'" if "w \<in> W" for w using tracked_since [OF tr that assms(3)] .
  ultimately show ?thesis using tr new unfolding tracked_def by auto
qed

lemma sys_okD:
  assumes "sys_ok s"
  shows "queue_ok (que s)" "tracked (members (que s)) (phases s) (clock s)"
    "capacity (que s) = free (que s) + count_phase busy s"
  using assms unfolding sys_ok_def by blast+

lemma start_ok:
  assumes "NewWithClock cap after = Inr q" "after \<le> max_i64"
  shows "sys_ok (start_sys q now)"
proof -
  have "members q = {}" using assms(1)
    by (auto simp: NewWithClock_def members_def class_list_def split: if_splits)
  moreover have "queue_ok q" using assms calculation
    by (auto simp: NewWithClock_def queue_ok_def split: if_splits)
  moreover have "capacity q = free q" using assms(1)
    by (auto simp: NewWithClock_def split: if_splits)
  ultimately show ?thesis by (simp add: sys_ok_def start_sys_def count_phase_def tracked_def)
qed

section \<open>Every step keeps it\<close>

lemma enter_cases:
  assumes "queue_ok q"
  obtains (slot) "members q = {}" "0 < free q"
      "Acquire_enter now i p q =
         (None, notifyLocked (q\<lparr>free := free q - 1, admitted_count := u64 (admitted_count q + 1)\<rparr>))"
  | (park) w where "free q = 0"
      "w = \<lparr>wid = i, priority = p, since = now, granted = False, promoted = False\<rparr>"
      "Acquire_enter now i p q = (Some w, notifyLocked (pushLocked w q))"
proof (cases "0 < free q")
  case True
  with queue_okD(9) [OF assms] have "members q = {}" .
  with True queue_okD(8) [OF assms] show ?thesis by (intro slot) (simp_all add: Acquire_enter_def)
next
  case False
  with queue_okD(2) [OF assms] show ?thesis by (intro park) (simp_all add: Acquire_enter_def Let_def)
qed

lemma count_append: "count_phase P \<lparr>que = q, phases = ps @ [ph], clock = t\<rparr> =
    count_phase P \<lparr>que = q', phases = ps, clock = t'\<rparr> + (if P ph then 1 else 0)"
  by (simp add: count_phase_def)

lemma arrive_ok:
  assumes "sys_ok s" "clock s \<le> now" "fire ord now (Arrive p) s = Next s' g"
  shows "sys_ok s'"
  using sys_okD(1) [OF assms(1)]
proof (cases rule: enter_cases [of "que s" now "length (phases s)" p])
  case slot
  let ?q = "notifyLocked ((que s)\<lparr>free := free (que s) - 1, admitted_count := u64 (admitted_count (que s) + 1)\<rparr>)"
  have s': "s' = \<lparr>que = ?q, phases = phases s @ [Holding False], clock = now\<rparr>"
    using slot(3) assms(3) by simp
  have "queue_ok ?q"
    using queue_ok_free [OF sys_okD(1) [OF assms(1)] slot(1), of "free (que s) - 1"] slot(2)
      queue_okD(3) [OF sys_okD(1) [OF assms(1)]] by simp
  moreover have "tracked (members ?q) (phases s @ [Holding False]) now"
    using tracked_append [OF sys_okD(2) [OF assms(1)] assms(2), of "Holding False"]
    by (simp add: members_update)
  ultimately show ?thesis
    using sys_okD(3) [OF assms(1)] by (simp add: s' sys_ok_def count_phase_def)
next
  case (park w)
  have s': "s' = \<lparr>que = notifyLocked (pushLocked w (que s)), phases = phases s @ [Parked w], clock = now\<rparr>"
    using park(3) assms(3) by simp
  have w: "wid w = length (phases s)" "since w = now" "\<not> granted w" using park(2) by simp_all
  have "arrived_before v w" if "v \<in> members (que s)" for v
    using tracked_members [OF sys_okD(2) [OF assms(1)], of v]
      tracked_since [OF sys_okD(2) [OF assms(1)] that assms(2)] w that by simp
  then have "queue_ok (pushLocked w (que s))"
    using queue_ok_push [OF sys_okD(1) [OF assms(1)] w(3) _ park(1)] by blast
  moreover have "{v. Parked w = Parked v} = {w}" by auto
  then have "tracked (insert w (members (que s))) (phases s @ [Parked w]) now"
    using tracked_append [OF sys_okD(2) [OF assms(1)] assms(2), of "Parked w"] w by simp
  ultimately show ?thesis
    using sys_okD(3) [OF assms(1)] by (simp add: s' sys_ok_def count_phase_def members_push)
qed

text \<open>A slot is given back by a request \<open>i\<close> that occupied it; the request leaves for \<open>ph\<close>.\<close>

lemma handoff_ok:
  assumes ok: "sys_ok s" and "clock s \<le> now" and ord: "key_order ord (que s)"
    and i: "i < length (phases s)" "busy (phases s ! i)" "at_index i ph" "\<not> busy ph" "\<not> parked ph"
    and rel: "releaseLocked ord now (que s) = Some (g, q)"
  shows "sys_ok \<lparr>que = q, phases = close_ready g ((phases s)[i := ph]), clock = now\<rparr>"
proof -
  let ?ps = "(phases s)[i := ph]"
  have "\<not> parked (phases s ! i)" using i(2) by (cases "phases s ! i") auto
  then have "{w. phases s ! i = Parked w} = {}" by auto
  then have tr: "tracked (members (que s)) ?ps now"
    using tracked_update [OF sys_okD(2) [OF ok] i(1) assms(2) i(3,5)] by simp
  have cap: "capacity (que s) = free (que s) + 1 + int (length (filter busy ?ps))"
    using sys_okD(3) [OF ok] i filter_update [of i "phases s" busy ph] by (simp add: count_phase_def)
  show ?thesis
    using sys_okD(1) [OF ok] ord
  proof (cases rule: releaseLocked_cases [of _ ord now])
    case idle
    then have gq: "g = None" "q = notifyLocked ((que s)\<lparr>free := free (que s) + 1\<rparr>)" using rel by auto
    have "queue_ok ((que s)\<lparr>free := free (que s) + 1\<rparr>)"
      using sys_okD(1) [OF ok] idle(1) cap queue_okD(2) [OF sys_okD(1) [OF ok]]
      by (intro queue_ok_free) auto
    with tr cap show ?thesis by (simp add: gq sys_ok_def count_phase_def members_update)
  next
    case (grant w p)
    let ?w = "w\<lparr>granted := True, promoted := p\<rparr>"
    have gq: "g = Some ?w" "q = notifyLocked (removeLocked w ((que s)\<lparr>justPromoted := p\<rparr>))"
      using rel grant(3) by auto
    have mem: "w \<in> members ((que s)\<lparr>justPromoted := p\<rparr>)" "queue_ok ((que s)\<lparr>justPromoted := p\<rparr>)"
      using grant(1) sys_okD(1) [OF ok] by (simp_all add: members_update)
    have at: "wid w < length ?ps" "?ps ! wid w = Parked w"
      using tracked_members [OF tr] grant(1) by simp_all
    have "{v. ?ps ! wid w = Parked v} = {w}" using at(2) by auto
    then have "tracked (members (que s) - {w}) (?ps[wid w := Granted ?w]) now"
      using tracked_update [OF tr at(1) order_refl, of "Granted ?w"] by simp
    moreover have "int (length (filter busy (?ps[wid w := Granted ?w]))) = int (length (filter busy ?ps)) + 1"
      using filter_update [OF at(1), of busy "Granted ?w"] at(2) by simp
    ultimately show ?thesis
      using queue_ok_remove [OF mem(2,1)] members_remove [OF mem(2,1)] cap
      by (simp add: gq sys_ok_def count_phase_def members_update)
  qed
qed

text \<open>The ways a step can go: a request takes a free slot, parks, resumes on its grant, gives
  up while queued, gives its slot back, or calls its release again.\<close>

lemma fire_cases:
  assumes "fire ord now e s = Next s' g"
  obtains (arrive) p where "e = Arrive p"
  | (resume) i w where "e = Resume i" "i < length (phases s)" "phases s ! i = Granted w" "g = None"
      "s' = \<lparr>que = Acquire_ready w (que s), phases = (phases s)[i := Holding (promoted w)], clock = now\<rparr>"
  | (quit) i w where "e = Cancel i" "i < length (phases s)" "phases s ! i = Parked w"
      "Acquire_cancel ord now w (que s) = Some (g, que s')"
      "s' = \<lparr>que = que s', phases = close_ready g ((phases s)[i := Abandoned]), clock = now\<rparr>"
  | (raced) i w where "e = Cancel i" "i < length (phases s)" "phases s ! i = Granted w"
      "Acquire_cancel ord now w (que s) = Some (g, que s')"
      "s' = \<lparr>que = que s', phases = close_ready g ((phases s)[i := Abandoned]), clock = now\<rparr>"
  | (finish) i b where "e = Finish i" "i < length (phases s)" "phases s ! i = Holding b"
      "releaseLocked ord now (que s) = Some (g, que s')"
      "s' = \<lparr>que = que s', phases = close_ready g ((phases s)[i := Released b]), clock = now\<rparr>"
  | (again) i b where "e = Finish i" "i < length (phases s)" "phases s ! i = Released b" "g = None"
      "s' = s\<lparr>clock := now\<rparr>"
proof (cases e)
  case (Arrive p)
  then show ?thesis by (rule arrive)
next
  case (Resume i)
  with assms show ?thesis by (cases "phases s ! i") (auto intro: resume split: if_splits)
next
  case (Cancel i)
  with assms show ?thesis
    by (cases "phases s ! i")
      (auto simp: settle_def intro: quit raced split: if_splits option.splits)
next
  case (Finish i)
  with assms list_update_id [of "phases s" i] show ?thesis
    by (cases "phases s ! i")
      (auto simp: settle_def Release_def intro: finish again split: if_splits option.splits)
qed

lemma sys_ok_cong:
  "sys_ok s \<Longrightarrow> queue_ok (que s') = queue_ok (que s) \<Longrightarrow> members (que s') = members (que s) \<Longrightarrow>
   capacity (que s') = capacity (que s) \<Longrightarrow> free (que s') = free (que s) \<Longrightarrow>
   phases s' = phases s \<Longrightarrow> clock s' = clock s \<Longrightarrow> sys_ok s'"
  by (simp add: sys_ok_def count_phase_def)

lemma fire_ok:
  assumes ok: "sys_ok s" and now: "clock s \<le> now" and ord: "key_order ord (que s)"
    and step: "fire ord now e s = Next s' g"
  shows "sys_ok s'"
  using step
proof (cases rule: fire_cases)
  case (arrive p)
  then show ?thesis using arrive_ok [OF ok now] step by simp
next
  case (resume i w)
  have "\<not> parked (phases s ! i)" "{v. phases s ! i = Parked v} = {}" using resume(3) by auto
  then have "tracked (members (que s)) ((phases s)[i := Holding (promoted w)]) now"
    using tracked_update [OF sys_okD(2) [OF ok] resume(2) now, of "Holding (promoted w)"] by simp
  then show ?thesis
    using ok filter_update [OF resume(2), of busy "Holding (promoted w)"] resume(3)
    by (cases "promoted w")
      (simp_all add: resume(5) sys_ok_def count_phase_def Acquire_ready_def Let_def members_update)
next
  case (quit i w)
  have w: "w \<in> members (que s)" "\<not> granted w"
    using tracked_members [OF sys_okD(2) [OF ok]] sys_okD(2) [OF ok] quit(2,3)
      member_fields [OF sys_okD(1) [OF ok]] by (auto simp: tracked_def in_set_conv_nth)
  then have gq: "g = None" "que s' = notifyLocked ((removeLocked w (que s))
      \<lparr>cancelled_count := u64 (cancelled_count (que s) + 1)\<rparr>)"
    using quit(4) by (auto simp: Acquire_cancel_def Let_def)
  have "{v. phases s ! i = Parked v} = {w}" using quit(3) by auto
  then have "tracked (members (que s) - {w}) ((phases s)[i := Abandoned]) now"
    using tracked_update [OF sys_okD(2) [OF ok] quit(2) now, of Abandoned] by simp
  then show ?thesis
    using sys_okD [OF ok] filter_update [OF quit(2), of busy Abandoned] quit(3) w(1)
      queue_ok_remove [OF sys_okD(1) [OF ok] w(1)] members_remove [OF sys_okD(1) [OF ok] w(1)]
    by (subst quit(5), simp add: gq sys_ok_def count_phase_def members_update)
next
  case (raced i w)
  have "granted w" using tracked_granted [OF sys_okD(2) [OF ok] raced(2,3)] by simp
  then obtain q where q: "releaseLocked ord now (que s) = Some (g, q)"
    "que s' = q\<lparr>cancelled_count := u64 (cancelled_count q + 1)\<rparr>"
    using raced(4) by (cases "releaseLocked ord now (que s)") (auto simp: Acquire_cancel_def)
  have "sys_ok \<lparr>que = q, phases = close_ready g ((phases s)[i := Abandoned]), clock = now\<rparr>"
    using handoff_ok [OF ok now ord raced(2) _ _ _ _ q(1)] raced(3) by simp
  then show ?thesis
    by (rule sys_ok_cong) (subst raced(5), simp add: q(2) members_update)+
next
  case (finish i b)
  then show ?thesis using handoff_ok [OF ok now ord finish(2), of "Released b" g "que s'"] by simp
next
  case (again i b)
  with ok now show ?thesis
    by (fastforce simp: sys_ok_def count_phase_def tracked_def)
qed

lemma fire_no_panic:
  assumes ok: "sys_ok s" and ord: "key_order ord (que s)"
  shows "fire ord now e s \<noteq> Panic"
proof -
  have "releaseLocked ord now (que s) \<noteq> None"
    using releaseLocked_cases [OF sys_okD(1) [OF ok] ord, of now] by fastforce
  then show ?thesis
    by (cases e) (auto simp: settle_def Acquire_cancel_def Release_def Let_def
        split: option.splits phase.splits prod.splits)
qed

lemma run_ok: "run s es s' \<Longrightarrow> sys_ok s \<Longrightarrow> sys_ok s'"
  by (induction rule: run.induct) (auto intro: fire_ok)

lemma reachable_ok: "reachable cap after s \<Longrightarrow> after \<le> max_i64 \<Longrightarrow> sys_ok s"
  unfolding reachable_def using start_ok run_ok by blast

section \<open>What a step does to the waiters\<close>

text \<open>Seen from the waiters, a step picks one, or lets some walk away, or adds the newest.\<close>

lemma release_members:
  assumes "queue_ok q" "key_order ord q" "releaseLocked ord now q = Some (g, q')"
  shows "capacity q' = capacity q \<and> promoteAfter q' = promoteAfter q \<and>
    (case g of
       None \<Rightarrow> members q = {} \<and> members q' = {} \<and> justPromoted q' = justPromoted q
     | Some w' \<Rightarrow> \<exists>w \<in> members q. w' = w\<lparr>granted := True, promoted := promoted w'\<rparr> \<and>
         pick_ok (promoteAfter q) now (justPromoted q) (members q) w (promoted w') \<and>
         members q' = members q - {w} \<and> justPromoted q' = promoted w')"
  using assms(1,2)
proof (cases rule: releaseLocked_cases [of _ ord now])
  case idle
  with assms(3) show ?thesis by (auto simp: members_update)
next
  case (grant w p)
  have "members (removeLocked w (q\<lparr>justPromoted := p\<rparr>)) = members q - {w}"
    using members_remove [of "q\<lparr>justPromoted := p\<rparr>" w] assms(1) grant(1) by (simp add: members_update)
  with grant assms(3) show ?thesis by (auto intro!: bexI [of _ w])
qed

lemma fire_members:
  assumes ok: "sys_ok s" and now: "clock s \<le> now" and ord: "key_order ord (que s)"
    and step: "fire ord now e s = Next s' g"
  shows "capacity (que s') = capacity (que s) \<and> promoteAfter (que s') = promoteAfter (que s) \<and>
    clock s' = now \<and> length (phases s) \<le> length (phases s') \<and>
    (case g of
       None \<Rightarrow> justPromoted (que s') = justPromoted (que s) \<and>
         (\<forall>v \<in> members (que s'). v \<in> members (que s) \<or>
            e = Arrive (priority v) \<and> since v = now \<and> wid v = length (phases s))
     | Some w' \<Rightarrow> \<exists>w \<in> members (que s). w' = w\<lparr>granted := True, promoted := promoted w'\<rparr> \<and>
         pick_ok (promoteAfter (que s)) now (justPromoted (que s)) (members (que s)) w (promoted w') \<and>
         members (que s') = members (que s) - {w} \<and> justPromoted (que s') = promoted w')"
  using step
proof (cases rule: fire_cases)
  case (arrive p)
  show ?thesis using sys_okD(1) [OF ok]
  proof (cases rule: enter_cases [of "que s" now "length (phases s)" p])
    case slot
    then show ?thesis using step arrive by (auto simp: members_update)
  next
    case (park w)
    then show ?thesis using step arrive by (auto simp: members_push)
  qed
next
  case (resume i w)
  then show ?thesis by (simp add: Acquire_ready_def Let_def members_update)
next
  case (quit i w)
  have w: "w \<in> members (que s)" "\<not> granted w"
    using tracked_members [OF sys_okD(2) [OF ok]] sys_okD(2) [OF ok] quit(2,3)
      member_fields [OF sys_okD(1) [OF ok]] by (auto simp: tracked_def in_set_conv_nth)
  then have "g = None" "que s' = notifyLocked ((removeLocked w (que s))
      \<lparr>cancelled_count := u64 (cancelled_count (que s) + 1)\<rparr>)"
    using quit(4) by (auto simp: Acquire_cancel_def Let_def)
  moreover have "clock s' = now" "length (phases s') = length (phases s)"
    using calculation(1) by (subst quit(5), simp)+
  ultimately show ?thesis
    using members_remove [OF sys_okD(1) [OF ok] w(1)] by (simp add: members_update)
next
  case (raced i w)
  have "granted w" using tracked_granted [OF sys_okD(2) [OF ok] raced(2,3)] by simp
  then obtain q where q: "releaseLocked ord now (que s) = Some (g, q)"
    "que s' = q\<lparr>cancelled_count := u64 (cancelled_count q + 1)\<rparr>"
    using raced(4) by (cases "releaseLocked ord now (que s)") (auto simp: Acquire_cancel_def)
  have "clock s' = now" "length (phases s') = length (phases s)"
    by (subst raced(5), cases g; simp)+
  with release_members [OF sys_okD(1) [OF ok] ord q(1)] show ?thesis
    by (cases g) (auto simp: q(2) members_update)
next
  case (finish i b)
  have "clock s' = now" "length (phases s') = length (phases s)"
    by (subst finish(5), cases g; simp)+
  with release_members [OF sys_okD(1) [OF ok] ord finish(4)] show ?thesis
    by (cases g) auto
next
  case (again i b)
  then show ?thesis by simp
qed

lemma run_config: "run s es s' \<Longrightarrow> sys_ok s \<Longrightarrow>
    capacity (que s') = capacity (que s) \<and> promoteAfter (que s') = promoteAfter (que s)"
proof (induction rule: run.induct)
  case (run_snoc s es s1 now ord e s2 g)
  then show ?case using fire_members [OF run_ok [OF run_snoc(1,6)] run_snoc(2-4)] by simp
qed simp

lemma reachable_capacity:
  assumes "reachable cap after s" "after \<le> max_i64"
  shows "capacity (que s) = cap" "promoteAfter (que s) = after"
proof -
  obtain q now es where q: "NewWithClock cap after = Inr q" "run (start_sys q now) es s"
    using assms(1) by (auto simp: reachable_def)
  then show "capacity (que s) = cap" "promoteAfter (que s) = after"
    using run_config [OF q(2) start_ok [OF q(1) assms(2)]]
    by (auto simp: start_sys_def NewWithClock_def split: if_splits)
qed

section \<open>Bounded waiting\<close>

text \<open>How many more picks can pass a waiter by: an aged one only by those that arrived no
  later, each of which may be separated by one pick by rank; the first in rank only by one
  promotion, and any other by one promotion per waiter ahead of it and one more.\<close>

definition aged_bound :: "sys \<Rightarrow> waiter \<Rightarrow> nat" where
  "aged_bound s w = 2 * card {v \<in> members (que s). v \<noteq> w \<and> since v \<le> since w} +
     (if justPromoted (que s) then 1 else 0)"

definition rank_bound :: "sys \<Rightarrow> waiter \<Rightarrow> nat" where
  "rank_bound s w = 2 * card {v \<in> members (que s). precedes v w} +
     (if justPromoted (que s) then 0 else 1)"

definition picks :: "(queue_event \<times> waiter option) list \<Rightarrow> waiter list" where
  "picks es = List.map_filter snd es"

lemma picks_simps [simp]:
  "picks [] = []" "picks (es @ es') = picks es @ picks es'"
  "picks [(e, None)] = []" "picks [(e, Some w)] = [w]"
  by (simp_all add: picks_def List.map_filter_def)

lemma card_le_filter:
  "finite W \<Longrightarrow> W' \<subseteq> W \<Longrightarrow> card {v \<in> W'. P v} \<le> card {v \<in> W. P v}"
  by (rule card_mono) auto

lemma card_less_filter:
  assumes "finite W" "x \<in> W" "P x"
  shows "Suc (card {v \<in> W - {x}. P v}) \<le> card {v \<in> W. P v}"
proof -
  have "{v \<in> W. P v} = insert x {v \<in> W - {x}. P v}" using assms by auto
  with assms show ?thesis by (simp add: card_insert_disjoint)
qed

lemma aged_step:
  assumes ok: "sys_ok s" and now: "clock s \<le> now" and ord: "key_order ord (que s)"
    and step: "fire ord now e s = Next s' g"
    and w: "w \<in> members (que s)" "w \<in> members (que s')" "aged (promoteAfter (que s)) (clock s) w"
  shows "aged_bound s' w + length (picks [(e, g)]) \<le> aged_bound s w"
proof -
  note fin = finite_members [OF sys_okD(1) [OF ok]]
  have old: "since w < now" "aged (promoteAfter (que s)) now w"
    using w(3) now queue_okD(4) [OF sys_okD(1) [OF ok]] by (auto simp: aged_def)
  show ?thesis
  proof (cases g)
    case None
    have "{v \<in> members (que s'). v \<noteq> w \<and> since v \<le> since w} \<subseteq>
        {v \<in> members (que s). v \<noteq> w \<and> since v \<le> since w}"
      using fire_members [OF ok now ord step] None old(1) by fastforce
    then have "card {v \<in> members (que s'). v \<noteq> w \<and> since v \<le> since w} \<le>
        card {v \<in> members (que s). v \<noteq> w \<and> since v \<le> since w}"
      using fin by (intro card_mono) auto
    then show ?thesis
      using fire_members [OF ok now ord step] None by (auto simp: aged_bound_def)
  next
    case (Some w')
    then obtain x where x: "x \<in> members (que s)"
      "pick_ok (promoteAfter (que s)) now (justPromoted (que s)) (members (que s)) x (promoted w')"
      "members (que s') = members (que s) - {x}" "justPromoted (que s') = promoted w'"
      using fire_members [OF ok now ord step] by auto
    let ?P = "\<lambda>v. v \<noteq> w \<and> since v \<le> since w"
    have neq: "x \<noteq> w" using x(3) w(2) by auto
    have le: "card {v \<in> members (que s'). ?P v} \<le> card {v \<in> members (que s). ?P v}"
      using fin x(3) by (intro card_le_filter) auto
    show ?thesis
    proof (cases "justPromoted (que s)")
      case True
      then have "\<not> promoted w'" using x(2) by (simp add: pick_ok_def split: if_splits)
      with True x(4) le show ?thesis by (simp add: aged_bound_def Some)
    next
      case False
      then have "since x \<le> since w" using x(2) w(1) old(2) by (auto simp: pick_ok_def split: if_splits)
      with card_less_filter [OF fin x(1), of ?P] neq x(3,4) False show ?thesis
        by (simp add: aged_bound_def Some)
    qed
  qed
qed

lemma rank_step:
  assumes ok: "sys_ok s" and now: "clock s \<le> now" and ord: "key_order ord (que s)"
    and step: "fire ord now e s = Next s' g"
    and w: "w \<in> members (que s)" "w \<in> members (que s')" "\<And>p. e = Arrive p \<Longrightarrow> p \<le> priority w"
  shows "rank_bound s' w + length (picks [(e, g)]) \<le> rank_bound s w"
proof -
  note fin = finite_members [OF sys_okD(1) [OF ok]]
  have wid: "wid w < length (phases s)" using tracked_members [OF sys_okD(2) [OF ok]] w(1) by simp
  show ?thesis
  proof (cases g)
    case None
    have "{v \<in> members (que s'). precedes v w} \<subseteq> {v \<in> members (que s). precedes v w}"
    proof
      fix v assume v: "v \<in> {v \<in> members (que s'). precedes v w}"
      then have "v \<in> members (que s) \<or> e = Arrive (priority v) \<and> wid v = length (phases s)"
        using fire_members [OF ok now ord step] None by auto
      with v w(3) wid show "v \<in> {v \<in> members (que s). precedes v w}"
        by (force simp: precedes_def)
    qed
    then have "card {v \<in> members (que s'). precedes v w} \<le> card {v \<in> members (que s). precedes v w}"
      using fin by (intro card_mono) auto
    then show ?thesis
      using fire_members [OF ok now ord step] None by (auto simp: rank_bound_def)
  next
    case (Some w')
    then obtain x where x: "x \<in> members (que s)"
      "pick_ok (promoteAfter (que s)) now (justPromoted (que s)) (members (que s)) x (promoted w')"
      "members (que s') = members (que s) - {x}" "justPromoted (que s') = promoted w'"
      using fire_members [OF ok now ord step] by auto
    have neq: "x \<noteq> w" using x(3) w(2) by auto
    have le: "card {v \<in> members (que s'). precedes v w} \<le> card {v \<in> members (que s). precedes v w}"
      using fin x(3) by (intro card_le_filter) auto
    show ?thesis
    proof (cases "promoted w'")
      case True
      with x(2,4) le show ?thesis by (simp add: rank_bound_def pick_ok_def Some)
    next
      case False
      then have "precedes x w" using x(2) w(1) neq by (auto simp: pick_ok_def first_in_rank_def)
      with card_less_filter [OF fin x(1), of "\<lambda>v. precedes v w"] x(3,4) False show ?thesis
        by (simp add: rank_bound_def Some)
    qed
  qed
qed

text \<open>A waiter that has left never comes back.\<close>

lemma run_member_back:
  assumes "run s es s'" "sys_ok s" "wid w < length (phases s)"
  shows "length (phases s) \<le> length (phases s') \<and> (w \<in> members (que s') \<longrightarrow> w \<in> members (que s))"
  using assms
proof (induction rule: run.induct)
  case (run_snoc s es s1 now ord e s2 g)
  have "length (phases s1) \<le> length (phases s2)"
    "w \<in> members (que s2) \<Longrightarrow> wid w < length (phases s1) \<Longrightarrow> w \<in> members (que s1)"
    using fire_members [OF run_ok [OF run_snoc(1,6)] run_snoc(2-4)]
    by (auto split: option.splits)
  with run_snoc.IH [OF run_snoc(6,7)] run_snoc(7) show ?case by force
qed simp

lemma run_clock: "run s es s' \<Longrightarrow> sys_ok s \<Longrightarrow> clock s \<le> clock s'"
proof (induction rule: run.induct)
  case (run_snoc s es s1 now ord e s2 g)
  then show ?case using fire_members [OF run_ok [OF run_snoc(1,6)] run_snoc(2-4)] by simp
qed simp

lemma run_aged:
  assumes "run s es s'" "sys_ok s" "w \<in> members (que s)" "aged (promoteAfter (que s)) (clock s) w"
    and "w \<in> members (que s')"
  shows "aged_bound s' w + length (picks es) \<le> aged_bound s w"
  using assms
proof (induction rule: run.induct)
  case (run_snoc s es s1 now ord e s2 g)
  have ok: "sys_ok s1" by (rule run_ok [OF run_snoc(1,6)])
  have len: "wid w < length (phases s1)"
    using run_member_back [OF run_snoc(1,6), of w] tracked_members [OF sys_okD(2) [OF run_snoc(6)]]
      run_snoc(7) by auto
  have mem: "w \<in> members (que s1)"
    using fire_members [OF ok run_snoc(2-4)] run_snoc(9) len by (auto split: option.splits)
  have "aged (promoteAfter (que s1)) (clock s1) w"
    using run_snoc(8) run_clock [OF run_snoc(1,6)] run_config [OF run_snoc(1,6)]
    by (simp add: aged_def)
  then show ?case
    using aged_step [OF ok run_snoc(2-4) mem run_snoc(9)] run_snoc.IH [OF run_snoc(6-8) mem] by simp
qed simp

lemma run_rank:
  assumes "run s es s'" "sys_ok s" "w \<in> members (que s)" "w \<in> members (que s')"
    and "\<And>p g. (Arrive p, g) \<in> set es \<Longrightarrow> p \<le> priority w"
  shows "rank_bound s' w + length (picks es) \<le> rank_bound s w"
  using assms
proof (induction rule: run.induct)
  case (run_snoc s es s1 now ord e s2 g)
  have ok: "sys_ok s1" by (rule run_ok [OF run_snoc(1,6)])
  have len: "wid w < length (phases s1)"
    using run_member_back [OF run_snoc(1,6), of w] tracked_members [OF sys_okD(2) [OF run_snoc(6)]]
      run_snoc(7) by auto
  have mem: "w \<in> members (que s1)"
    using fire_members [OF ok run_snoc(2-4)] run_snoc(8) len by (auto split: option.splits)
  have "rank_bound s2 w + length (picks [(e, g)]) \<le> rank_bound s1 w"
    using rank_step [OF ok run_snoc(2-4) mem run_snoc(8)] run_snoc(9) by auto
  moreover have "rank_bound s1 w + length (picks es) \<le> rank_bound s w"
    using run_snoc.IH [OF run_snoc(6,7) mem] run_snoc(9) by auto
  ultimately show ?case by simp
qed simp

text \<open>A promotion is never followed by a promotion.\<close>

lemma run_alternates:
  assumes "run s es s'" "sys_ok s"
  shows "successively (\<lambda>a b. \<not> (a \<and> b)) (map promoted (picks es)) \<and>
    (picks es \<noteq> [] \<longrightarrow> justPromoted (que s') = promoted (last (picks es))) \<and>
    (picks es = [] \<longrightarrow> justPromoted (que s') = justPromoted (que s))"
  using assms
proof (induction rule: run.induct)
  case (run_snoc s es s1 now ord e s2 g)
  note m = fire_members [OF run_ok [OF run_snoc(1,6)] run_snoc(2-4)]
  show ?case
  proof (cases g)
    case None
    with m run_snoc.IH [OF run_snoc(6)] show ?thesis by simp
  next
    case (Some w)
    with m have "justPromoted (que s2) = promoted w" "promoted w \<Longrightarrow> \<not> justPromoted (que s1)"
      by (auto simp: pick_ok_def split: if_splits)
    with Some run_snoc.IH [OF run_snoc(6)] show ?thesis
      by (auto simp: successively_append_iff last_map)
  qed
qed simp

section \<open>Accounting\<close>

fun entered :: "phase \<Rightarrow> bool" where
  "entered (Holding b) = True"
| "entered (Released b) = True"
| "entered _ = False"

fun by_promotion :: "phase \<Rightarrow> bool" where
  "by_promotion (Holding b) = b"
| "by_promotion (Released b) = b"
| "by_promotion _ = False"

definition counted :: "sys \<Rightarrow> bool" where
  "counted s \<longleftrightarrow>
     admitted_count (que s) = u64 (count_phase entered s) \<and>
     promoted_count (que s) = u64 (count_phase by_promotion s) \<and>
     cancelled_count (que s) = u64 (count_phase (\<lambda>ph. ph = Abandoned) s)"

lemma release_counters:
  assumes "queue_ok q" "key_order ord q" "releaseLocked ord now q = Some (g, q')"
  shows "admitted_count q' = admitted_count q \<and> promoted_count q' = promoted_count q \<and>
    cancelled_count q' = cancelled_count q \<and>
    (\<forall>w'. g = Some w' \<longrightarrow> (\<exists>w \<in> members q. wid w' = wid w))"
  using assms(1,2)
proof (cases rule: releaseLocked_cases [of _ ord now])
  case idle
  with assms(3) show ?thesis by auto
next
  case (grant w p)
  with assms(3) show ?thesis by (auto intro!: bexI [of _ w])
qed

text \<open>Closing the \<open>ready\<close> channel of a queued waiter moves no request that is counted.\<close>

lemma count_settle:
  assumes ok: "sys_ok s" and i: "i < length (phases s)" "\<not> parked (phases s ! i)"
    and g: "\<And>w'. g = Some w' \<Longrightarrow> \<exists>w \<in> members (que s). wid w' = wid w"
    and P: "\<And>w. \<not> P (Parked w)" "\<And>w. \<not> P (Granted w)"
  shows "int (length (filter P (close_ready g ((phases s)[i := ph])))) =
    count_phase P s - (if P (phases s ! i) then 1 else 0) + (if P ph then 1 else 0)"
proof (cases g)
  case None
  then show ?thesis using filter_update [OF i(1), of P ph] by (simp add: count_phase_def)
next
  case (Some w')
  then obtain w where w: "w \<in> members (que s)" "wid w' = wid w" using g by auto
  have at: "wid w < length (phases s)" "phases s ! wid w = Parked w"
    using tracked_members [OF sys_okD(2) [OF ok]] w(1) by simp_all
  then have "wid w \<noteq> i" using i(2) by auto
  then have "length (filter P ((phases s)[i := ph, wid w := Granted w'])) = length (filter P ((phases s)[i := ph]))"
    using filter_update [of "wid w" "(phases s)[i := ph]" P "Granted w'"] at P by simp
  then show ?thesis
    using Some w(2) filter_update [OF i(1), of P ph] by (simp add: count_phase_def)
qed

lemma fire_counted:
  assumes ok: "sys_ok s" and ord: "key_order ord (que s)" and c: "counted s"
    and step: "fire ord now e s = Next s' g"
  shows "counted s'"
  using step
proof (cases rule: fire_cases)
  case (arrive p)
  show ?thesis using sys_okD(1) [OF ok]
  proof (cases rule: enter_cases [of "que s" now "length (phases s)" p])
    case slot
    then show ?thesis using step arrive c by (auto simp: counted_def count_phase_def u64_add)
        (simp add: add.commute)
  next
    case (park w)
    then show ?thesis using step arrive c by (auto simp: counted_def count_phase_def)
  qed
next
  case (resume i w)
  then show ?thesis
    using c filter_update [OF resume(2), of entered "Holding (promoted w)"]
      filter_update [OF resume(2), of by_promotion "Holding (promoted w)"]
      filter_update [OF resume(2), of "\<lambda>ph. ph = Abandoned" "Holding (promoted w)"]
    by (auto simp: counted_def count_phase_def Acquire_ready_def Let_def u64_add)
next
  case (quit i w)
  have w: "w \<in> members (que s)" "\<not> granted w"
    using tracked_members [OF sys_okD(2) [OF ok]] sys_okD(2) [OF ok] quit(2,3)
      member_fields [OF sys_okD(1) [OF ok]] by (auto simp: tracked_def in_set_conv_nth)
  then have gq: "g = None" "que s' = notifyLocked ((removeLocked w (que s))
      \<lparr>cancelled_count := u64 (cancelled_count (que s) + 1)\<rparr>)"
    using quit(4) by (auto simp: Acquire_cancel_def Let_def)
  have "phases s' = (phases s)[i := Abandoned]" using gq(1) by (subst quit(5)) simp
  then show ?thesis
    using c filter_update [OF quit(2), of entered Abandoned]
      filter_update [OF quit(2), of by_promotion Abandoned]
      filter_update [OF quit(2), of "\<lambda>ph. ph = Abandoned" Abandoned] quit(3)
    by (simp add: counted_def count_phase_def gq u64_add)
next
  case (raced i w)
  have "granted w" using tracked_granted [OF sys_okD(2) [OF ok] raced(2,3)] by simp
  then obtain q where q: "releaseLocked ord now (que s) = Some (g, q)"
    "que s' = q\<lparr>cancelled_count := u64 (cancelled_count q + 1)\<rparr>"
    using raced(4) by (cases "releaseLocked ord now (que s)") (auto simp: Acquire_cancel_def)
  note r = release_counters [OF sys_okD(1) [OF ok] ord q(1)]
  have ph: "phases s' = close_ready g ((phases s)[i := Abandoned])" by (subst raced(5)) simp
  have np: "\<not> parked (phases s ! i)" using raced(3) by simp
  show ?thesis
    using c r raced(3) count_settle [OF ok raced(2) np, of g entered Abandoned]
      count_settle [OF ok raced(2) np, of g by_promotion Abandoned]
      count_settle [OF ok raced(2) np, of g "\<lambda>ph. ph = Abandoned" Abandoned]
    by (simp add: counted_def count_phase_def [of _ s'] ph q(2) u64_add)
next
  case (finish i b)
  note r = release_counters [OF sys_okD(1) [OF ok] ord finish(4)]
  have ph: "phases s' = close_ready g ((phases s)[i := Released b])" by (subst finish(5)) simp
  have np: "\<not> parked (phases s ! i)" using finish(3) by simp
  show ?thesis
    using c r finish(3) count_settle [OF ok finish(2) np, of g entered "Released b"]
      count_settle [OF ok finish(2) np, of g by_promotion "Released b"]
      count_settle [OF ok finish(2) np, of g "\<lambda>ph. ph = Abandoned" "Released b"]
    by (simp add: counted_def count_phase_def [of _ s'] ph)
next
  case (again i b)
  with c show ?thesis by (simp add: counted_def count_phase_def)
qed

lemma run_counted: "run s es s' \<Longrightarrow> sys_ok s \<Longrightarrow> counted s \<Longrightarrow> counted s'"
  by (induction rule: run.induct) (auto intro: fire_counted run_ok)

lemma reachable_counted:
  assumes "reachable cap after s" "after \<le> max_i64"
  shows "counted s"
proof -
  obtain q now es where q: "NewWithClock cap after = Inr q" "run (start_sys q now) es s"
    using assms(1) by (auto simp: reachable_def)
  have "counted (start_sys q now)"
    using q(1) by (auto simp: counted_def start_sys_def count_phase_def NewWithClock_def split: if_splits)
  then show ?thesis using run_counted [OF q(2) start_ok [OF q(1) assms(2)]] by simp
qed

end
