(* ===== verification/Admission.thy ===== *)
theory Admission
  imports QueueRun "HOL-Library.Multiset"
begin

text \<open>
  What the admission queue (src/internal/queue/queue.go) guarantees in every state its
  callers can bring it to: the bound on concurrency, the order of service, how long a
  request can be passed by, and what its counters, snapshots and signals mean.
\<close>

section \<open>Scripts\<close>

text \<open>A script plays given critical sections, each with its map order and clock reading;
  an order that does not enumerate the classes, or a clock that goes back, stops it.\<close>

fun play :: "sys \<Rightarrow> (int list \<times> instant \<times> queue_event) list \<Rightarrow> (sys \<times> (queue_event \<times> waiter option) list) option" where
  "play s [] = Some (s, [])"
| "play s ((ord, now, e) # es) =
     (if clock s \<le> now \<and> order_check ord (que s)
      then case fire ord now e s of
             Next s1 g \<Rightarrow> map_option (\<lambda>(s2, gs). (s2, (e, g) # gs)) (play s1 es)
           | _ \<Rightarrow> None
      else None)"

lemma run_cons:
  assumes "run s1 es s2"
  shows "clock s \<le> now \<Longrightarrow> key_order ord (que s) \<Longrightarrow> fire ord now e s = Next s1 g \<Longrightarrow>
    run s ((e, g) # es) s2"
  using assms
proof (induction rule: run.induct)
  case (run_nil s1)
  then show ?case using run_snoc [OF run.run_nil, of s now ord e s1 g] by simp
next
  case (run_snoc s1 es s1' now' ord' e' s2' g')
  then show ?case
    using run.run_snoc [of s "(e, g) # es" s1' now' ord' e' s2' g'] by simp
qed

lemma play_run: "sys_ok s \<Longrightarrow> play s es = Some (s', gs) \<Longrightarrow> run s gs s'"
proof (induction es arbitrary: s s' gs)
  case Nil
  then show ?case by (simp add: run_nil)
next
  case (Cons x es)
  obtain ord now e where x: "x = (ord, now, e)" by (cases x)
  obtain s1 g gs1 where step: "clock s \<le> now" "order_check ord (que s)" "fire ord now e s = Next s1 g"
    "play s1 es = Some (s', gs1)" "gs = (e, g) # gs1"
    using Cons.prems(2) by (auto simp: x split: if_splits outcome.splits)
  have ord: "key_order ord (que s)"
    using order_check_key_order [OF sys_okD(1) [OF Cons.prems(1)] step(2)] .
  then have "sys_ok s1" using fire_ok [OF Cons.prems(1) step(1) _ step(3)] by simp
  with Cons.IH step(4) have "run s1 gs1 s'" by simp
  then show ?case using run_cons [of s1 gs1 s' s now ord e g] step ord by simp
qed

text \<open>One slot, a five-second promotion window: a holder, an old low-priority request and
  two younger high-priority ones; at ten seconds the slot begins to circulate.\<close>

definition demo_queue :: queue where
  "demo_queue = (case NewWithClock 1 (5 * second) of Inr q \<Rightarrow> q | Inl _ \<Rightarrow> undefined)"

definition demo_arrivals :: "(int list \<times> instant \<times> queue_event) list" where
  "demo_arrivals = [([], 0, Arrive 1), ([], second, Arrive 1), ([1], 2 * second, Arrive 5),
     ([5, 1], 3 * second, Arrive 5)]"

definition demo_sys :: sys where
  "demo_sys = fst (the (play (start_sys demo_queue 0) demo_arrivals))"

text \<open>The same at ten seconds, when the holder has released and the old request, promoted,
  has its grant but has not resumed.\<close>

definition demo_granted :: sys where
  "demo_granted = fst (the (play (start_sys demo_queue 0)
     (demo_arrivals @ [([1, 5], 10 * second, Finish 0)])))"

definition demo_waiter :: "nat \<Rightarrow> waiter" where
  "demo_waiter i = (case phases demo_sys ! i of Parked w \<Rightarrow> w | _ \<Rightarrow> undefined)"

lemma demo_reachable:
  assumes "play (start_sys demo_queue 0) es = Some (s, gs)"
  shows "reachable 1 (5 * second) s"
proof -
  have q: "NewWithClock 1 (5 * second) = Inr demo_queue"
    by (simp add: demo_queue_def NewWithClock_def)
  have "sys_ok (start_sys demo_queue 0)" by (rule start_ok [OF q]) simp
  from play_run [OF this assms] q show ?thesis unfolding reachable_def by blast
qed

lemma demo_play:
  assumes "play (start_sys demo_queue 0) es \<noteq> None"
  shows "reachable 1 (5 * second) (fst (the (play (start_sys demo_queue 0) es)))"
proof -
  obtain s gs where p: "play (start_sys demo_queue 0) es = Some (s, gs)" using assms by auto
  then show ?thesis using demo_reachable [OF p] by (simp only: p option.sel fst_conv)
qed

lemma demo_sys_reachable: "reachable 1 (5 * second) demo_sys"
  unfolding demo_sys_def by (rule demo_play) code_simp

lemma demo_granted_reachable: "reachable 1 (5 * second) demo_granted"
  unfolding demo_granted_def by (rule demo_play) code_simp

lemma five_seconds: "5 * second \<le> max_i64"
  by simp

lemmas demo_ok = reachable_ok [OF demo_sys_reachable five_seconds]

lemma demo_order: "key_order [1, 5] (que demo_sys)"
proof (rule order_check_key_order [OF sys_okD(1) [OF demo_ok]])
  show "order_check [1, 5] (que demo_sys)" by code_simp
qed

lemmas demo_granted_ok = reachable_ok [OF demo_granted_reachable five_seconds]

lemma demo_granted_order: "key_order [5] (que demo_granted)"
proof (rule order_check_key_order [OF sys_okD(1) [OF demo_granted_ok]])
  show "order_check [5] (que demo_granted)" by code_simp
qed

section \<open>Capacity\<close>

lemma card_parked: "sys_ok s \<Longrightarrow> int (card (members (que s))) = count_phase parked s"
proof -
  assume ok: "sys_ok s"
  note tr = sys_okD(2) [OF ok]
  have "wid ` members (que s) = {i. i < length (phases s) \<and> parked (phases s ! i)}"
  proof -
    have "i \<in> wid ` members (que s)" if "i < length (phases s)" "phases s ! i = Parked w" for i w
      using that tr unfolding tracked_def by (metis (mono_tags) at_index.simps(1) image_eqI mem_Collect_eq nth_mem)
    then show ?thesis using tracked_members [OF tr] by (auto elim!: parked.elims)
  qed
  moreover have "card (wid ` members (que s)) = card (members (que s))"
    using queue_okD(7) [OF sys_okD(1) [OF ok]] by (rule card_image)
  ultimately show ?thesis by (simp add: count_phase_def length_filter_conv_card)
qed

text \<open>C10: capacity is respected and never lost. In every state the callers can reach, the
  requests that own a slot are exactly the capacity less the free slots, so never more than
  the capacity; \<open>Waiting\<close> is the number of parked requests; and a slot is free only when
  nobody is parked.\<close>

theorem admission_invariant:
  assumes "reachable cap after s" and "after \<le> max_i64"
  shows "count_phase busy s = cap - free (que s) \<and> 0 \<le> free (que s) \<and> count_phase busy s \<le> cap \<and>
    waiting (que s) = count_phase parked s \<and> (0 < free (que s) \<longrightarrow> count_phase parked s = 0)"
proof -
  note ok = reachable_ok [OF assms]
  show ?thesis
    using sys_okD(3) [OF ok] queue_okD(2,8,9) [OF sys_okD(1) [OF ok]] card_parked [OF ok]
      reachable_capacity(1) [OF assms] by auto
qed

theorem admission_invariant_witness:
  "count_phase busy demo_sys = 1 \<and> count_phase parked demo_sys = 3 \<and> waiting (que demo_sys) = 3"
proof -
  have "free (que demo_sys) = 0" "waiting (que demo_sys) = 3" by code_simp+
  then show ?thesis using admission_invariant [OF demo_sys_reachable five_seconds] by simp
qed

text \<open>C16: the queue never panics. Whatever its callers do, in whatever order the class map
  is iterated, no class is found empty.\<close>

theorem queue_never_panics:
  assumes "reachable cap after s" and "after \<le> max_i64" and "key_order ord (que s)"
  shows "fire ord now e s \<noteq> Panic \<and> Stats ord now (que s) \<noteq> None"
  using fire_no_panic [OF reachable_ok [OF assms(1,2)] assms(3)]
    class_stats_Some [OF sys_okD(1) [OF reachable_ok [OF assms(1,2)]], of ord] assms(3)
  by (simp add: Stats_def)

theorem queue_never_panics_witness:
  "fire [1, 5] (10 * second) (Finish 0) demo_sys \<noteq> Panic \<and> Stats [1, 5] (10 * second) (que demo_sys) \<noteq> None"
  by (rule queue_never_panics [OF demo_sys_reachable five_seconds demo_order])

text \<open>C15: a slot handed over by a caller that gave up is not lost. When the context dies
  after the grant, the slot goes to the next waiter if there is one and is free otherwise;
  the request ends with no slot.\<close>

theorem raced_cancel_hands_over:
  assumes "reachable cap after s" and "after \<le> max_i64" and "key_order ord (que s)"
    and "clock s \<le> now" and "i < length (phases s)" and "phases s ! i = Granted w"
    and "fire ord now (Cancel i) s = Next s' g"
  shows "(if count_phase parked s = 0
      then g = None \<and> free (que s') = free (que s) + 1 \<and> count_phase busy s' = count_phase busy s - 1
      else g \<noteq> None \<and> free (que s') = free (que s) \<and> count_phase busy s' = count_phase busy s) \<and>
    cancelled_count (que s') = u64 (cancelled_count (que s) + 1)"
proof -
  note ok = reachable_ok [OF assms(1,2)]
  note ok' = fire_ok [OF ok assms(4,3,7)]
  have "granted w" using tracked_granted [OF sys_okD(2) [OF ok] assms(5,6)] by simp
  then obtain q where q: "releaseLocked ord now (que s) = Some (g, q)"
    "que s' = q\<lparr>cancelled_count := u64 (cancelled_count q + 1)\<rparr>"
    using assms(5-7) by (cases "releaseLocked ord now (que s)")
      (auto simp: Acquire_cancel_def settle_def split: option.splits)
  have "capacity (que s') = capacity (que s)" using fire_members [OF ok assms(4,3,7)] by simp
  then have busy: "count_phase busy s' = free (que s) - free (que s') + count_phase busy s"
    using sys_okD(3) [OF ok] sys_okD(3) [OF ok'] by simp
  show ?thesis
    using sys_okD(1) [OF ok] assms(3)
  proof (cases rule: releaseLocked_cases [of _ ord now])
    case idle
    with q busy card_parked [OF ok] show ?thesis by auto
  next
    case (grant v p)
    then have "0 < card (members (que s))" using ok sys_okD(1) by (auto simp: card_gt_0_iff)
    with grant(3) q busy card_parked [OF ok] show ?thesis by auto
  qed
qed

theorem raced_cancel_hands_over_witness:
  "let r = fire [5] (11 * second) (Cancel 1) demo_granted
   in is_Next r \<and> next_pick r \<noteq> None \<and>
      count_phase busy (next_sys r) = count_phase busy demo_granted \<and>
      cancelled_count (que (next_sys r)) = 1"
proof -
  let ?r = "fire [5] (11 * second) (Cancel 1) demo_granted"
  obtain w where w: "phases demo_granted ! 1 = Granted w"
  proof -
    have "case phases demo_granted ! 1 of Granted w \<Rightarrow> True | _ \<Rightarrow> False" by code_simp
    then show ?thesis using that by (auto split: phase.splits)
  qed
  have "is_Next ?r" by code_simp
  then have step: "?r = Next (next_sys ?r) (next_pick ?r)" by (rule outcome.collapse [symmetric])
  have at: "clock demo_granted \<le> 11 * second" "1 < length (phases demo_granted)" by code_simp+
  have "count_phase parked demo_granted \<noteq> 0" by code_simp
  then have "next_pick ?r \<noteq> None \<and> count_phase busy (next_sys ?r) = count_phase busy demo_granted \<and>
      cancelled_count (que (next_sys ?r)) = u64 (cancelled_count (que demo_granted) + 1)"
    using raced_cancel_hands_over [OF demo_granted_reachable five_seconds demo_granted_order at w step]
    by simp
  moreover have "u64 (cancelled_count (que demo_granted) + 1) = 1" by code_simp
  ultimately show ?thesis using \<open>is_Next ?r\<close> unfolding Let_def by simp
qed

section \<open>Order of service\<close>

text \<open>The requests parked in a state, as the abstract queue: a set, with no structure.\<close>

definition parked_set :: "sys \<Rightarrow> waiter set" where
  "parked_set s = {w. Parked w \<in> set (phases s)}"

lemma parked_set_members: "sys_ok s \<Longrightarrow> parked_set s = members (que s)"
  using sys_okD(2) by (simp add: tracked_def parked_set_def)

text \<open>C12: the queue refines its abstract policy. Whenever a slot is handed over, and whatever
  the map order, the waiter chosen is one the policy allows on the plain set of parked
  requests: the first in rank, unless the earliest arrival has aged and the previous choice
  was not itself a promotion. The chosen request alone leaves the set.\<close>

theorem handover_policy:
  assumes "reachable cap after s" and "after \<le> max_i64" and "key_order ord (que s)"
    and "clock s \<le> now" and "fire ord now e s = Next s' (Some w')"
  shows "\<exists>w \<in> parked_set s. w' = w\<lparr>granted := True, promoted := promoted w'\<rparr> \<and>
    pick_ok after now (justPromoted (que s)) (parked_set s) w (promoted w') \<and>
    parked_set s' = parked_set s - {w} \<and> justPromoted (que s') = promoted w'"
proof -
  note ok = reachable_ok [OF assms(1,2)]
  note ok' = fire_ok [OF ok assms(4,3,5)]
  show ?thesis
    using fire_members [OF ok assms(4,3,5)] reachable_capacity(2) [OF assms(1,2)]
    by (simp add: parked_set_members [OF ok] parked_set_members [OF ok'])
qed

theorem handover_policy_witness:
  "let r = fire [1, 5] (10 * second) (Finish 0) demo_sys
   in \<exists>w \<in> parked_set demo_sys. pick_ok (5 * second) (10 * second) False (parked_set demo_sys) w True"
proof -
  let ?r = "fire [1, 5] (10 * second) (Finish 0) demo_sys"
  have "is_Next ?r" "next_pick ?r \<noteq> None" by code_simp+
  then have step: "?r = Next (next_sys ?r) (Some (the (next_pick ?r)))" by (cases ?r) auto
  have "clock demo_sys \<le> 10 * second" by code_simp
  moreover have "promoted (the (next_pick ?r))" "\<not> justPromoted (que demo_sys)" by code_simp+
  ultimately show ?thesis
    using handover_policy [OF demo_sys_reachable five_seconds demo_order _ step] unfolding Let_def by auto
qed

text \<open>Inside a class, first come first served. No grant, by rank or by promotion, passes
  over an older request of the same priority.\<close>

theorem fifo_within_class:
  assumes "reachable cap after s" and "after \<le> max_i64" and "key_order ord (que s)"
    and "clock s \<le> now" and "fire ord now e s = Next s' (Some w')"
    and "v \<in> parked_set s" and "priority v = priority w'"
  shows "wid w' \<le> wid v"
proof -
  note ok = reachable_ok [OF assms(1,2)]
  obtain w where w: "w' = w\<lparr>granted := True, promoted := promoted w'\<rparr>"
    "pick_ok (promoteAfter (que s)) now (justPromoted (que s)) (members (que s)) w (promoted w')"
    using fire_members [OF ok assms(4,3,5)] by auto
  have "wid w' = wid w" "priority w' = priority w" by (subst w(1), simp)+
  with w(2) assms(6,7) show ?thesis
    by (auto simp: pick_ok_def first_in_rank_def precedes_def parked_set_members [OF ok] split: if_splits)
qed

theorem fifo_within_class_witness:
  "let r = fire [5] (11 * second) (Cancel 1) demo_granted
   in \<exists>w. next_pick r = Some w \<and> priority w = 5 \<and> wid w \<le> 3"
proof -
  let ?r = "fire [5] (11 * second) (Cancel 1) demo_granted" and ?v = "demo_waiter 3"
  have "is_Next ?r" "next_pick ?r \<noteq> None" by code_simp+
  then have step: "?r = Next (next_sys ?r) (Some (the (next_pick ?r)))" by (cases ?r) auto
  have "case phases demo_granted ! 3 of Parked w \<Rightarrow> True | _ \<Rightarrow> False" by code_simp
  then obtain v where v: "phases demo_granted ! 3 = Parked v" by (auto split: phase.splits)
  have "3 < length (phases demo_granted)" by code_simp
  from nth_mem [OF this] v have mem: "v \<in> parked_set demo_granted" by (simp add: parked_set_def)
  have "case phases demo_granted ! 3 of Parked w \<Rightarrow> priority w = 5 \<and> wid w = 3 | _ \<Rightarrow> False" by code_simp
  then have "priority v = 5" "wid v = 3" using v by simp_all
  moreover have "priority (the (next_pick ?r)) = 5" "clock demo_granted \<le> 11 * second" by code_simp+
  ultimately have "wid (the (next_pick ?r)) \<le> 3"
    using fifo_within_class [OF demo_granted_reachable five_seconds demo_granted_order _ step mem] by simp
  then show ?thesis
    using \<open>priority (the (next_pick ?r)) = 5\<close> \<open>next_pick ?r \<noteq> None\<close> unfolding Let_def by auto
qed

text \<open>C11: no barging. While anyone is parked, a new request parks too, behind everyone of
  its own priority, even if a slot could be freed in the same instant.\<close>

theorem no_barging:
  assumes "reachable cap after s" and "after \<le> max_i64" and "parked_set s \<noteq> {}"
  shows "\<exists>w q. fire ord now (Arrive p) s = Next \<lparr>que = q, phases = phases s @ [Parked w], clock = now\<rparr> None \<and>
    priority w = p \<and> since w = now \<and> classes q p = Some (class_list (que s) p @ [w]) \<and>
    admitted_count q = admitted_count (que s)"
proof -
  note ok = reachable_ok [OF assms(1,2)]
  have ne: "members (que s) \<noteq> {}" using assms(3) parked_set_members [OF ok] by simp
  show ?thesis
    using sys_okD(1) [OF ok]
  proof (cases rule: enter_cases [of "que s" now "length (phases s)" p])
    case slot
    with ne show ?thesis by simp
  next
    case (park w)
    then show ?thesis by (intro exI [of _ w] exI) auto
  qed
qed

theorem no_barging_witness:
  "case fire [] (4 * second) (Arrive 9) demo_sys of
     Next s' _ \<Rightarrow> parked (last (phases s')) | _ \<Rightarrow> False"
proof -
  have "parked_set demo_sys \<noteq> {}"
  proof -
    have "list_ex parked (phases demo_sys)" by code_simp
    then show ?thesis by (auto simp: parked_set_def list_ex_iff elim!: parked.elims)
  qed
  from no_barging [OF demo_sys_reachable five_seconds this, of "[]" "4 * second" 9]
  show ?thesis by auto
qed

section \<open>Bounded waiting\<close>

lemma parked_nth: "i < length (phases s) \<Longrightarrow> phases s ! i = Parked w \<Longrightarrow> w \<in> parked_set s"
  using nth_mem [of i "phases s"] by (simp add: parked_set_def)

lemma demo_phase:
  assumes "i = 1 \<or> i = 2 \<or> i = 3"
  shows "phases demo_sys ! i = Parked (demo_waiter i)"
proof -
  have "case phases demo_sys ! 1 of Parked w \<Rightarrow> True | _ \<Rightarrow> False"
    "case phases demo_sys ! 2 of Parked w \<Rightarrow> True | _ \<Rightarrow> False"
    "case phases demo_sys ! 3 of Parked w \<Rightarrow> True | _ \<Rightarrow> False" by code_simp+
  then show ?thesis using assms by (auto simp: demo_waiter_def split: phase.splits)
qed

lemma demo_waiter_parked: "demo_waiter 3 \<in> parked_set demo_sys"
proof -
  have "3 < length (phases demo_sys)" by code_simp
  then show ?thesis using demo_phase [of 3] by (auto intro: parked_nth)
qed

text \<open>Two more steps of the demonstration: the promoted request runs and releases.\<close>

definition demo_tail :: "(int list \<times> instant \<times> queue_event) list" where
  "demo_tail = [([1, 5], 10 * second, Finish 0), ([5], 10 * second, Resume 1),
     ([5], 12 * second, Finish 1)]"

definition demo_end :: "sys \<times> (queue_event \<times> waiter option) list" where
  "demo_end = the (play demo_sys demo_tail)"

lemma demo_run: "run demo_sys (snd demo_end) (fst demo_end)"
proof -
  have "play demo_sys demo_tail \<noteq> None" by code_simp
  then have "play demo_sys demo_tail = Some (fst demo_end, snd demo_end)"
    by (auto simp: demo_end_def)
  then show ?thesis by (rule play_run [OF demo_ok])
qed

definition demo_rest :: "sys \<times> (queue_event \<times> waiter option) list" where
  "demo_rest = the (play demo_granted (tl demo_tail))"

lemma demo_rest_run: "run demo_granted (snd demo_rest) (fst demo_rest)"
proof -
  have "play demo_granted (tl demo_tail) \<noteq> None" by code_simp
  then have "play demo_granted (tl demo_tail) = Some (fst demo_rest, snd demo_rest)"
    by (auto simp: demo_rest_def)
  then show ?thesis by (rule play_run [OF demo_granted_ok])
qed

text \<open>C13: no starvation. Once a parked request has aged, then over any continuation, however
  many requests arrive and whatever their priorities, the slot is handed to others at most
  twice for each request that arrived no later than it, and once more if the last hand-over
  was a promotion, before it gets the slot or gives up.\<close>

theorem aged_wait_bounded:
  assumes "reachable cap after s" and "after \<le> max_i64" and "run s es s'"
    and "w \<in> parked_set s" and "aged after (clock s) w" and "w \<in> parked_set s'"
  shows "length (picks es) \<le> 2 * card {v \<in> parked_set s. v \<noteq> w \<and> since v \<le> since w} +
    (if justPromoted (que s) then 1 else 0)"
proof -
  note ok = reachable_ok [OF assms(1,2)]
  have "aged_bound s' w + length (picks es) \<le> aged_bound s w"
    using assms(4-6) run_ok [OF assms(3) ok] reachable_capacity(2) [OF assms(1,2)]
    by (intro run_aged [OF assms(3) ok]) (simp_all add: parked_set_members ok)
  then show ?thesis by (simp add: aged_bound_def parked_set_members [OF ok])
qed

theorem aged_wait_bounded_witness:
  "demo_waiter 3 \<in> parked_set (fst demo_rest) \<and> length (picks (snd demo_rest)) = 1 \<and>
   (1::nat) \<le> 2 * card {v \<in> parked_set demo_granted. v \<noteq> demo_waiter 3 \<and>
       since v \<le> since (demo_waiter 3)} + (if justPromoted (que demo_granted) then 1 else 0)"
proof -
  have ph: "phases demo_sys ! 3 = Parked (demo_waiter 3)" by (simp add: demo_phase)
  have "phases demo_granted ! 3 = phases demo_sys ! 3" "phases (fst demo_rest) ! 3 = phases demo_sys ! 3"
    "3 < length (phases demo_granted)" "3 < length (phases (fst demo_rest))" by code_simp+
  with ph have mem: "demo_waiter 3 \<in> parked_set demo_granted" "demo_waiter 3 \<in> parked_set (fst demo_rest)"
    by (auto intro: parked_nth)
  have "aged (5 * second) (clock demo_granted) (demo_waiter 3)" "length (picks (snd demo_rest)) = 1"
    by code_simp+
  with aged_wait_bounded [OF demo_granted_reachable five_seconds demo_rest_run mem(1) _ mem(2)] mem(2)
  show ?thesis by simp
qed

text \<open>C14: priority is not buried. While nothing of a higher priority arrives, a parked
  request is passed by at most twice for each request ahead of it in rank, and once more;
  the first in rank waits for at most one hand-over to somebody else.\<close>

theorem priority_wait_bounded:
  assumes "reachable cap after s" and "after \<le> max_i64" and "run s es s'"
    and "w \<in> parked_set s" and "w \<in> parked_set s'"
    and "\<And>p g. (Arrive p, g) \<in> set es \<Longrightarrow> p \<le> priority w"
  shows "length (picks es) \<le> 2 * card {v \<in> parked_set s. precedes v w} + 1"
proof -
  note ok = reachable_ok [OF assms(1,2)]
  have "rank_bound s' w + length (picks es) \<le> rank_bound s w"
    using assms(4-6) run_ok [OF assms(3) ok]
    by (intro run_rank [OF assms(3) ok]) (simp_all add: parked_set_members ok)
  then show ?thesis by (simp add: rank_bound_def parked_set_members [OF ok] split: if_splits)
qed

theorem priority_wait_bounded_witness:
  "demo_waiter 3 \<in> parked_set (fst demo_end) \<and> length (picks (snd demo_end)) = 2 \<and>
   (2::nat) \<le> 2 * card {v \<in> parked_set demo_sys. precedes v (demo_waiter 3)} + 1"
proof -
  have "phases (fst demo_end) ! 3 = phases demo_sys ! 3" "3 < length (phases (fst demo_end))"
    by code_simp+
  moreover have "phases demo_sys ! 3 = Parked (demo_waiter 3)" by (simp add: demo_phase)
  ultimately have mem: "demo_waiter 3 \<in> parked_set (fst demo_end)" by (auto intro: parked_nth)
  have two: "length (picks (snd demo_end)) = 2" by code_simp
  have "list_all (\<lambda>(e, g). case e of Arrive p \<Rightarrow> False | _ \<Rightarrow> True) (snd demo_end)" by code_simp
  then have "\<And>p g. (Arrive p, g) \<in> set (snd demo_end) \<Longrightarrow> p \<le> priority (demo_waiter 3)"
    by (fastforce simp: list_all_iff)
  from priority_wait_bounded [OF demo_sys_reachable five_seconds demo_run demo_waiter_parked mem this] mem two
  show ?thesis by simp
qed

text \<open>Promotions alternate. In the sequence of hand-overs of any run, no two consecutive
  ones are promotions.\<close>

theorem promotions_alternate:
  assumes "reachable cap after s" and "after \<le> max_i64" and "run s es s'"
  shows "successively (\<lambda>a b. \<not> (a \<and> b)) (map promoted (picks es))"
  using run_alternates [OF assms(3) reachable_ok [OF assms(1,2)]] by simp

theorem promotions_alternate_witness:
  "map promoted (picks (snd demo_end)) = [True, False] \<and>
   successively (\<lambda>a b. \<not> (a \<and> b)) (map promoted (picks (snd demo_end)))"
proof
  show "map promoted (picks (snd demo_end)) = [True, False]" by code_simp
qed (rule promotions_alternate [OF demo_sys_reachable five_seconds demo_run])

section \<open>Counters, snapshots and signals\<close>

text \<open>The lifetime counters count. \<open>admitted\<close> is the number of calls of \<open>Acquire\<close> that
  returned a slot, \<open>promoted\<close> those among them that jumped the ranks, and \<open>cancelled\<close> the
  calls that returned the context's error, modulo the counters' width.\<close>

theorem counters_account:
  assumes "reachable cap after s" and "after \<le> max_i64"
  shows "admitted_count (que s) = u64 (count_phase entered s) \<and>
    promoted_count (que s) = u64 (count_phase by_promotion s) \<and>
    cancelled_count (que s) = u64 (count_phase (\<lambda>ph. ph = Abandoned) s)"
  using reachable_counted [OF assms] by (simp add: counted_def)

theorem counters_account_witness:
  "admitted_count (que demo_granted) = u64 (count_phase entered demo_granted) \<and>
   admitted_count (que demo_granted) = 1"
proof
  show "admitted_count (que demo_granted) = 1" by code_simp
qed (use counters_account [OF demo_granted_reachable five_seconds] in simp)

lemma sum_list_sort_key: "sum_list (map f (sort_key g xs)) = (sum_list (map f xs) :: int)"
  by (simp flip: sum_mset_sum_list)

lemma sum_list_int: "(\<Sum>x\<leftarrow>xs. int (f x)) = int (\<Sum>x\<leftarrow>xs. f x)"
  by (induction xs) simp_all

lemma map_sort_key: "map g (sort_key g xs) = sort (map g xs)"
  by (rule properties_for_sort [symmetric]) simp_all

text \<open>A snapshot agrees with itself and with the callers. \<open>InFlight\<close> is the number of
  requests that own a slot, the classes add up to \<open>Waiting\<close>, come in strictly descending
  priority, and no class has waited longer than \<open>OldestWait\<close>, which nobody parked exceeds.\<close>

theorem stats_consistent:
  assumes "reachable cap after s" and "after \<le> max_i64" and "key_order ord (que s)"
    and "clock s \<le> now" and "Stats ord now (que s) = Some st"
  shows "InFlight st = count_phase busy s \<and> Waiting st = count_phase parked s \<and>
    sum_list (map CS_Waiting (Classes st)) = Waiting st \<and>
    sorted_wrt (\<lambda>a b. CS_Priority b < CS_Priority a) (Classes st) \<and>
    (\<forall>w \<in> parked_set s. time_sub now (since w) \<le> OldestWait st)"
proof -
  note ok = reachable_ok [OF assms(1,2)]
  note qok = sys_okD(1) [OF ok]
  let ?f = "class_row (que s) now"
  have cs: "class_stats (que s) now ord = Some (map ?f ord)"
    using class_stats_Some [OF qok, of ord now] assms(3) by simp
  have st: "st = \<lparr>Capacity = capacity (que s), InFlight = capacity (que s) - free (que s),
      Waiting = waiting (que s), PromoteAfter = promoteAfter (que s),
      Classes = rev (sort_key CS_Priority (map ?f ord)),
      OldestWait = foldl (\<lambda>m c. max m (CS_OldestWait c)) 0 (map ?f ord),
      Admitted = admitted_count (que s), Promoted = promoted_count (que s),
      Cancelled = cancelled_count (que s)\<rparr>"
    using assms(5) by (simp add: Stats_def cs)
  have "sum_list (map CS_Waiting (Classes st)) = sum_list (map CS_Waiting (map ?f ord))"
    by (simp only: st stats.select_convs rev_map [symmetric] sum_list_rev sum_list_sort_key)
  then have total: "sum_list (map CS_Waiting (Classes st)) = waiting (que s)"
    using waiting_sum [OF qok assms(3)] by (simp add: comp_def sum_list_int)
  have desc: "sorted_wrt (\<lambda>a b. CS_Priority b < CS_Priority a) (Classes st)"
  proof -
    have "map CS_Priority (sort_key CS_Priority (map ?f ord)) = sort ord"
      by (simp add: map_sort_key comp_def)
    then have "sorted_wrt (<) (map CS_Priority (sort_key CS_Priority (map ?f ord)))"
      using assms(3) by (simp add: strict_sorted_iff)
    then show ?thesis by (simp add: st sorted_wrt_rev sorted_wrt_map)
  qed
  have old: "time_sub now (since w) \<le> OldestWait st" if "w \<in> members (que s)" for w
  proof -
    let ?h = "hd (class_list (que s) (priority w))"
    have "CS_OldestWait (?f (priority w)) \<le> OldestWait st"
    proof -
      have "?f (priority w) \<in> set (map ?f ord)"
        using class_front(4) [OF qok that] assms(3) by simp
      then show ?thesis unfolding st stats.select_convs foldl_max by (intro Max_ge) blast+
    qed
    moreover have "since ?h \<le> since w" using class_front(3) [OF qok that] by auto
    then have "time_sub now (since w) \<le> time_sub now (since ?h)" by (auto simp: time_sub_def)
    ultimately show ?thesis by simp
  qed
  show ?thesis
    using total desc old sys_okD(3) [OF ok] card_parked [OF ok] queue_okD(8) [OF qok]
    by (simp add: st parked_set_members [OF ok])
qed

theorem stats_consistent_witness:
  "case Stats [1, 5] (10 * second) (que demo_sys) of
     None \<Rightarrow> False
   | Some st \<Rightarrow> Waiting st = 3 \<and> sum_list (map CS_Waiting (Classes st)) = Waiting st \<and>
       map CS_Priority (Classes st) = [5, 1] \<and> OldestWait st = 9 * second"
proof -
  let ?r = "Stats [1, 5] (10 * second) (que demo_sys)"
  have some: "case ?r of None \<Rightarrow> False
     | Some st \<Rightarrow> Waiting st = 3 \<and> map CS_Priority (Classes st) = [5, 1] \<and> OldestWait st = 9 * second"
    by code_simp
  then obtain st where st: "?r = Some st" by (cases ?r) auto
  have "clock demo_sys \<le> 10 * second" by code_simp
  from stats_consistent [OF demo_sys_reachable five_seconds demo_order this st]
  have "sum_list (map CS_Waiting (Classes st)) = Waiting st" by simp
  with some show ?thesis unfolding st option.case by blast
qed

text \<open>A snapshot is deterministic. Its contents do not depend on the order in which the
  class map happens to be iterated.\<close>

theorem stats_order_independent:
  assumes "queue_ok q" and "key_order ord q" and "key_order ord' q"
  shows "Stats ord now q = Stats ord' now q"
proof -
  let ?f = "class_row q now"
  have "mset ord = mset ord'"
    using assms(2,3) by (metis set_eq_iff_mset_eq_distinct)
  then have mset: "mset (map ?f ord) = mset (map ?f ord')" by simp
  have "inj_on CS_Priority (set (map ?f ord))" by (auto intro!: inj_onI)
  then have "sort_key CS_Priority (map ?f ord) = sort_key CS_Priority (map ?f ord')"
    using mset by (intro sort_key_inj_key_eq) simp_all
  moreover have "foldl (\<lambda>m c. max m (CS_OldestWait c)) 0 (map ?f ord) =
      foldl (\<lambda>m c. max m (CS_OldestWait c)) 0 (map ?f ord')"
    unfolding foldl_max using assms(2,3) by simp
  ultimately show ?thesis
    using class_stats_Some [OF assms(1), of ord now] class_stats_Some [OF assms(1), of ord' now] assms(2,3)
    by (simp add: Stats_def)
qed

theorem stats_order_independent_witness:
  "Stats [1, 5] (10 * second) (que demo_sys) = Stats [5, 1] (10 * second) (que demo_sys)"
proof (rule stats_order_independent [OF sys_okD(1) [OF demo_ok] demo_order])
  show "key_order [5, 1] (que demo_sys)" using demo_order by auto
qed

text \<open>Releasing twice is releasing once. The release function's first call gives the slot
  back; every later call changes neither the queue nor any request.\<close>

theorem release_idempotent:
  assumes "reachable cap after s" and "after \<le> max_i64" and "key_order ord (que s)"
    and "clock s \<le> now" and "fire ord now (Finish i) s = Next s1 g"
  shows "fire ord' now' (Finish i) s1 = Next (s1\<lparr>clock := now'\<rparr>) None"
proof -
  note ok = reachable_ok [OF assms(1,2)]
  have "\<exists>b. i < length (phases s1) \<and> phases s1 ! i = Released b"
    using assms(5)
  proof (cases rule: fire_cases)
    case (finish j b)
    have "g = Some w' \<Longrightarrow> wid w' \<noteq> i" for w'
      using release_counters [OF sys_okD(1) [OF ok] assms(3) finish(4)] finish(1,3)
        tracked_members [OF sys_okD(2) [OF ok]] by fastforce
    then have "i < length (close_ready g ((phases s)[i := Released b])) \<and>
        close_ready g ((phases s)[i := Released b]) ! i = Released b"
      using finish(1,2) by (cases g) auto
    then show ?thesis using finish(1) by (subst (1 2) finish(5)) auto
  qed auto
  then obtain b where b: "i < length (phases s1)" "phases s1 ! i = Released b" by blast
  then have "(phases s1)[i := Released b] = phases s1" by (metis list_update_id)
  with b show ?thesis by (simp add: settle_def Release_def)
qed

theorem release_idempotent_witness:
  "let r = fire [1, 5] (10 * second) (Finish 0) demo_sys
   in fire [5] (11 * second) (Finish 0) (next_sys r) = Next ((next_sys r)\<lparr>clock := 11 * second\<rparr>) None"
proof -
  let ?r = "fire [1, 5] (10 * second) (Finish 0) demo_sys"
  have "is_Next ?r" by code_simp
  then have step: "?r = Next (next_sys ?r) (next_pick ?r)" by (rule outcome.collapse [symmetric])
  have "clock demo_sys \<le> 10 * second" by code_simp
  from release_idempotent [OF demo_sys_reachable five_seconds demo_order this step]
  show ?thesis unfolding Let_def .
qed

lemma release_notifies:
  assumes "queue_ok q" "key_order ord q" "releaseLocked ord now q = Some (g, q')"
  shows "watchers q' = (\<lambda>ch. map_option (\<lambda>_. True) (watchers q ch))"
  using assms(1,2)
  by (cases rule: releaseLocked_cases [of _ ord now]) (use assms(3) in \<open>auto simp: notifyLocked_def\<close>)

lemma cancel_notifies:
  assumes "queue_ok q" "key_order ord q" "Acquire_cancel ord now w q = Some (g, q')"
  shows "watchers q' = (\<lambda>ch. map_option (\<lambda>_. True) (watchers q ch))"
proof (cases "granted w")
  case True
  with assms(3) obtain q1 where "releaseLocked ord now q = Some (g, q1)" "watchers q' = watchers q1"
    by (cases "releaseLocked ord now q") (auto simp: Acquire_cancel_def)
  with release_notifies [OF assms(1,2)] show ?thesis by simp
next
  case False
  with assms(3) show ?thesis by (auto simp: Acquire_cancel_def notifyLocked_def Let_def)
qed

text \<open>A change wakes every watcher, except one. After a step that admits at once, parks,
  cancels or releases, each watcher's channel holds a signal; when a queued request takes up
  its grant, which raises \<open>admitted\<close>, no channel is written.\<close>

theorem watchers_signalled:
  assumes "reachable cap after s" and "after \<le> max_i64" and "key_order ord (que s)"
    and "fire ord now e s = Next s' g"
  shows "(case e of
      Resume i \<Rightarrow> watchers (que s') = watchers (que s) \<and>
        admitted_count (que s') = u64 (admitted_count (que s) + 1)
    | Finish i \<Rightarrow> (\<exists>b. phases s ! i = Released b) \<or> watchers (que s') = (\<lambda>ch. map_option (\<lambda>_. True) (watchers (que s) ch))
    | _ \<Rightarrow> watchers (que s') = (\<lambda>ch. map_option (\<lambda>_. True) (watchers (que s) ch)))"
proof -
  note ok = reachable_ok [OF assms(1,2)]
  note rel = release_notifies [OF sys_okD(1) [OF ok] assms(3)]
    and quits = cancel_notifies [OF sys_okD(1) [OF ok] assms(3)]
  show ?thesis
    using assms(4)
  proof (cases rule: fire_cases)
    case (arrive p)
    with assms(4) show ?thesis
      by (auto simp: Acquire_enter_def notifyLocked_def Let_def split: if_splits)
  next
    case (resume i w)
    then show ?thesis by (simp add: Acquire_ready_def Let_def)
  next
    case (quit i w)
    then show ?thesis using quits by simp
  next
    case (raced i w)
    then show ?thesis using quits by simp
  next
    case (finish i b)
    then show ?thesis using rel by simp
  next
    case (again i b)
    then show ?thesis by simp
  qed
qed

theorem watchers_signalled_witness:
  "let r = fire [5] (10 * second) (Resume 1) demo_granted
   in watchers (que (next_sys r)) = watchers (que demo_granted) \<and>
      admitted_count (que (next_sys r)) = 2 \<and> admitted_count (que demo_granted) = 1"
proof -
  let ?r = "fire [5] (10 * second) (Resume 1) demo_granted"
  have "is_Next ?r" by code_simp
  then have step: "?r = Next (next_sys ?r) (next_pick ?r)" by (rule outcome.collapse [symmetric])
  have "admitted_count (que (next_sys ?r)) = 2" "admitted_count (que demo_granted) = 1" by code_simp+
  with watchers_signalled [OF demo_granted_reachable five_seconds demo_granted_order step]
  show ?thesis unfolding Let_def by simp
qed

end
