(* ===== verification/View.thy ===== *)
theory View
  imports Budget Admission Text
begin

text \<open>
  The dashboard's projections (src/internal/web/view.go, and the two page handlers of
  src/internal/web/server.go): queue strip, key detail, key list. Go's panics, an index out of
  range or a division by zero, are the result None. \<open>humanize.Comma\<close> and the one-decimal
  float format are arguments.
\<close>

section \<open>Labels and bars\<close>

definition barWidth :: "int \<Rightarrow> int \<Rightarrow> string" where
  "barWidth v peak =
     (if peak \<le> 0 \<or> v \<le> 0 then ''0%''
      else let pct = go_div (i64 (v * 100)) peak; pct' = (if pct < 2 then 2 else pct)
           in Itoa pct' @ ''%'')"

definition keyLabel :: "apikey \<Rightarrow> string" where
  "keyLabel k = (if Name k \<noteq> '''' then Name k else ''key #'' @ Itoa (int (ID k)))"

definition statusClass :: "apikey \<Rightarrow> string" where
  "statusClass k = (if IsRevoked k then ''revoked'' else ''active'')"

definition budgetLabel :: "(int \<Rightarrow> string) \<Rightarrow> int \<Rightarrow> string" where
  "budgetLabel comma b = (if b = Unlimited then ''unlimited'' else comma b)"

definition priorityLabel :: "int \<Rightarrow> string" where
  "priorityLabel p = ''p'' @ Itoa p"

text \<open>\<open>tenths\<close> is the format \<open>%.1f\<close> of the duration in seconds.\<close>

definition shortDuration :: "(duration \<Rightarrow> string) \<Rightarrow> duration \<Rightarrow> string" where
  "shortDuration tenths d =
     (if d < second then Itoa (go_div d 1000000) @ ''ms'' else tenths d @ ''s'')"

section \<open>The queue strip\<close>

record queue_class_vm =
  QC_Label :: string
  QC_CountLabel :: string
  QC_WaitLabel :: string
  QC_Width :: string
  QC_Top :: bool
  QC_Aged :: bool

record queue_vm =
  Q_Capacity :: int
  Q_Slots :: "bool list"
  Q_InFlightLabel :: string
  Q_Saturated :: bool
  Q_Idle :: bool
  Q_Waiting :: bool
  Q_WaitingLabel :: string
  Q_Classes :: "queue_class_vm list"
  Q_OldestLabel :: string
  Q_Aged :: bool
  Q_PromoteLabel :: string
  Q_AdmittedLabel :: string
  Q_PromotedLabel :: string

text \<open>\<open>for i := range s.InFlight { vm.Slots[i] = true }\<close> panics past the end.\<close>

definition busy_slots :: "int \<Rightarrow> int \<Rightarrow> bool list option" where
  "busy_slots cap inflight =
     (if cap < 0 \<or> cap < inflight then None
      else Some (replicate (nat inflight) True @ replicate (nat cap - nat inflight) False))"

definition queue_class_row :: "(duration \<Rightarrow> string) \<Rightarrow> stats \<Rightarrow> int \<Rightarrow> nat \<Rightarrow> class_stat \<Rightarrow> queue_class_vm" where
  "queue_class_row tenths s deepest i c =
     \<lparr>QC_Label = priorityLabel (CS_Priority c), QC_CountLabel = Itoa (CS_Waiting c),
      QC_WaitLabel = shortDuration tenths (CS_OldestWait c),
      QC_Width = barWidth (CS_Waiting c) deepest, QC_Top = (i = 0),
      QC_Aged = (PromoteAfter s \<le> CS_OldestWait c)\<rparr>"

definition buildQueue :: "(int \<Rightarrow> string) \<Rightarrow> (duration \<Rightarrow> string) \<Rightarrow> stats \<Rightarrow> queue_vm option" where
  "buildQueue comma tenths s =
     map_option (\<lambda>slots.
       (let deepest = foldl (\<lambda>m c. max m (CS_Waiting c)) 0 (Classes s)
        in \<lparr>Q_Capacity = Capacity s, Q_Slots = slots,
            Q_InFlightLabel = Itoa (InFlight s) @ ''/'' @ Itoa (Capacity s),
            Q_Saturated = (0 < Capacity s \<and> Capacity s \<le> InFlight s),
            Q_Idle = (InFlight s = 0 \<and> Waiting s = 0),
            Q_Waiting = (0 < Waiting s), Q_WaitingLabel = Itoa (Waiting s) @ '' queued'',
            Q_Classes = map2 (queue_class_row tenths s deepest) [0..<length (Classes s)] (Classes s),
            Q_OldestLabel = shortDuration tenths (OldestWait s),
            Q_Aged = (PromoteAfter s \<le> OldestWait s),
            Q_PromoteLabel = shortDuration tenths (PromoteAfter s),
            Q_AdmittedLabel = comma (i64 (Admitted s)), Q_PromotedLabel = comma (i64 (Promoted s))\<rparr>))
       (busy_slots (Capacity s) (InFlight s))"

section \<open>The detail panel\<close>

record bucket_vm =
  B_Label :: string
  B_TokensLabel :: string
  B_Width :: string
  B_Emphasis :: bool

record detail_vm =
  V_ID :: uint
  V_Label :: string
  V_Revoked :: bool
  V_Batch :: string
  V_Rate :: string
  V_Prio :: string
  V_Elevated :: bool
  V_BudgetLabel :: string
  V_Period :: string
  V_Buckets :: "bucket_vm list"
  V_HasBudget :: bool
  V_Over :: bool
  V_BudgetUsedLabel :: string
  V_BudgetRemainingLabel :: string
  V_BudgetWidth :: string

definition bucket :: "(int \<Rightarrow> string) \<Rightarrow> int \<Rightarrow> string \<Rightarrow> int \<Rightarrow> bool \<Rightarrow> bucket_vm" where
  "bucket comma peak label n emphasis =
     \<lparr>B_Label = label, B_TokensLabel = comma n, B_Width = barWidth n peak, B_Emphasis = emphasis\<rparr>"

definition detailVM :: "(int \<Rightarrow> string) \<Rightarrow> apikey \<Rightarrow> report \<Rightarrow> detail_vm option" where
  "detailVM comma k rep =
     (let peak = max (max (max (max (R_Today rep) (R_ThisWeek rep)) (R_ThisMonth rep)) (R_PastMonth rep)) (R_Before rep);
          d = \<lparr>V_ID = ID k, V_Label = keyLabel k, V_Revoked = IsRevoked k, V_Batch = Itoa (BatchMax k),
               V_Rate = Itoa (RatePerMin k), V_Prio = priorityLabel (Priority k),
               V_Elevated = (NormalPriority < Priority k), V_BudgetLabel = budgetLabel comma (TokenBudget k),
               V_Period = BudgetPeriod k,
               V_Buckets = [bucket comma peak ''today'' (R_Today rep) True,
                            bucket comma peak ''this week'' (R_ThisWeek rep) False,
                            bucket comma peak ''this month'' (R_ThisMonth rep) False,
                            bucket comma peak ''past month'' (R_PastMonth rep) False,
                            bucket comma peak ''before'' (R_Before rep) False],
               V_HasBudget = False, V_Over = False, V_BudgetUsedLabel = '''',
               V_BudgetRemainingLabel = '''', V_BudgetWidth = ''''\<rparr>
      in if IsUnlimited k then Some d
         else let lifetimeUsed = i64 (i64 (R_ThisMonth rep + R_PastMonth rep) + R_Before rep);
                  used = (if BudgetPeriod k = Monthly then R_ThisMonth rep else lifetimeUsed);
                  remaining = max (i64 (TokenBudget k - used)) 0
              in if TokenBudget k = 0 then None
                 else let pct = min (go_div (i64 (used * 100)) (TokenBudget k)) 100
                      in Some (d\<lparr>V_HasBudget := True, V_Over := (TokenBudget k \<le> used),
                                 V_BudgetUsedLabel := comma used, V_BudgetRemainingLabel := comma remaining,
                                 V_BudgetWidth := Itoa pct @ ''%''\<rparr>))"

definition buildDetail ::
    "(int \<Rightarrow> string) \<Rightarrow> (uint \<Rightarrow> instant \<Rightarrow> instant \<Rightarrow> 'e + int) \<Rightarrow> zone \<Rightarrow> apikey \<Rightarrow> instant \<Rightarrow> 'e + detail_vm option" where
  "buildDetail comma sumf loc k now =
     (case BuildReport (ReportWindows loc now) (\<lambda>r. sumf (ID k) (From r) (To r)) of
        Inl e \<Rightarrow> Inl e
      | Inr rep \<Rightarrow> Inr (detailVM comma k rep))"

section \<open>The key list\<close>

definition defaultKeyID :: "apikey list \<Rightarrow> uint option" where
  "defaultKeyID keys =
     (if keys = [] then None
      else case find (\<lambda>k. \<not> IsRevoked k) keys of
             Some k \<Rightarrow> Some (ID k)
           | None \<Rightarrow> Some (ID (hd keys)))"

record key_list_item =
  I_ID :: uint
  I_Label :: string
  I_Href :: string
  I_Current :: bool
  I_StatusClass :: string
  I_Revoked :: bool
  I_Elevated :: bool
  I_PrioLabel :: string
  I_TodayLabel :: string
  I_Width :: string

definition key_item :: "(int \<Rightarrow> string) \<Rightarrow> apikey \<Rightarrow> bool \<Rightarrow> int \<Rightarrow> int \<Rightarrow> key_list_item" where
  "key_item comma k current today peak =
     \<lparr>I_ID = ID k, I_Label = keyLabel k, I_Href = ''/admin/keys/'' @ Itoa (int (ID k)), I_Current = current,
      I_StatusClass = statusClass k, I_Revoked = IsRevoked k, I_Elevated = (NormalPriority < Priority k),
      I_PrioLabel = priorityLabel (Priority k), I_TodayLabel = comma today, I_Width = barWidth today peak\<rparr>"

record page_vm =
  P_Model :: string
  P_TotalKeys :: int
  P_TokensTodayLabel :: string
  P_HasKeys :: bool
  P_LiveURL :: string
  P_Queue :: "queue_vm option"
  P_Keys :: "key_list_item list"
  P_Detail :: "detail_vm option"

text \<open>Each key's tokens today, stopping at the first failure.\<close>

fun today_totals ::
    "(uint \<Rightarrow> instant \<Rightarrow> instant \<Rightarrow> repo_error + int) \<Rightarrow> instant \<Rightarrow> instant \<Rightarrow> apikey list \<Rightarrow> repo_error + int list" where
  "today_totals sumf t0 now [] = Inr []"
| "today_totals sumf t0 now (k # ks) =
     (case sumf (ID k) t0 now of
        Inl e \<Rightarrow> Inl e
      | Inr n \<Rightarrow> (case today_totals sumf t0 now ks of Inl e \<Rightarrow> Inl e | Inr ns \<Rightarrow> Inr (n # ns)))"

text \<open>A page without its parts is one whose building panicked.\<close>

definition buildPage ::
    "(int \<Rightarrow> string) \<Rightarrow> (duration \<Rightarrow> string) \<Rightarrow> string \<Rightarrow> repo_error + apikey list \<Rightarrow>
     (uint \<Rightarrow> instant \<Rightarrow> instant \<Rightarrow> repo_error + int) \<Rightarrow> stats \<Rightarrow> zone \<Rightarrow> instant \<Rightarrow> uint \<Rightarrow> repo_error + page_vm" where
  "buildPage comma tenths model listed sumf st loc now selected =
     (case listed of
        Inl e \<Rightarrow> Inl e
      | Inr keys \<Rightarrow>
     case today_totals sumf (From (Today (ReportWindows loc now))) now keys of
        Inl e \<Rightarrow> Inl e
      | Inr todays \<Rightarrow>
     let maxToday = foldl max 0 todays; totalToday = foldl (\<lambda>a n. i64 (a + n)) 0 todays
     in case filter (\<lambda>k. ID k = selected) keys of
          [] \<Rightarrow> Inl ErrNotFound
        | found \<Rightarrow>
            (case buildDetail comma sumf loc (last found) now of
               Inl e \<Rightarrow> Inl e
             | Inr detail \<Rightarrow>
                 Inr \<lparr>P_Model = model, P_TotalKeys = int (length keys), P_TokensTodayLabel = comma totalToday,
                      P_HasKeys = (keys \<noteq> []), P_LiveURL = ''/admin/keys/'' @ Itoa (int selected) @ ''/live'',
                      P_Queue = buildQueue comma tenths st,
                      P_Keys = map2 (\<lambda>k n. key_item comma k (ID k = selected) n maxToday) keys todays,
                      P_Detail = detail\<rparr>))"

section \<open>The sidebar of a live stream\<close>

record sidebar_ctx =
  othersToday :: int
  peakToday :: int

fun sidebar_fold :: "uint \<Rightarrow> (apikey \<times> int) list \<Rightarrow> sidebar_ctx \<Rightarrow> sidebar_ctx" where
  "sidebar_fold keyID [] sc = sc"
| "sidebar_fold keyID ((k, today) # ks) sc =
     sidebar_fold keyID ks
       \<lparr>othersToday = (if ID k \<noteq> keyID then i64 (othersToday sc + today) else othersToday sc),
        peakToday = max (peakToday sc) today\<rparr>"

definition sidebarContext ::
    "repo_error + apikey list \<Rightarrow> (uint \<Rightarrow> instant \<Rightarrow> instant \<Rightarrow> repo_error + int) \<Rightarrow> zone \<Rightarrow> instant \<Rightarrow> uint \<Rightarrow>
     repo_error + sidebar_ctx" where
  "sidebarContext listed sumf loc now keyID =
     (case listed of
        Inl e \<Rightarrow> Inl e
      | Inr keys \<Rightarrow>
          (case today_totals sumf (From (Today (ReportWindows loc now))) now keys of
             Inl e \<Rightarrow> Inl e
           | Inr todays \<Rightarrow> Inr (sidebar_fold keyID (zip keys todays) \<lparr>othersToday = 0, peakToday = 0\<rparr>)))"

definition sidebar_row :: "(int \<Rightarrow> string) \<Rightarrow> sidebar_ctx \<Rightarrow> apikey \<Rightarrow> int \<Rightarrow> key_list_item" where
  "sidebar_row comma c k today = key_item comma k True today (max (peakToday c) today)"

definition totalLabel :: "(int \<Rightarrow> string) \<Rightarrow> sidebar_ctx \<Rightarrow> int \<Rightarrow> string" where
  "totalLabel comma c today = comma (i64 (othersToday c + today))"

section \<open>Properties\<close>

lemma detailVM_limited:
  assumes "\<not> IsUnlimited k" "TokenBudget k \<noteq> 0"
    and "(if BudgetPeriod k = Monthly then R_ThisMonth rep
          else i64 (i64 (R_ThisMonth rep + R_PastMonth rep) + R_Before rep)) = used"
  obtains d where "detailVM comma k rep = Some d" "V_HasBudget d" "V_Over d = (TokenBudget k \<le> used)"
    "V_BudgetUsedLabel d = comma used" "V_BudgetRemainingLabel d = comma (max (i64 (TokenBudget k - used)) 0)"
    "V_BudgetWidth d = Itoa (min (go_div (i64 (used * 100)) (TokenBudget k)) 100) @ ''%''"
  using assms by (simp add: detailVM_def Let_def)

lemma full_width: "0 < b \<Longrightarrow> (Itoa (min (a * 100 div b) 100) @ ''%'' = ''100%'') = (b \<le> a)"
proof -
  assume b: "0 < b"
  have hundred: "Itoa 100 @ ''%'' = ''100%''" by code_simp
  have eq: "(Itoa n @ ''%'' = ''100%'') = (n = 100)" for n
    unfolding hundred [symmetric] by (simp only: append_same_eq Itoa_inj)
  have ge: "(100 \<le> a * 100 div b) = (b \<le> a)"
  proof
    assume "100 \<le> a * 100 div b"
    then have "100 * b \<le> a * 100 div b * b" using b by (intro mult_right_mono) simp_all
    also have "\<dots> \<le> a * 100"
      using div_mult_mod_eq [of "a * 100" b] pos_mod_sign [OF b, of "a * 100"] by linarith
    finally show "b \<le> a" by simp
  next
    assume "b \<le> a"
    then have "100 * b div b \<le> a * 100 div b" using b by (intro zdiv_mono1) simp_all
    then show "100 \<le> a * 100 div b" using b by simp
  qed
  have "(min n 100 = 100) = (100 \<le> n)" for n :: int by auto
  then show ?thesis by (simp only: eq ge)
qed

text \<open>C30: the dashboard and the enforcement never disagree. For a limited key, the panel built
  from the repository at the moment the budget is checked is marked over budget exactly when requests
  are refused for money, and prints what the key has used and the remainder the checker computes. As
  long as a hundred times the spend fits an \<open>int64\<close>, the meter's width is the used share of the
  budget in whole percent, capped at 100, and it is full exactly when requests are refused.\<close>

theorem panel_matches_enforcement:
  assumes "sql_driver g K E"
    and "BuildReport (ReportWindows (fixed_zone c) now) (\<lambda>r. SumTokens g db (ID k) (From r) (To r)) = Inr rep"
    and "Status (SumTokens g db) (fixed_zone c) now k = Inr st"
    and "\<not> IsUnlimited k" and "0 < TokenBudget k" and "TokenBudget k \<le> max_i64"
    and "0 \<le> From (PastMonth (ReportWindows (fixed_zone c) now))"
    and "\<forall>e \<in> set (E db). 0 \<le> PromptTokens e"
    and "spent_in (E db) (ID k) (\<lambda>t. 0 \<le> t \<and> t < now) \<le> max_i64"
    and "used = spent_in (E db) (ID k) (\<lambda>t. period_start (fixed_zone c) now k \<le> t \<and> t < now)"
  shows "\<exists>d. detailVM comma k rep = Some d \<and> V_HasBudget d \<and> (V_Over d \<longleftrightarrow> Exhausted st) \<and>
    V_BudgetUsedLabel d = comma used \<and> V_BudgetRemainingLabel d = comma (RemainingTokens st) \<and>
    (used * 100 \<le> max_i64 \<longrightarrow>
       V_BudgetWidth d = Itoa (min (used * 100 div TokenBudget k) 100) @ ''%'' \<and>
       (V_BudgetWidth d = ''100%'' \<longleftrightarrow> Exhausted st))"
proof -
  have l: "sql_db g K E" by (rule sql_db.intro) (rule assms(1))
  let ?s = "\<lambda>P. spent_in (E db) (ID k) P" and ?w = "ReportWindows (fixed_zone c) now"
  have exact: "n = ?s (\<lambda>t. a \<le> t \<and> t < b)" if "SumTokens g db (ID k) a b = Inr n" for a b n
    using sql_driver.SumTokens_exact [OF assms(1) that] by (simp add: spent_in_def conj_assoc)
  have nonneg: "0 \<le> ?s P" for P using assms(8) by (intro spent_in_nonneg) auto
  have month: "R_ThisMonth rep = ?s (\<lambda>t. From (ThisMonth ?w) \<le> t \<and> t < now)"
    "0 \<le> R_ThisMonth rep" "0 \<le> R_PastMonth rep" "0 \<le> R_Before rep"
    using assms(2) windows_order(8) [of c now] nonneg by (auto simp: BuildReport_Inr_iff dest!: exact)
  have total: "R_ThisMonth rep + R_PastMonth rep + R_Before rep = ?s (\<lambda>t. 0 \<le> t \<and> t < now)"
    using sql_db.report_in_db [OF l assms(2,7)] .
  have wrap: "i64 (i64 (R_ThisMonth rep + R_PastMonth rep) + R_Before rep) =
      R_ThisMonth rep + R_PastMonth rep + R_Before rep"
    using total month(2-4) assms(9) by simp
  have u: "(if BudgetPeriod k = Monthly then R_ThisMonth rep
      else i64 (i64 (R_ThisMonth rep + R_PastMonth rep) + R_Before rep)) = used"
  proof (cases "BudgetPeriod k = Monthly")
    case True
    then show ?thesis by (simp add: assms(10) period_start_def month(1))
  next
    case False
    then show ?thesis using wrap total by (simp add: assms(10) period_start_def)
  qed
  have st: "Exhausted st = (TokenBudget k \<le> used) \<and> RemainingTokens st = max 0 (i64 (TokenBudget k - used))"
    using sql_db.Status_in_db [OF l assms(3,4,10)] .
  obtain d where d: "detailVM comma k rep = Some d" "V_HasBudget d" "V_Over d = (TokenBudget k \<le> used)"
    "V_BudgetUsedLabel d = comma used" "V_BudgetRemainingLabel d = comma (max (i64 (TokenBudget k - used)) 0)"
    "V_BudgetWidth d = Itoa (min (go_div (i64 (used * 100)) (TokenBudget k)) 100) @ ''%''"
    by (rule detailVM_limited [OF assms(4) _ u, of comma]) (use assms(5) in simp_all)
  have "V_BudgetWidth d = Itoa (min (used * 100 div TokenBudget k) 100) @ ''%''" if "used * 100 \<le> max_i64"
  proof -
    have "0 \<le> used" unfolding assms(10) by (rule nonneg)
    with that assms(5) show ?thesis by (simp add: d(6) go_div_nonneg)
  qed
  with d(1-5) st full_width [OF assms(5), of used] show ?thesis by (simp add: max.commute)
qed

theorem panel_matches_enforcement_witness:
  "\<exists>d. detailVM Itoa (lifetime_key 200) (\<lparr>R_Today = 100, R_ThisWeek = 100, R_ThisMonth = 150,
      R_PastMonth = 30, R_Before = 20\<rparr>) = Some d \<and> V_Over d \<and> V_BudgetRemainingLabel d = Itoa 0 \<and>
      V_BudgetUsedLabel d = Itoa 200 \<and> V_BudgetWidth d = ''100%''"
proof -
  let ?k = "lifetime_key 200"
  have k: "\<not> IsUnlimited ?k" "0 < TokenBudget ?k" "TokenBudget ?k \<le> max_i64" "ID ?k = 1"
    by (simp_all add: IsUnlimited_def Unlimited_def lifetime_key_def sample_key_def)
  note rep = july_report [folded k(4)]
  have st: "Status (SumTokens mem_driver july_db) (fixed_zone 0) july_now ?k = Inr \<lparr>Exhausted = True, RemainingTokens = 0\<rparr>"
    by code_simp
  have "0 \<le> From (PastMonth (ReportWindows (fixed_zone 0) july_now))" by code_simp
  moreover have "\<forall>e \<in> set (mem_events july_db). 0 \<le> PromptTokens e"
    by (simp add: july_db_def usage_event_def)
  moreover have used: "spent_in (mem_events july_db) (ID ?k) (\<lambda>t. 0 \<le> t \<and> t < july_now) = 200"
  proof -
    have "SumTokens mem_driver july_db 1 0 july_now = Inr 200" by code_simp
    from mem.SumTokens_exact [OF this] show ?thesis by (simp add: spent_in_def k(4) conj_assoc)
  qed
  moreover have "200 = spent_in (mem_events july_db) (ID ?k)
      (\<lambda>t. period_start (fixed_zone 0) july_now ?k \<le> t \<and> t < july_now)"
    using used by (simp add: period_start_def lifetime_key_def Lifetime_def Monthly_def)
  ultimately show ?thesis
    using panel_matches_enforcement [OF mem.sql_driver_axioms rep st k(1-3), of 200 Itoa] by auto
qed

text \<open>Beyond that the product wraps: a budget of \<open>10 ^ 17\<close> tokens, all of it spent, is over, and its
  meter's width is negative.\<close>

lemma meter_wraps:
  "map_option (\<lambda>d. (V_Over d, V_BudgetWidth d)) (detailVM (\<lambda>n. '''') (lifetime_key 100000000000000000)
     \<lparr>R_Today = 0, R_ThisWeek = 0, R_ThisMonth = 0, R_PastMonth = 0, R_Before = 100000000000000000\<rparr>) =
   Some (True, ''-84%'')"
  by code_simp

lemma busy_slots_count:
  "0 \<le> n \<Longrightarrow> n \<le> cap \<Longrightarrow> \<exists>xs. busy_slots cap n = Some xs \<and> int (length xs) = cap \<and>
     int (length (filter id xs)) = n"
  by (auto simp: busy_slots_def)

text \<open>The queue strip can always be drawn. In every reachable state the snapshot's slots fit
  the strip, so that no index is out of range, one block per slot is drawn, and as many are
  lit as requests own slots.\<close>

theorem queue_strip_drawn:
  assumes "reachable cap after s" and "after \<le> max_i64" and "key_order ord (que s)"
    and "Stats ord now (que s) = Some st"
  shows "\<exists>vm. buildQueue comma tenths st = Some vm \<and> int (length (Q_Slots vm)) = cap \<and>
    int (length (filter id (Q_Slots vm))) = count_phase busy s \<and>
    (Q_Saturated vm \<longleftrightarrow> free (que s) = 0) \<and>
    (Q_Idle vm \<longleftrightarrow> count_phase busy s = 0 \<and> count_phase parked s = 0)"
proof -
  note ok = reachable_ok [OF assms(1,2)]
  note qok = sys_okD(1) [OF ok]
  have f: "Capacity st = cap" "InFlight st = count_phase busy s" "Waiting st = count_phase parked s"
    "0 \<le> count_phase busy s" "count_phase busy s \<le> cap" "1 \<le> cap" "count_phase busy s = cap - free (que s)"
    using assms(4) reachable_capacity [OF assms(1,2)] sys_okD(3) [OF ok] queue_okD(1-3) [OF qok]
      card_parked [OF ok] queue_okD(8) [OF qok]
    by (auto simp: Stats_def count_phase_def split: Option.bind_splits)
  obtain xs where "busy_slots cap (count_phase busy s) = Some xs" "int (length xs) = cap"
    "int (length (filter id xs)) = count_phase busy s"
    using busy_slots_count [OF f(4,5)] by blast
  with f show ?thesis by (auto simp: buildQueue_def Let_def)
qed

theorem queue_strip_drawn_witness:
  "case Stats [1, 5] (10 * second) (que demo_sys) of
     None \<Rightarrow> False
   | Some st \<Rightarrow> \<exists>vm. buildQueue Itoa Itoa st = Some vm \<and> length (Q_Slots vm) = 1"
proof -
  let ?r = "Stats [1, 5] (10 * second) (que demo_sys)"
  have "case ?r of None \<Rightarrow> False | Some st \<Rightarrow> True" by code_simp
  then obtain st where st: "?r = Some st" by (cases ?r) auto
  from queue_strip_drawn [OF demo_sys_reachable five_seconds demo_order st, of Itoa Itoa]
  have "\<exists>vm. buildQueue Itoa Itoa st = Some vm \<and> length (Q_Slots vm) = 1" by auto
  then show ?thesis unfolding st option.case .
qed

end
