(* ===== verification/Live.thy ===== *)
theory Live
  imports Usage Store
begin

text \<open>
  The dashboard's read side (src/internal/live/): one actor per watched key, its viewers, and the
  recorder that feeds it. The heap of goroutines is explicit: \<open>actors\<close> and \<open>viewers\<close> are
  the objects ever made, named by their positions, and an event is one critical section of a
  mutex, one send to a channel or one case of a \<open>select\<close>. Events of different goroutines interleave freely.
\<close>

section \<open>Data\<close>

record snapshot =
  SN_KeyID :: uint
  SN_Report :: report
  SN_At :: instant

text \<open>Where the actor's goroutine stands: about to reload, about to publish, in the \<open>select\<close>
  with its report, or returned.\<close>

datatype actor_pc = A_Reload | A_Publish report | A_Select report | A_Exited

text \<open>\<open>ka_ctx\<close> is the viewer whose request context the goroutine was started with, \<open>finished\<close>
  whether \<open>done\<close> is closed.\<close>

record key_actor =
  ka_key :: uint
  ka_ctx :: nat
  credits :: "int list"
  finished :: bool
  subs :: "nat set"
  latest :: snapshot
  primed :: bool
  pc :: actor_pc

text \<open>A subscription: its channel's buffer, what was received from it, and whether it has been
  primed, its request context has ended, and its cancel function has been called.\<close>

record viewer =
  vw_key :: uint
  vw_actor :: nat
  vw_chan :: "snapshot list"
  vw_seen :: "snapshot list"
  vw_primed :: bool
  vw_gone :: bool
  vw_left :: bool

text \<open>\<open>notices\<close> are the calls of \<open>Publish\<close> under way: the actor each has found under the hub's lock, and
  the tokens it has yet to send it.\<close>

record hub =
  keys :: "uint \<rightharpoonup> nat"
  actors :: "key_actor list"
  viewers :: "viewer list"
  notices :: "(nat \<times> int) list"

definition NewHub :: hub where
  "NewHub = \<lparr>keys = Map.empty, actors = [], viewers = [], notices = []\<rparr>"

definition DefaultResync :: duration where
  "DefaultResync = 30 * second"

section \<open>Buffered channels\<close>

definition try_send :: "nat \<Rightarrow> 'a \<Rightarrow> 'a list \<Rightarrow> bool \<times> 'a list" where
  "try_send cap x buf = (if length buf < cap then (True, buf @ [x]) else (False, buf))"

fun try_recv :: "'a list \<Rightarrow> 'a option \<times> 'a list" where
  "try_recv [] = (None, [])"
| "try_recv (x # xs) = (Some x, xs)"

text \<open>The three selects of \<open>send\<close>. \<open>taken\<close>: the reader empties the buffer between the first and the
  second. The result is the buffer and what the reader took.\<close>

definition send :: "bool \<Rightarrow> snapshot \<Rightarrow> snapshot list \<Rightarrow> snapshot list \<times> snapshot list" where
  "send taken snap buf =
     (let (ok, b1) = try_send 1 snap buf
      in if ok then (b1, [])
         else let b2 = (if taken then snd (try_recv b1) else b1);
                  got = (if taken then (case fst (try_recv b1) of None \<Rightarrow> [] | Some s \<Rightarrow> [s]) else []);
                  b3 = snd (try_recv b2)
              in (snd (try_send 1 snap b3), got))"

lemma send_full: "length buf \<le> 1 \<Longrightarrow> fst (send taken snap buf) = [snap]"
  by (cases buf) (auto simp: send_def try_send_def)

lemma send_got: "snd (send taken snap buf) \<noteq> [] \<Longrightarrow> snd (send taken snap buf) = [hd buf] \<and> buf \<noteq> []"
  by (cases buf) (auto simp: send_def try_send_def Let_def split: if_splits)

section \<open>The actor\<close>

definition zero_report :: report where
  "zero_report = \<lparr>R_Today = 0, R_ThisWeek = 0, R_ThisMonth = 0, R_PastMonth = 0, R_Before = 0\<rparr>"

definition newKeyActor :: "uint \<Rightarrow> nat \<Rightarrow> key_actor" where
  "newKeyActor k ctx =
     \<lparr>ka_key = k, ka_ctx = ctx, credits = [], finished = False, subs = {},
      latest = \<lparr>SN_KeyID = 0, SN_Report = zero_report, SN_At = 0\<rparr>, primed = False, pc = A_Reload\<rparr>"

abbreviation set_actor :: "nat \<Rightarrow> key_actor \<Rightarrow> hub \<Rightarrow> hub" where
  "set_actor a x h \<equiv> h\<lparr>actors := (actors h)[a := x]\<rparr>"

abbreviation set_viewer :: "nat \<Rightarrow> viewer \<Rightarrow> hub \<Rightarrow> hub" where
  "set_viewer v w h \<equiv> h\<lparr>viewers := (viewers h)[v := w]\<rparr>"

definition deliver :: "bool \<Rightarrow> snapshot \<Rightarrow> viewer \<Rightarrow> viewer" where
  "deliver taken snap w =
     (let (buf, got) = send taken snap (vw_chan w)
      in w\<lparr>vw_chan := buf, vw_seen := vw_seen w @ got\<rparr>)"

text \<open>\<open>taken\<close> says which viewers read while the fan-out passes them.\<close>

definition publish :: "(nat \<Rightarrow> bool) \<Rightarrow> instant \<Rightarrow> nat \<Rightarrow> report \<Rightarrow> hub \<Rightarrow> hub" where
  "publish taken now a rep h =
     (let x = actors h ! a;
          snap = \<lparr>SN_KeyID = ka_key x, SN_Report = rep, SN_At = now\<rparr>
      in h\<lparr>actors := (actors h)[a := x\<lparr>latest := snap, primed := True, pc := A_Select rep\<rparr>],
           viewers := map (\<lambda>v. if v \<in> subs x then deliver (taken v) snap (viewers h ! v) else viewers h ! v)
                        [0..<length (viewers h)]\<rparr>)"

definition reload :: "'e + report \<Rightarrow> key_actor \<Rightarrow> report" where
  "reload loaded x = (case loaded of Inl _ \<Rightarrow> SN_Report (latest x) | Inr rep \<Rightarrow> rep)"

definition apply_credit :: "int \<Rightarrow> report \<Rightarrow> report" where
  "apply_credit n rep =
     rep\<lparr>R_Today := i64 (R_Today rep + n), R_ThisWeek := i64 (R_ThisWeek rep + n),
         R_ThisMonth := i64 (R_ThisMonth rep + n)\<rparr>"

definition addSub :: "nat \<Rightarrow> nat \<Rightarrow> hub \<Rightarrow> hub" where
  "addSub a v h = set_actor a ((actors h ! a)\<lparr>subs := insert v (subs (actors h ! a))\<rparr>) h"

definition primeSub :: "bool \<Rightarrow> nat \<Rightarrow> nat \<Rightarrow> hub \<Rightarrow> hub" where
  "primeSub taken a v h =
     (let w = viewers h ! v; x = actors h ! a
      in set_viewer v ((if primed x then deliver taken (latest x) w else w)\<lparr>vw_primed := True\<rparr>) h)"

definition removeSub :: "nat \<Rightarrow> nat \<Rightarrow> hub \<Rightarrow> hub" where
  "removeSub a v h = set_actor a ((actors h ! a)\<lparr>subs := subs (actors h ! a) - {v}\<rparr>) h"

definition credit_capacity :: nat where
  "credit_capacity = 64"

definition credit :: "nat \<Rightarrow> int \<Rightarrow> hub \<Rightarrow> hub" where
  "credit a n h =
     set_actor a ((actors h ! a)\<lparr>credits := snd (try_send credit_capacity n (credits (actors h ! a)))\<rparr>) h"

definition stop :: "nat \<Rightarrow> hub \<Rightarrow> hub" where
  "stop a h = set_actor a ((actors h ! a)\<lparr>finished := True\<rparr>) h"

section \<open>The hub\<close>

text \<open>The part of \<open>Subscribe\<close> under the hub's lock; \<open>primeSub\<close> follows as a step of its own.\<close>

definition Subscribe :: "uint \<Rightarrow> hub \<Rightarrow> hub" where
  "Subscribe k h =
     (let v = length (viewers h);
          (a, h1) = (case keys h k of
                       Some a \<Rightarrow> (a, h)
                     | None \<Rightarrow> (length (actors h),
                         h\<lparr>keys := (keys h)(k \<mapsto> length (actors h)), actors := actors h @ [newKeyActor k v]\<rparr>))
      in addSub a v (h1\<lparr>viewers := viewers h1 @ [\<lparr>vw_key = k, vw_actor = a, vw_chan = [], vw_seen = [],
           vw_primed = False, vw_gone = False, vw_left = False\<rparr>]\<rparr>))"

definition unsubscribe :: "uint \<Rightarrow> nat \<Rightarrow> hub \<Rightarrow> hub" where
  "unsubscribe k v h =
     (case keys h k of
        None \<Rightarrow> h
      | Some a \<Rightarrow>
          (let h1 = removeSub a v h
           in if subs (actors h1 ! a) = {} then stop a (h1\<lparr>keys := (keys h1)(k := None)\<rparr>) else h1))"

text \<open>The cancel function \<open>Subscribe\<close> returns; \<open>vw_left\<close> is its \<open>sync.Once\<close>.\<close>

definition cancel_sub :: "nat \<Rightarrow> hub \<Rightarrow> hub" where
  "cancel_sub v h =
     (let w = viewers h ! v
      in if vw_left w then h else unsubscribe (vw_key w) v (set_viewer v (w\<lparr>vw_left := True\<rparr>) h))"

text \<open>\<open>Publish\<close> looks the actor up under the hub's lock and sends to its channel after giving the lock
  up; in between, other goroutines run. \<open>Publish\<close> itself is a call that is not interrupted.\<close>

definition Publish_lookup :: "uint \<Rightarrow> int \<Rightarrow> hub \<Rightarrow> hub" where
  "Publish_lookup k n h = (case keys h k of None \<Rightarrow> h | Some a \<Rightarrow> h\<lparr>notices := notices h @ [(a, n)]\<rparr>)"

definition Publish_send :: "nat \<Rightarrow> hub \<Rightarrow> hub" where
  "Publish_send i h =
     (let (a, n) = notices h ! i in credit a n (h\<lparr>notices := take i (notices h) @ drop (Suc i) (notices h)\<rparr>))"

definition Publish :: "uint \<Rightarrow> int \<Rightarrow> hub \<Rightarrow> hub" where
  "Publish k n h =
     (let h1 = Publish_lookup k n h
      in if keys h k = None then h1 else Publish_send (length (notices h)) h1)"

definition Watching :: "hub \<Rightarrow> nat" where
  "Watching h = card (dom (keys h))"

text \<open>The recorder writes first and notifies after a success only.\<close>

definition Recorder_Record ::
    "('db \<Rightarrow> Usage.event \<Rightarrow> 'e option \<times> 'db) \<Rightarrow> Usage.event \<Rightarrow> 'db \<times> hub \<Rightarrow> 'e option \<times> 'db \<times> hub" where
  "Recorder_Record next e s =
     (case next (fst s) e of
        (Some err, db) \<Rightarrow> (Some err, db, snd s)
      | (None, db) \<Rightarrow> (None, db, Publish (APIKeyID e) (PromptTokens e) (snd s)))"

text \<open>The loader the composition root hands to the hub.\<close>

definition hub_load :: "'db driver \<Rightarrow> zone \<Rightarrow> 'db \<Rightarrow> uint \<Rightarrow> instant \<Rightarrow> repo_error + report" where
  "hub_load g loc db k now = BuildReport (ReportWindows loc now) (\<lambda>r. SumTokens g db k (From r) (To r))"

section \<open>Steps\<close>

datatype live_event =
    Join uint | Prime bool nat | Leave nat | HangUp nat | Receive nat
  | Notify uint int | Credit nat
  | Loaded nat "repo_error + report" | Fan nat "nat \<Rightarrow> bool" | TakeCredit nat | Tick nat
  | SeeDone nat | SeeCtx nat

text \<open>None: the event is not possible.\<close>

fun live_fire :: "instant \<Rightarrow> live_event \<Rightarrow> hub \<Rightarrow> hub option" where
  "live_fire now (Join k) h = Some (Subscribe k h)"
| "live_fire now (Prime taken v) h =
     (if v < length (viewers h) \<and> \<not> vw_primed (viewers h ! v)
      then Some (primeSub taken (vw_actor (viewers h ! v)) v h) else None)"
| "live_fire now (Leave v) h =
     (if v < length (viewers h) \<and> vw_primed (viewers h ! v) then Some (cancel_sub v h) else None)"
| "live_fire now (HangUp v) h =
     (if v < length (viewers h) then Some (set_viewer v ((viewers h ! v)\<lparr>vw_gone := True\<rparr>) h) else None)"
| "live_fire now (Receive v) h =
     (if v < length (viewers h)
      then (case try_recv (vw_chan (viewers h ! v)) of
              (None, _) \<Rightarrow> None
            | (Some s, buf) \<Rightarrow> Some (set_viewer v ((viewers h ! v)\<lparr>vw_chan := buf, vw_seen := vw_seen (viewers h ! v) @ [s]\<rparr>) h))
      else None)"
| "live_fire now (Notify k n) h = Some (Publish_lookup k n h)"
| "live_fire now (Credit i) h = (if i < length (notices h) then Some (Publish_send i h) else None)"
| "live_fire now (Loaded a r) h =
     (if a < length (actors h) \<and> pc (actors h ! a) = A_Reload
      then Some (set_actor a ((actors h ! a)\<lparr>pc := A_Publish (reload r (actors h ! a))\<rparr>) h) else None)"
| "live_fire now (Fan a taken) h =
     (if a < length (actors h)
      then (case pc (actors h ! a) of A_Publish rep \<Rightarrow> Some (publish taken now a rep h) | _ \<Rightarrow> None) else None)"
| "live_fire now (TakeCredit a) h =
     (if a < length (actors h)
      then (case (pc (actors h ! a), try_recv (credits (actors h ! a))) of
              (A_Select rep, Some n, cs) \<Rightarrow>
                Some (set_actor a ((actors h ! a)\<lparr>credits := cs, pc := A_Publish (apply_credit n rep)\<rparr>) h)
            | _ \<Rightarrow> None) else None)"
| "live_fire now (Tick a) h =
     (if a < length (actors h)
      then (case pc (actors h ! a) of A_Select rep \<Rightarrow> Some (set_actor a ((actors h ! a)\<lparr>pc := A_Reload\<rparr>) h) | _ \<Rightarrow> None)
      else None)"
| "live_fire now (SeeDone a) h =
     (if a < length (actors h) \<and> finished (actors h ! a)
      then (case pc (actors h ! a) of A_Select rep \<Rightarrow> Some (set_actor a ((actors h ! a)\<lparr>pc := A_Exited\<rparr>) h) | _ \<Rightarrow> None)
      else None)"
| "live_fire now (SeeCtx a) h =
     (if a < length (actors h) \<and> vw_gone (viewers h ! ka_ctx (actors h ! a))
      then (case pc (actors h ! a) of A_Select rep \<Rightarrow> Some (set_actor a ((actors h ! a)\<lparr>pc := A_Exited\<rparr>) h) | _ \<Rightarrow> None)
      else None)"

text \<open>A run: each event with its clock reading.\<close>

fun live_run :: "(instant \<times> live_event) list \<Rightarrow> hub \<Rightarrow> hub option" where
  "live_run [] h = Some h"
| "live_run ((t, e) # es) h = (case live_fire t e h of None \<Rightarrow> None | Some h' \<Rightarrow> live_run es h')"

definition live_reachable :: "hub \<Rightarrow> bool" where
  "live_reachable h \<longleftrightarrow> (\<exists>es. live_run es NewHub = Some h)"

section \<open>The invariant\<close>

text \<open>An actor is registered until its last viewer leaves; its subscribers are its viewers that
  have not left.\<close>

definition watched_by :: "hub \<Rightarrow> nat \<Rightarrow> nat set" where
  "watched_by h a = {v. v < length (viewers h) \<and> vw_actor (viewers h ! v) = a \<and> \<not> vw_left (viewers h ! v)}"

definition actor_ok :: "hub \<Rightarrow> nat \<Rightarrow> key_actor \<Rightarrow> bool" where
  "actor_ok h a x \<longleftrightarrow> length (credits x) \<le> credit_capacity \<and> subs x = watched_by h a \<and>
     (finished x \<longleftrightarrow> subs x = {}) \<and> (keys h (ka_key x) = Some a \<longleftrightarrow> \<not> finished x) \<and>
     (primed x \<longrightarrow> SN_KeyID (latest x) = ka_key x)"

definition current :: "key_actor \<Rightarrow> viewer \<Rightarrow> bool" where
  "current x w \<longleftrightarrow> (vw_chan w \<noteq> [] \<longrightarrow> vw_chan w = [latest x]) \<and>
     (primed x \<and> vw_primed w \<and> vw_chan w = [] \<longrightarrow> vw_seen w \<noteq> [] \<and> last (vw_seen w) = latest x)"

definition viewer_ok :: "hub \<Rightarrow> viewer \<Rightarrow> bool" where
  "viewer_ok h w \<longleftrightarrow> vw_actor w < length (actors h) \<and> ka_key (actors h ! vw_actor w) = vw_key w \<and>
     length (vw_chan w) \<le> 1 \<and> (\<forall>s \<in> set (vw_seen w @ vw_chan w). SN_KeyID s = vw_key w) \<and>
     (\<not> vw_left w \<longrightarrow> current (actors h ! vw_actor w) w)"

definition hub_ok :: "hub \<Rightarrow> bool" where
  "hub_ok h \<longleftrightarrow>
     (\<forall>k a. keys h k = Some a \<longrightarrow> a < length (actors h) \<and> ka_key (actors h ! a) = k) \<and>
     (\<forall>a < length (actors h). actor_ok h a (actors h ! a)) \<and>
     (\<forall>v < length (viewers h). viewer_ok h (viewers h ! v))"

lemma hub_okD:
  assumes "hub_ok h"
  shows "keys h k = Some a \<Longrightarrow> a < length (actors h) \<and> ka_key (actors h ! a) = k"
    and "a < length (actors h) \<Longrightarrow> actor_ok h a (actors h ! a)"
    and "v < length (viewers h) \<Longrightarrow> viewer_ok h (viewers h ! v)"
  using assms by (auto simp: hub_ok_def)

lemma hub_ok_New: "hub_ok NewHub"
  by (simp add: hub_ok_def NewHub_def)

text \<open>A change of one actor that keeps what the others rely on.\<close>

lemma hub_ok_set_actor:
  assumes "hub_ok h" "a < length (actors h)" "length (credits x) \<le> credit_capacity"
    and "ka_key x = ka_key (actors h ! a)" "subs x = subs (actors h ! a)"
    and "finished x = finished (actors h ! a)" "latest x = latest (actors h ! a)"
    and "primed x = primed (actors h ! a)"
  shows "hub_ok (set_actor a x h)"
  using assms by (simp add: hub_ok_def actor_ok_def viewer_ok_def watched_by_def current_def nth_list_update)

lemma hub_ok_set_viewer:
  assumes "hub_ok h" "v < length (viewers h)"
    and "vw_key w = vw_key (viewers h ! v)" "vw_actor w = vw_actor (viewers h ! v)"
    and "vw_left w = vw_left (viewers h ! v)" "length (vw_chan w) \<le> 1"
    and "\<forall>s \<in> set (vw_seen w @ vw_chan w). SN_KeyID s = vw_key w"
    and "\<not> vw_left w \<longrightarrow> current (actors h ! vw_actor w) w"
  shows "hub_ok (set_viewer v w h)"
proof -
  have "watched_by (set_viewer v w h) a = watched_by h a" for a
    using assms(2,4,5) by (auto simp: watched_by_def nth_list_update)
  then show ?thesis
    using assms hub_okD(3) [OF assms(1,2)]
    by (simp add: hub_ok_def actor_ok_def viewer_ok_def nth_list_update)
qed

lemma deliver_fields [simp]:
  "vw_key (deliver t s w) = vw_key w" "vw_actor (deliver t s w) = vw_actor w"
  "vw_left (deliver t s w) = vw_left w" "vw_primed (deliver t s w) = vw_primed w"
  "vw_gone (deliver t s w) = vw_gone w"
  by (simp_all add: deliver_def split_beta Let_def)

lemma deliver_chan: "length (vw_chan w) \<le> 1 \<Longrightarrow> vw_chan (deliver t s w) = [s]"
  by (simp add: deliver_def split_beta Let_def send_full)

lemma deliver_seen:
  "set (vw_seen (deliver t s w)) \<subseteq> set (vw_seen w @ vw_chan w)"
  using send_got [of t s "vw_chan w"] by (cases "snd (send t s (vw_chan w)) = []") (auto simp: deliver_def split_beta Let_def)

lemma hub_ok_publish:
  assumes ok: "hub_ok h" and a: "a < length (actors h)"
  shows "hub_ok (publish taken now a rep h)"
proof -
  let ?h = "publish taken now a rep h" and ?x = "actors h ! a"
  define snap where "snap = \<lparr>SN_KeyID = ka_key ?x, SN_Report = rep, SN_At = now\<rparr>"
  have len [simp]: "length (viewers ?h) = length (viewers h)" "length (actors ?h) = length (actors h)"
    by (simp_all add: publish_def Let_def)
  have keys: "keys ?h = keys h" by (simp add: publish_def Let_def)
  have act: "actors ?h ! b = (if b = a then ?x\<lparr>latest := snap, primed := True, pc := A_Select rep\<rparr> else actors h ! b)"
    if "b < length (actors h)" for b
    using that a by (simp add: publish_def Let_def snap_def nth_list_update)
  have view: "viewers ?h ! v = (if v \<in> subs ?x then deliver (taken v) snap (viewers h ! v) else viewers h ! v)"
    if "v < length (viewers h)" for v
    using that by (simp add: publish_def Let_def snap_def)
  have watched: "watched_by ?h b = watched_by h b" for b
    by (auto simp: watched_by_def view split: if_splits)
  have sub: "v \<in> subs ?x \<longleftrightarrow> vw_actor (viewers h ! v) = a \<and> \<not> vw_left (viewers h ! v)"
    if "v < length (viewers h)" for v
    using hub_okD(2) [OF ok a] that by (simp add: actor_ok_def watched_by_def)
  have "viewer_ok ?h (viewers ?h ! v)" if v: "v < length (viewers h)" for v
  proof -
    note w = hub_okD(3) [OF ok v, unfolded viewer_ok_def]
    show ?thesis
    proof (cases "v \<in> subs ?x")
      case True
      then have "vw_actor (viewers h ! v) = a" using sub [OF v] by simp
      with True w a deliver_seen [of "taken v" snap "viewers h ! v"] show ?thesis
        by (auto simp: viewer_ok_def view [OF v] act deliver_chan current_def) (auto simp: snap_def)
    next
      case False
      with w sub [OF v] show ?thesis
        by (auto simp: viewer_ok_def view [OF v] act)
    qed
  qed
  moreover have "actor_ok ?h b (actors ?h ! b)" if b: "b < length (actors h)" for b
    using hub_okD(2) [OF ok b] b by (cases "b = a") (auto simp: actor_ok_def act watched keys snap_def)
  ultimately show ?thesis
    using hub_okD(1) [OF ok] by (auto simp: hub_ok_def keys act)
qed

lemma hub_ok_prime:
  assumes ok: "hub_ok h" and v: "v < length (viewers h)"
  shows "hub_ok (primeSub taken (vw_actor (viewers h ! v)) v h)"
proof -
  let ?w = "viewers h ! v"
  let ?x = "actors h ! vw_actor ?w"
  note w = hub_okD(3) [OF ok v, unfolded viewer_ok_def]
  have key: "primed ?x \<Longrightarrow> SN_KeyID (latest ?x) = vw_key ?w"
    using w hub_okD(2) [OF ok, of "vw_actor ?w"] by (simp add: actor_ok_def)
  show ?thesis
  proof (cases "primed ?x")
    case True
    have "hub_ok (set_viewer v ((deliver taken (latest ?x) ?w)\<lparr>vw_primed := True\<rparr>) h)"
      using w key [OF True] deliver_seen [of taken "latest ?x" ?w]
      by (intro hub_ok_set_viewer [OF ok v]) (auto simp: deliver_chan current_def)
    with True show ?thesis by (simp add: primeSub_def Let_def)
  next
    case False
    have "hub_ok (set_viewer v (?w\<lparr>vw_primed := True\<rparr>) h)"
      using w False by (intro hub_ok_set_viewer [OF ok v]) (auto simp: current_def)
    with False show ?thesis by (simp add: primeSub_def Let_def)
  qed
qed

lemma hub_ok_receive:
  assumes ok: "hub_ok h" and v: "v < length (viewers h)" and r: "try_recv (vw_chan (viewers h ! v)) = (Some s, buf)"
  shows "hub_ok (set_viewer v ((viewers h ! v)\<lparr>vw_chan := buf, vw_seen := vw_seen (viewers h ! v) @ [s]\<rparr>) h)"
proof -
  note w = hub_okD(3) [OF ok v, unfolded viewer_ok_def]
  have c: "vw_chan (viewers h ! v) = s # buf" using r by (cases "vw_chan (viewers h ! v)") auto
  show ?thesis
    using w c by (intro hub_ok_set_viewer [OF ok v]) (auto simp: current_def)
qed

lemma hub_ok_notes [simp]: "hub_ok (h\<lparr>notices := ns\<rparr>) = hub_ok h"
  by (simp add: hub_ok_def actor_ok_def viewer_ok_def watched_by_def)

lemma hub_ok_credit: "hub_ok h \<Longrightarrow> hub_ok (credit a n h)"
proof (cases "a < length (actors h)")
  case True
  assume "hub_ok h"
  with True show ?thesis
    unfolding credit_def by (intro hub_ok_set_actor) (auto simp: try_send_def actor_ok_def dest: hub_okD(2))
next
  case False
  then have "credit a n h = h" by (cases h) (simp add: credit_def list_update_beyond)
  then show "hub_ok h \<Longrightarrow> hub_ok (credit a n h)" by simp
qed

lemma hub_ok_Publish:
  "hub_ok h \<Longrightarrow> hub_ok (Publish_lookup k n h)" "hub_ok h \<Longrightarrow> hub_ok (Publish_send i h)"
  by (auto simp: Publish_lookup_def Publish_send_def hub_ok_credit split: option.split prod.split)

text \<open>Uninterrupted, a call credits the actor it found.\<close>

lemma Publish_credits: "Publish k n h = (case keys h k of None \<Rightarrow> h | Some a \<Rightarrow> credit a n h)"
  by (simp add: Publish_def Publish_lookup_def Publish_send_def credit_def split: option.split)

text \<open>Joining: a fresh viewer, and a fresh actor when the key has none.\<close>

lemma hub_ok_Subscribe:
  assumes ok: "hub_ok h"
  shows "hub_ok (Subscribe k h)"
proof -
  let ?v = "length (viewers h)"
  let ?w = "\<lambda>a. \<lparr>vw_key = k, vw_actor = a, vw_chan = [], vw_seen = [], vw_primed = False, vw_gone = False, vw_left = False\<rparr>"
  have old: "v < length (viewers h) \<Longrightarrow> vw_actor (viewers h ! v) < length (actors h)" for v
    using hub_okD(3) [OF ok] by (simp add: viewer_ok_def)
  show ?thesis
  proof (cases "keys h k")
    case (Some a)
    let ?x = "(actors h ! a)\<lparr>subs := insert ?v (subs (actors h ! a))\<rparr>"
    have h: "Subscribe k h = h\<lparr>viewers := viewers h @ [?w a], actors := (actors h)[a := ?x]\<rparr>"
      using Some by (simp add: Subscribe_def addSub_def Let_def)
    have a: "a < length (actors h)" "ka_key (actors h ! a) = k" using hub_okD(1) [OF ok Some] by auto
    have watched: "watched_by (Subscribe k h) b = (if b = a then insert ?v (watched_by h a) else watched_by h b)" for b
      unfolding h by (auto simp: watched_by_def nth_append less_Suc_eq)
    have "actor_ok (Subscribe k h) b (actors (Subscribe k h) ! b)" if "b < length (actors h)" for b
      using hub_okD(2) [OF ok that] hub_okD(2) [OF ok a(1)] a that Some
      unfolding actor_ok_def watched by (auto simp: h nth_list_update)
    moreover have "viewer_ok (Subscribe k h) (viewers (Subscribe k h) ! v)" if "v < Suc (length (viewers h))" for v
      using hub_okD(3) [OF ok, of v] a that
      by (auto simp: h viewer_ok_def nth_append current_def nth_list_update less_Suc_eq)
    ultimately show ?thesis
      using hub_okD(1) [OF ok] a by (auto simp: hub_ok_def h nth_list_update)
  next
    case None
    let ?a = "length (actors h)"
    let ?x = "(newKeyActor k ?v)\<lparr>subs := {?v}\<rparr>"
    have h: "Subscribe k h = h\<lparr>keys := (keys h)(k \<mapsto> ?a), viewers := viewers h @ [?w ?a], actors := actors h @ [?x]\<rparr>"
      using None by (simp add: Subscribe_def addSub_def Let_def newKeyActor_def list_update_append)
    have watched: "watched_by (Subscribe k h) b = (if b = ?a then {?v} else watched_by h b)" for b
      unfolding h using old by (auto simp: watched_by_def nth_append less_Suc_eq dest: old)
    have "actor_ok (Subscribe k h) b (actors (Subscribe k h) ! b)" if "b < Suc (length (actors h))" for b
      using hub_okD(2) [OF ok, of b] that None
      unfolding actor_ok_def watched by (auto simp: h nth_append newKeyActor_def less_Suc_eq)
    moreover have "viewer_ok (Subscribe k h) (viewers (Subscribe k h) ! v)" if "v < Suc (length (viewers h))" for v
      using hub_okD(3) [OF ok, of v] that
      by (auto simp: h viewer_ok_def nth_append current_def less_Suc_eq newKeyActor_def)
    ultimately show ?thesis
      using hub_okD(1) [OF ok] by (auto simp: hub_ok_def h nth_append newKeyActor_def less_Suc_eq)
  qed
qed

text \<open>A viewer that has not left finds its own actor in the map.\<close>

lemma actor_registered:
  assumes ok: "hub_ok h" and v: "v < length (viewers h)" "\<not> vw_left (viewers h ! v)"
  shows "keys h (vw_key (viewers h ! v)) = Some (vw_actor (viewers h ! v))"
    and "v \<in> subs (actors h ! vw_actor (viewers h ! v))"
    and "vw_actor (viewers h ! v) < length (actors h)"
proof -
  note w = hub_okD(3) [OF ok v(1), unfolded viewer_ok_def]
  then have x: "actor_ok h (vw_actor (viewers h ! v)) (actors h ! vw_actor (viewers h ! v))"
    using hub_okD(2) [OF ok] by simp
  show "v \<in> subs (actors h ! vw_actor (viewers h ! v))"
    using x v by (simp add: actor_ok_def watched_by_def)
  with x w show "keys h (vw_key (viewers h ! v)) = Some (vw_actor (viewers h ! v))"
    by (auto simp: actor_ok_def)
  from w show "vw_actor (viewers h ! v) < length (actors h)" by simp
qed

text \<open>What the cancel function leaves, for a viewer that has not left.\<close>

definition unsubscribed :: "nat \<Rightarrow> nat \<Rightarrow> hub \<Rightarrow> hub" where
  "unsubscribed a v h =
     (let rest = subs (actors h ! a) - {v}
      in h\<lparr>keys := (if rest = {} then (keys h)(vw_key (viewers h ! v) := None) else keys h),
           actors := (actors h)[a := (if rest = {} then (actors h ! a)\<lparr>subs := rest, finished := True\<rparr>
                                     else (actors h ! a)\<lparr>subs := rest\<rparr>)],
           viewers := (viewers h)[v := (viewers h ! v)\<lparr>vw_left := True\<rparr>]\<rparr>)"

lemma cancel_sub_eq:
  assumes ok: "hub_ok h" and v: "v < length (viewers h)" "\<not> vw_left (viewers h ! v)"
  shows "cancel_sub v h = unsubscribed (vw_actor (viewers h ! v)) v h"
proof -
  note r = actor_registered [OF assms]
  have "\<not> finished (actors h ! vw_actor (viewers h ! v))"
    using hub_okD(2) [OF ok r(3)] r(2) by (auto simp: actor_ok_def)
  with r v(2) show ?thesis
    by (cases "subs (actors h ! vw_actor (viewers h ! v)) - {v} = {}")
      (simp_all add: cancel_sub_def unsubscribe_def removeSub_def stop_def Let_def unsubscribed_def)
qed

lemma hub_ok_cancel:
  assumes ok: "hub_ok h" and v: "v < length (viewers h)"
  shows "hub_ok (cancel_sub v h)"
proof (cases "vw_left (viewers h ! v)")
  case True
  with ok show ?thesis by (simp add: cancel_sub_def)
next
  case False
  let ?a = "vw_actor (viewers h ! v)"
  let ?h = "cancel_sub v h"
  define rest where "rest = subs (actors h ! ?a) - {v}"
  note r = actor_registered [OF ok v False]
  have h: "?h = h\<lparr>keys := (if rest = {} then (keys h)(vw_key (viewers h ! v) := None) else keys h),
      actors := (actors h)[?a := (if rest = {} then (actors h ! ?a)\<lparr>subs := rest, finished := True\<rparr>
                                   else (actors h ! ?a)\<lparr>subs := rest\<rparr>)],
      viewers := (viewers h)[v := (viewers h ! v)\<lparr>vw_left := True\<rparr>]\<rparr>"
    unfolding cancel_sub_eq [OF ok v False] unsubscribed_def Let_def rest_def ..
  have key: "ka_key (actors h ! ?a) = vw_key (viewers h ! v)"
    using hub_okD(3) [OF ok v] by (simp add: viewer_ok_def)
  have watched: "watched_by ?h b = watched_by h b - {v}" for b
    unfolding h using v by (auto simp: watched_by_def nth_list_update)
  have other: "v \<notin> watched_by h b" if "b \<noteq> ?a" for b using that by (simp add: watched_by_def)
  have x: "ka_key (actors ?h ! b) = ka_key (actors h ! b)" "latest (actors ?h ! b) = latest (actors h ! b)"
    "primed (actors ?h ! b) = primed (actors h ! b)" if "b < length (actors h)" for b
    using that by (cases "b = ?a"; simp add: h)+
  have "actor_ok ?h b (actors ?h ! b)" if b: "b < length (actors h)" for b
  proof (cases "b = ?a")
    case True
    then show ?thesis
      using hub_okD(2) [OF ok r(3)] r key unfolding actor_ok_def watched
      by (auto simp: h rest_def)
  next
    case neq: False
    have "keys ?h (ka_key (actors h ! b)) = Some b \<longleftrightarrow> keys h (ka_key (actors h ! b)) = Some b"
      using r(1) neq by (auto simp: h)
    with hub_okD(2) [OF ok b] other [OF neq] neq show ?thesis
      unfolding actor_ok_def watched by (simp add: h)
  qed
  moreover have "viewer_ok ?h (viewers ?h ! u)" if "u < length (viewers h)" for u
  proof -
    have w: "viewers ?h ! v = (viewers h ! v)\<lparr>vw_left := True\<rparr>" "u \<noteq> v \<Longrightarrow> viewers ?h ! u = viewers h ! u"
      using v that by (simp_all add: h)
    have "length (actors ?h) = length (actors h)" by (simp add: h)
    with hub_okD(3) [OF ok that] show ?thesis
      by (cases "u = v") (simp_all add: viewer_ok_def current_def w x)
  qed
  moreover have "b < length (actors h) \<and> ka_key (actors ?h ! b) = k" if "keys ?h k = Some b" for k b
  proof -
    have "keys h k = Some b" using that by (auto simp: h split: if_splits)
    from hub_okD(1) [OF ok this] show ?thesis by (simp add: x)
  qed
  ultimately show ?thesis
    by (simp add: hub_ok_def) (simp add: h)
qed

lemma hub_ok_fire: "hub_ok h \<Longrightarrow> live_fire now e h = Some h' \<Longrightarrow> hub_ok h'"
proof (cases e)
  case (HangUp v)
  then show "hub_ok h \<Longrightarrow> live_fire now e h = Some h' \<Longrightarrow> hub_ok h'"
    by (auto split: if_splits simp: current_def viewer_ok_def dest: hub_okD(3) intro!: hub_ok_set_viewer)
next
  case (Loaded a r)
  then show "hub_ok h \<Longrightarrow> live_fire now e h = Some h' \<Longrightarrow> hub_ok h'"
    by (auto split: if_splits simp: actor_ok_def dest: hub_okD(2) intro!: hub_ok_set_actor)
next
  case (TakeCredit a)
  then show "hub_ok h \<Longrightarrow> live_fire now e h = Some h' \<Longrightarrow> hub_ok h'"
    by (cases "credits (actors h ! a)")
      (auto split: if_splits actor_pc.splits simp: actor_ok_def dest: hub_okD(2) intro!: hub_ok_set_actor)
next
  case (Tick a)
  then show "hub_ok h \<Longrightarrow> live_fire now e h = Some h' \<Longrightarrow> hub_ok h'"
    by (auto split: if_splits actor_pc.splits simp: actor_ok_def dest: hub_okD(2) intro!: hub_ok_set_actor)
next
  case (SeeDone a)
  then show "hub_ok h \<Longrightarrow> live_fire now e h = Some h' \<Longrightarrow> hub_ok h'"
    by (auto split: if_splits actor_pc.splits simp: actor_ok_def dest: hub_okD(2) intro!: hub_ok_set_actor)
next
  case (SeeCtx a)
  then show "hub_ok h \<Longrightarrow> live_fire now e h = Some h' \<Longrightarrow> hub_ok h'"
    by (auto split: if_splits actor_pc.splits simp: actor_ok_def dest: hub_okD(2) intro!: hub_ok_set_actor)
qed (auto split: if_splits actor_pc.splits option.splits prod.splits
    intro: hub_ok_Subscribe hub_ok_prime hub_ok_cancel hub_ok_receive hub_ok_Publish hub_ok_publish)

lemma hub_ok_run: "live_run es h = Some h' \<Longrightarrow> hub_ok h \<Longrightarrow> hub_ok h'"
  by (induction es h rule: live_run.induct) (auto split: option.splits dest: hub_ok_fire)

lemma live_reachable_ok: "live_reachable h \<Longrightarrow> hub_ok h"
  using hub_ok_run hub_ok_New by (auto simp: live_reachable_def)

end
