(* ===== verification/LiveRun.thy ===== *)
theory LiveRun
  imports Live
begin

text \<open>
  What viewers can rely on (src/internal/live/): who has an actor, what a viewer has seen, which
  tokens the read model contains, and what becomes of an actor whose first viewer goes away.
\<close>

section \<open>What an event does to one actor\<close>

fun model_of :: "actor_pc \<Rightarrow> report option" where
  "model_of (A_Publish rep) = Some rep"
| "model_of (A_Select rep) = Some rep"
| "model_of _ = None"

text \<open>Tokens a call of \<open>Publish\<close> adds to the buffer of actor \<open>a\<close> when it sends.\<close>

fun accepted :: "nat \<Rightarrow> hub \<Rightarrow> live_event \<Rightarrow> int" where
  "accepted a h (Credit i) =
     (if fst (notices h ! i) = a \<and> length (credits (actors h ! a)) < credit_capacity then snd (notices h ! i) else 0)"
| "accepted a h _ = 0"

fun accepted_total :: "nat \<Rightarrow> (instant \<times> live_event) list \<Rightarrow> hub \<Rightarrow> int" where
  "accepted_total a [] h = 0"
| "accepted_total a ((t, e) # es) h =
     accepted a h e + (case live_fire t e h of None \<Rightarrow> 0 | Some h' \<Rightarrow> accepted_total a es h')"

lemma actors_grow:
  assumes "live_fire t e h = Some h'"
  shows "length (actors h) \<le> length (actors h')" "length (viewers h) \<le> length (viewers h')"
  using assms
  by (cases e; auto simp: Subscribe_def addSub_def Let_def primeSub_def cancel_sub_def unsubscribe_def
      removeSub_def stop_def Publish_lookup_def Publish_send_def credit_def publish_def split: if_splits option.splits actor_pc.splits prod.splits)+

text \<open>Everything but the actor's own goroutine leaves its position and its last snapshot alone.\<close>

lemma Subscribe_actor:
  "a < length (actors h) \<Longrightarrow>
     pc (actors (Subscribe k h) ! a) = pc (actors h ! a) \<and>
     credits (actors (Subscribe k h) ! a) = credits (actors h ! a) \<and>
     latest (actors (Subscribe k h) ! a) = latest (actors h ! a)"
  by (auto simp: Subscribe_def addSub_def Let_def nth_append nth_update_at split: option.split)

lemma cancel_sub_actor:
  "a < length (actors h) \<Longrightarrow>
     pc (actors (cancel_sub v h) ! a) = pc (actors h ! a) \<and>
     credits (actors (cancel_sub v h) ! a) = credits (actors h ! a) \<and>
     latest (actors (cancel_sub v h) ! a) = latest (actors h ! a)"
  by (auto simp: cancel_sub_def unsubscribe_def removeSub_def stop_def Let_def nth_update_at split: option.split)

lemma Publish_lookup_heap [simp]:
  "actors (Publish_lookup k n h) = actors h" "viewers (Publish_lookup k n h) = viewers h"
  "keys (Publish_lookup k n h) = keys h"
  by (simp_all add: Publish_lookup_def split: option.split)

lemma Publish_send_actor:
  "a < length (actors h) \<Longrightarrow>
     pc (actors (Publish_send i h) ! a) = pc (actors h ! a) \<and>
     sum_list (credits (actors (Publish_send i h) ! a)) = sum_list (credits (actors h ! a)) + accepted a h (Credit i) \<and>
     latest (actors (Publish_send i h) ! a) = latest (actors h ! a)"
  by (auto simp: Publish_send_def credit_def try_send_def nth_update_at split: prod.split)

lemma publish_actor:
  "a < length (actors h) \<Longrightarrow> b < length (actors h) \<Longrightarrow>
     pc (actors (publish taken now b rep h) ! a) = (if a = b then A_Select rep else pc (actors h ! a)) \<and>
     credits (actors (publish taken now b rep h) ! a) = credits (actors h ! a)"
  by (simp add: publish_def Let_def nth_update_at)

lemma exited_step:
  assumes "live_fire t e h = Some h'" "a < length (actors h)" "pc (actors h ! a) = A_Exited"
  shows "pc (actors h' ! a) = A_Exited \<and> latest (actors h' ! a) = latest (actors h ! a)"
proof (cases e)
  case (Fan b taken)
  with assms show ?thesis
    by (auto simp: publish_def Let_def nth_update_at split: if_splits actor_pc.splits)
qed (use assms in \<open>auto simp: Subscribe_actor cancel_sub_actor Publish_send_actor primeSub_def Let_def nth_update_at
    split: if_splits actor_pc.splits option.splits prod.splits\<close>)

lemma exited_run:
  "live_run es h = Some h' \<Longrightarrow> a < length (actors h) \<Longrightarrow> pc (actors h ! a) = A_Exited \<Longrightarrow>
     pc (actors h' ! a) = A_Exited \<and> latest (actors h' ! a) = latest (actors h ! a)"
proof (induction es h rule: live_run.induct)
  case (2 t e es h)
  then obtain h1 where h1: "live_fire t e h = Some h1" "live_run es h1 = Some h'"
    by (auto split: option.splits)
  from exited_step [OF h1(1) 2(3,4)] actors_grow(1) [OF h1(1)] 2(1) [OF h1] 2(3) show ?case by auto
qed simp

section \<open>The read model between two reloads\<close>

text \<open>\<open>moved n rep rep'\<close>: the buckets that contain now differ by \<open>n\<close>, the closed ones not at all.\<close>

definition moved :: "int \<Rightarrow> report \<Rightarrow> report \<Rightarrow> bool" where
  "moved n rep rep' \<longleftrightarrow> i64 (R_Today rep') = i64 (R_Today rep + n) \<and>
     i64 (R_ThisWeek rep') = i64 (R_ThisWeek rep + n) \<and> i64 (R_ThisMonth rep') = i64 (R_ThisMonth rep + n) \<and>
     R_PastMonth rep' = R_PastMonth rep \<and> R_Before rep' = R_Before rep"

lemma moved_refl [simp]: "moved 0 rep rep"
  by (simp add: moved_def)

lemma moved_credit: "moved n rep (apply_credit n rep)"
  by (simp add: moved_def apply_credit_def)

lemma moved_trans:
  assumes "moved n a b" "moved m b c"
  shows "moved (n + m) a c"
  using assms i64_add_cong [of "R_Today b" "R_Today a + n" m] i64_add_cong [of "R_ThisWeek b" "R_ThisWeek a + n" m]
    i64_add_cong [of "R_ThisMonth b" "R_ThisMonth a + n" m]
  by (simp add: moved_def add.assoc)

lemma model_step:
  assumes "live_fire t e h = Some h'" "a < length (actors h)" "model_of (pc (actors h ! a)) = Some rep" "e \<noteq> Tick a"
  shows "pc (actors h' ! a) = A_Exited \<or>
    (\<exists>rep'. model_of (pc (actors h' ! a)) = Some rep' \<and>
       moved (sum_list (credits (actors h ! a)) + accepted a h e - sum_list (credits (actors h' ! a))) rep rep')"
proof (cases e)
  case (Fan b taken)
  with assms show ?thesis
    by (cases "b = a") (auto simp: publish_actor split: if_splits actor_pc.splits)
next
  case (TakeCredit b)
  show ?thesis
  proof (cases "b = a")
    case True
    then obtain n cs r where "credits (actors h ! a) = n # cs" "pc (actors h ! a) = A_Select r"
      "h' = set_actor a ((actors h ! a)\<lparr>credits := cs, pc := A_Publish (apply_credit n r)\<rparr>) h"
      using assms(1) TakeCredit by (cases "credits (actors h ! a)") (auto split: if_splits actor_pc.splits)
    with assms(2,3) TakeCredit show ?thesis by (simp add: moved_credit)
  next
    case False
    with assms TakeCredit show ?thesis
      by (auto simp: nth_update_at split: if_splits actor_pc.splits option.splits prod.splits)
  qed
qed (use assms in \<open>auto simp: Subscribe_actor cancel_sub_actor Publish_send_actor primeSub_def Let_def nth_update_at
    split: if_splits actor_pc.splits option.splits prod.splits\<close>)

lemma model_run:
  assumes "live_run es h = Some h'" "a < length (actors h)" "model_of (pc (actors h ! a)) = Some rep"
    and "\<forall>(t, e) \<in> set es. e \<noteq> Tick a" "model_of (pc (actors h' ! a)) = Some rep'"
  shows "moved (sum_list (credits (actors h ! a)) + accepted_total a es h - sum_list (credits (actors h' ! a))) rep rep'"
  using assms
proof (induction es h arbitrary: rep rule: live_run.induct)
  case (1 h)
  then show ?case by simp
next
  case (2 t e es h)
  then obtain h1 where h1: "live_fire t e h = Some h1" "live_run es h1 = Some h'"
    by (auto split: option.splits)
  have a: "a < length (actors h1)" using actors_grow(1) [OF h1(1)] 2(3) by simp
  have "pc (actors h1 ! a) \<noteq> A_Exited" using exited_run [OF h1(2) a] 2(6) by auto
  then obtain rep1 where r: "model_of (pc (actors h1 ! a)) = Some rep1"
    "moved (sum_list (credits (actors h ! a)) + accepted a h e - sum_list (credits (actors h1 ! a))) rep rep1"
    using model_step [OF h1(1) 2(3,4)] 2(5) by auto
  from 2(1) [OF h1 a r(1)] 2(5,6)
  have "moved (sum_list (credits (actors h1 ! a)) + accepted_total a es h1 - sum_list (credits (actors h' ! a))) rep1 rep'"
    by simp
  from moved_trans [OF r(2) this] show ?case by (simp add: h1(1) algebra_simps)
qed

section \<open>What a viewer receives from an exited actor\<close>

definition received :: "hub \<Rightarrow> nat \<Rightarrow> snapshot set" where
  "received h v = set (vw_seen (viewers h ! v) @ vw_chan (viewers h ! v))"

lemma try_recv_subset: "x \<in> set (snd (try_recv xs)) \<Longrightarrow> x \<in> set xs"
  by (cases xs) auto

lemma received_deliver: "set (vw_seen (deliver t s w) @ vw_chan (deliver t s w)) \<subseteq> insert s (set (vw_seen w @ vw_chan w))"
  by (cases "vw_chan w"; cases t) (auto simp: deliver_def send_def try_send_def Let_def dest: try_recv_subset)

lemma Subscribe_viewers:
  "\<exists>w. vw_seen w = [] \<and> vw_chan w = [] \<and> viewers (Subscribe k h) = viewers h @ [w]"
  by (auto simp: Subscribe_def addSub_def Let_def split: option.split)

lemma cancel_sub_viewers:
  "viewers (cancel_sub v h) = (viewers h)[v := (viewers h ! v)\<lparr>vw_left := True\<rparr>] \<or> viewers (cancel_sub v h) = viewers h"
  by (auto simp: cancel_sub_def unsubscribe_def removeSub_def stop_def Let_def split: option.split)

lemma Publish_viewers [simp]: "viewers (Publish_send i h) = viewers h"
  by (simp add: Publish_send_def credit_def split: prod.split)

lemma publish_viewers:
  "v < length (viewers h) \<Longrightarrow> v \<notin> subs (actors h ! b) \<Longrightarrow> viewers (publish taken now b rep h) ! v = viewers h ! v"
  by (simp add: publish_def Let_def)

lemma viewer_actor_step:
  assumes "live_fire t e h = Some h'" "v < length (viewers h)"
  shows "vw_actor (viewers h' ! v) = vw_actor (viewers h ! v)"
proof (cases e)
  case (Join k)
  with assms Subscribe_viewers [of k h] show ?thesis by (auto simp: nth_append)
next
  case (Leave u)
  with assms cancel_sub_viewers [of u h] show ?thesis by (auto simp: nth_update_at split: if_splits)
qed (use assms in \<open>auto simp: primeSub_def publish_def Let_def nth_update_at
    split: if_splits actor_pc.splits option.splits prod.splits\<close>)

lemma viewer_actor_run:
  "live_run es h = Some h' \<Longrightarrow> v < length (viewers h) \<Longrightarrow> vw_actor (viewers h' ! v) = vw_actor (viewers h ! v)"
proof (induction es h rule: live_run.induct)
  case (2 t e es h)
  then obtain h1 where h1: "live_fire t e h = Some h1" "live_run es h1 = Some h'"
    by (auto split: option.splits)
  from viewer_actor_step [OF h1(1) 2(3)] actors_grow(2) [OF h1(1)] 2(1) [OF h1] 2(3) show ?case by auto
qed simp

lemma stale_step:
  assumes ok: "hub_ok h" and fire: "live_fire t e h = Some h'" and v: "v < length (viewers h)"
    and exited: "pc (actors h ! vw_actor (viewers h ! v)) = A_Exited"
  shows "received h' v \<subseteq> insert (latest (actors h ! vw_actor (viewers h ! v))) (received h v)"
proof (cases e)
  case (Join k)
  with fire v Subscribe_viewers [of k h] show ?thesis by (auto simp: received_def nth_append)
next
  case (Prime taken u)
  with fire v received_deliver [of taken "latest (actors h ! vw_actor (viewers h ! v))" "viewers h ! v"]
  show ?thesis
    by (cases "u = v") (auto simp: received_def primeSub_def Let_def split: if_splits)
next
  case (Leave u)
  with fire v cancel_sub_viewers [of u h] show ?thesis
    by (auto simp: received_def nth_update_at split: if_splits)
next
  case (Receive u)
  with fire v show ?thesis
    by (cases "vw_chan (viewers h ! u)") (auto simp: received_def nth_update_at split: if_splits)
next
  case (Fan b taken)
  then have b: "b < length (actors h)" "b \<noteq> vw_actor (viewers h ! v)"
    using fire exited by (auto split: if_splits)
  then have "v \<notin> subs (actors h ! b)"
    using hub_okD(2) [OF ok b(1)] by (simp add: actor_ok_def watched_by_def)
  with Fan fire publish_viewers [OF v] show ?thesis
    by (auto simp: received_def split: if_splits actor_pc.splits)
qed (use fire v in \<open>auto simp: received_def nth_update_at split: if_splits actor_pc.splits option.splits prod.splits\<close>)

lemma new_viewer:
  assumes "live_fire t e h = Some h'" "length (viewers h) \<le> v" "v < length (viewers h')"
  shows "received h' v = {}"
proof (cases e)
  case (Join k)
  with assms Subscribe_viewers [of k h] show ?thesis by (auto simp: received_def nth_append)
next
  case (Leave u)
  with assms cancel_sub_viewers [of u h] show ?thesis by (auto split: if_splits)
qed (use assms in \<open>auto simp: primeSub_def publish_def Let_def split: if_splits actor_pc.splits option.splits prod.splits\<close>)

lemma stale_run:
  "hub_ok h \<Longrightarrow> live_run es h = Some h' \<Longrightarrow> a < length (actors h) \<Longrightarrow> pc (actors h ! a) = A_Exited \<Longrightarrow>
     v < length (viewers h') \<Longrightarrow> vw_actor (viewers h' ! v) = a \<Longrightarrow>
     received h' v \<subseteq> insert (latest (actors h ! a)) (if v < length (viewers h) then received h v else {})"
proof (induction es h rule: live_run.induct)
  case (1 h)
  then show ?case by auto
next
  case (2 t e es h)
  then obtain h1 where h1: "live_fire t e h = Some h1" "live_run es h1 = Some h'"
    by (auto split: option.splits)
  have ok1: "hub_ok h1" using hub_ok_fire [OF 2(2) h1(1)] .
  have a1: "a < length (actors h1)" using actors_grow(1) [OF h1(1)] 2(4) by simp
  have x1: "pc (actors h1 ! a) = A_Exited" "latest (actors h1 ! a) = latest (actors h ! a)"
    using exited_step [OF h1(1) 2(4,5)] by auto
  have IH: "received h' v \<subseteq> insert (latest (actors h ! a)) (if v < length (viewers h1) then received h1 v else {})"
    using 2(1) [OF h1(1) ok1 h1(2) a1 x1(1) 2(6,7)] x1(2) by simp
  show ?case
  proof (cases "v < length (viewers h)")
    case True
    have "v < length (viewers h1)" using True actors_grow(2) [OF h1(1)] by simp
    moreover have "vw_actor (viewers h ! v) = a"
      using viewer_actor_run [OF h1(2) calculation] viewer_actor_step [OF h1(1) True] 2(7) by simp
    ultimately show ?thesis using IH stale_step [OF 2(2) h1(1) True] 2(5) True by auto
  next
    case False
    with IH new_viewer [OF h1(1), of v] show ?thesis by (auto split: if_splits)
  qed
qed

section \<open>An example run\<close>

text \<open>Two viewers of key 1: the first starts the actor, which loads 5 tokens and publishes; the
  second joins, is primed and reads. Then the first goes away, and the actor with it.\<close>

definition demo_report :: report where
  "demo_report = \<lparr>R_Today = 5, R_ThisWeek = 5, R_ThisMonth = 7, R_PastMonth = 1, R_Before = 0\<rparr>"

definition demo_live :: "(instant \<times> live_event) list" where
  "demo_live = [(1, Join 1), (1, Prime False 0), (2, Loaded 0 (Inr demo_report)), (3, Fan 0 (\<lambda>_. False)),
     (4, Join 1), (4, Prime False 1), (5, Receive 1)]"

definition demo_hub :: hub where
  "demo_hub = the (live_run demo_live NewHub)"

definition demo_orphan :: hub where
  "demo_orphan = the (live_run [(6, HangUp 0), (6, SeeCtx 0), (6, Leave 0)] demo_hub)"

lemma the_run: "case r of None \<Rightarrow> False | Some _ \<Rightarrow> True \<Longrightarrow> r = Some (the r)"
  by (cases r) auto

lemma demo_hub_run: "live_run demo_live NewHub = Some demo_hub"
  unfolding demo_hub_def by (rule the_run) code_simp

lemma demo_orphan_run: "live_run [(6, HangUp 0), (6, SeeCtx 0), (6, Leave 0)] demo_hub = Some demo_orphan"
  unfolding demo_orphan_def by (rule the_run) code_simp

lemma live_run_append: "live_run (es @ fs) h = (case live_run es h of None \<Rightarrow> None | Some h1 \<Rightarrow> live_run fs h1)"
  by (induction es h rule: live_run.induct) (auto split: option.splits)

lemma demo_live_reachable: "live_reachable demo_hub" "live_reachable demo_orphan"
proof -
  show "live_reachable demo_hub" using demo_hub_run by (auto simp: live_reachable_def)
  have "live_run (demo_live @ [(6, HangUp 0), (6, SeeCtx 0), (6, Leave 0)]) NewHub = Some demo_orphan"
    using demo_hub_run demo_orphan_run by (simp add: live_run_append)
  then show "live_reachable demo_orphan" unfolding live_reachable_def by blast
qed

section \<open>Properties\<close>

definition viewers_of :: "hub \<Rightarrow> uint \<Rightarrow> nat set" where
  "viewers_of h k = {v. v < length (viewers h) \<and> vw_key (viewers h ! v) = k \<and> \<not> vw_left (viewers h ! v)}"

lemma viewers_of_actor:
  assumes ok: "hub_ok h" and k: "keys h k = Some a"
  shows "watched_by h a = viewers_of h k"
proof -
  have "vw_actor (viewers h ! v) = a \<longleftrightarrow> vw_key (viewers h ! v) = k"
    if "v < length (viewers h)" "\<not> vw_left (viewers h ! v)" for v
  proof
    assume "vw_actor (viewers h ! v) = a"
    with hub_okD(3) [OF ok that(1)] hub_okD(1) [OF ok k] show "vw_key (viewers h ! v) = k"
      by (simp add: viewer_ok_def)
  next
    assume "vw_key (viewers h ! v) = k"
    with actor_registered(1) [OF ok that] k show "vw_actor (viewers h ! v) = a" by simp
  qed
  then show ?thesis by (auto simp: watched_by_def viewers_of_def)
qed

text \<open>C22: an actor exists exactly while somebody watches. A key has a registered actor iff it has
  viewers that have not left; all of them are that actor's subscribers, and every other actor
  the key ever had has been told to stop, so that nothing accumulates for keys nobody has open.\<close>

theorem actors_while_watched:
  assumes "live_reachable h"
  shows "(case keys h k of
      None \<Rightarrow> viewers_of h k = {}
    | Some a \<Rightarrow> viewers_of h k \<noteq> {} \<and> subs (actors h ! a) = viewers_of h k \<and> \<not> finished (actors h ! a)) \<and>
    (\<forall>a < length (actors h). ka_key (actors h ! a) = k \<and> keys h k \<noteq> Some a \<longrightarrow> finished (actors h ! a))"
proof -
  note ok = live_reachable_ok [OF assms]
  have "viewers_of h k = {}" if "keys h k = None"
    using that actor_registered(1) [OF ok] by (force simp: viewers_of_def)
  moreover have "viewers_of h k \<noteq> {} \<and> subs (actors h ! a) = viewers_of h k \<and> \<not> finished (actors h ! a)"
    if k: "keys h k = Some a" for a
  proof -
    have a: "a < length (actors h)" "ka_key (actors h ! a) = k" using hub_okD(1) [OF ok k] by auto
    note x = hub_okD(2) [OF ok a(1)]
    have nf: "\<not> finished (actors h ! a)" using x unfolding actor_ok_def a(2) k by blast
    have eq: "subs (actors h ! a) = viewers_of h k"
      using x viewers_of_actor [OF ok k] unfolding actor_ok_def by simp
    have "finished (actors h ! a) \<longleftrightarrow> subs (actors h ! a) = {}" using x unfolding actor_ok_def by blast
    with nf eq show ?thesis by simp
  qed
  moreover have "finished (actors h ! a)"
    if "a < length (actors h)" "ka_key (actors h ! a) = k" "keys h k \<noteq> Some a" for a
    using hub_okD(2) [OF ok that(1)] that(3) unfolding actor_ok_def that(2) by blast
  ultimately show ?thesis by (auto split: option.split)
qed

theorem actors_while_watched_witness:
  "keys demo_hub 1 = Some 0 \<and> viewers_of demo_hub 1 \<noteq> {} \<and> viewers_of demo_hub 2 = {}"
proof -
  have "keys demo_hub 1 = Some 0" "keys demo_hub 2 = None" by code_simp+
  with actors_while_watched [OF demo_live_reachable(1), of 1] actors_while_watched [OF demo_live_reachable(1), of 2]
  show ?thesis by simp
qed

text \<open>C23: a viewer never holds an outdated figure and never holds up the actor. Once primed, the
  newest snapshot of a viewer, read or waiting, is the one its actor published last, however
  slowly it reads; at most one waits, and all are of its own key.\<close>

theorem viewer_current:
  assumes "live_reachable h" and "v < length (viewers h)"
    and "w = viewers h ! v" and "x = actors h ! vw_actor w"
  shows "length (vw_chan w) \<le> 1 \<and> (\<forall>s \<in> received h v. SN_KeyID s = vw_key w) \<and>
    (vw_primed w \<and> primed x \<and> \<not> vw_left w \<longrightarrow>
       vw_seen w @ vw_chan w \<noteq> [] \<and> last (vw_seen w @ vw_chan w) = latest x)"
  using hub_okD(3) [OF live_reachable_ok [OF assms(1)] assms(2)]
  by (auto simp: viewer_ok_def current_def received_def assms(3,4))

theorem viewer_current_witness:
  "last (vw_seen (viewers demo_hub ! 1)) = latest (actors demo_hub ! 0)"
proof -
  have "1 < length (viewers demo_hub)" "vw_primed (viewers demo_hub ! 1)" "\<not> vw_left (viewers demo_hub ! 1)"
    "vw_actor (viewers demo_hub ! 1) = 0" "primed (actors demo_hub ! 0)" "length (vw_chan (viewers demo_hub ! 1)) = 0"
    by code_simp+
  with viewer_current [OF demo_live_reachable(1) this(1) refl refl] show ?thesis by simp
qed

text \<open>C24: between two reloads the read model neither loses nor invents a token. From any moment at
  which an actor holds a report to any later one without a tick in between, its three open
  buckets grow by the credits that were buffered or accepted meanwhile and are no longer
  buffered, modulo 2^64; the closed buckets keep their values.\<close>

theorem read_model_conserved:
  assumes "live_run es h = Some h'" and "a < length (actors h)"
    and "model_of (pc (actors h ! a)) = Some rep" and "model_of (pc (actors h' ! a)) = Some rep'"
    and "\<forall>(t, e) \<in> set es. e \<noteq> Tick a"
  shows "moved (sum_list (credits (actors h ! a)) + accepted_total a es h - sum_list (credits (actors h' ! a))) rep rep'"
  using model_run [OF assms(1,2,3,5,4)] .

theorem read_model_conserved_witness:
  "moved 9 demo_report (apply_credit 9 demo_report)"
proof -
  let ?es = "[(6, Notify 1 9), (6, Credit 0), (7, TakeCredit 0)]"
  let ?h = "the (live_run ?es demo_hub)"
  have run: "live_run ?es demo_hub = Some ?h" by (rule the_run) code_simp
  have facts: "0 < length (actors demo_hub)" "model_of (pc (actors demo_hub ! 0)) = Some demo_report"
    "model_of (pc (actors ?h ! 0)) = Some (apply_credit 9 demo_report)" "accepted_total 0 ?es demo_hub = 9"
    "sum_list (credits (actors demo_hub ! 0)) = 0" "sum_list (credits (actors ?h ! 0)) = 0"
    by code_simp+
  have "\<forall>(t, e) \<in> set ?es. e \<noteq> Tick 0" by simp
  from read_model_conserved [OF run facts(1,2,3) this] facts(4-6) show ?thesis by simp
qed

text \<open>C25: an actor whose first viewer has gone is dead for everybody else. Once the goroutine has
  returned because the request context of the viewer that started it ended, whatever happens
  afterwards, all of the actor's viewers, later ones included, receive nothing but the snapshot
  it had published last.\<close>

theorem orphaned_viewers_stay_stale:
  assumes "live_reachable h" and "a < length (actors h)" and "pc (actors h ! a) = A_Exited"
    and "live_run es h = Some h'" and "v < length (viewers h')" and "vw_actor (viewers h' ! v) = a"
  shows "received h' v \<subseteq> insert (latest (actors h ! a)) (if v < length (viewers h) then received h v else {})"
  using stale_run [OF live_reachable_ok [OF assms(1)] assms(4,2,3,5,6)] .

theorem orphaned_viewers_stay_stale_witness:
  "keys demo_orphan 1 = Some 0 \<and> \<not> vw_left (viewers demo_orphan ! 1) \<and>
   (\<exists>h'. live_run [(8, Notify 1 9), (8, Credit 0), (9, Join 1), (9, Prime False 2)] demo_orphan = Some h' \<and>
      received h' 2 \<subseteq> {latest (actors demo_orphan ! 0)})"
proof -
  let ?es = "[(8, Notify 1 9), (8, Credit 0), (9, Join 1), (9, Prime False 2)]"
  let ?h = "the (live_run ?es demo_orphan)"
  have run: "live_run ?es demo_orphan = Some ?h" by (rule the_run) code_simp
  have facts: "0 < length (actors demo_orphan)" "pc (actors demo_orphan ! 0) = A_Exited"
    "2 < length (viewers ?h)" "vw_actor (viewers ?h ! 2) = 0" "\<not> 2 < length (viewers demo_orphan)"
    "keys demo_orphan 1 = Some 0" "\<not> vw_left (viewers demo_orphan ! 1)"
    by code_simp+
  have "received ?h 2 \<subseteq> {latest (actors demo_orphan ! 0)}"
    using orphaned_viewers_stay_stale [OF demo_live_reachable(2) facts(1,2) run facts(3,4)]
    unfolding if_not_P [OF facts(5)] .
  with run facts(6,7) show ?thesis by blast
qed

text \<open>The reload and the credit of one call can both count it: written, loaded, then credited.
  The figure is corrected by the next tick only.\<close>

definition racing_event :: Usage.event where
  "racing_event = \<lparr>EventID = 0, APIKeyID = 1, Model = ''bge-m3'', PromptTokens = 40, BatchSize = 1, EventAt = 100\<rparr>"

lemma credit_counted_twice:
  "let db = snd (Record mem_driver sample_db racing_event);
       loaded = hub_load mem_driver (fixed_zone 0) db 1 200
   in (case loaded of Inl _ \<Rightarrow> False | Inr rep \<Rightarrow> R_Today rep = 40) \<and>
      (case live_run [(1, Join 1), (1, Prime False 0), (2, Loaded 0 loaded), (3, Fan 0 (\<lambda>_. False)),
           (4, Notify 1 40), (4, Credit 0), (5, TakeCredit 0), (6, Fan 0 (\<lambda>_. False))] NewHub of
         None \<Rightarrow> False
       | Some h \<Rightarrow> R_Today (SN_Report (latest (actors h ! 0))) = 80)"
  by code_simp

text \<open>A call that has found the actor can outlive it: the last viewer leaves and the next one gets an
  actor of its own before the send. The tokens then reach a buffer nobody reads any more; they are not
  lost, as they were stored before the lookup and the new actor loads its report after it.\<close>

lemma credit_misses_successor:
  "case live_run [(1, Join 1), (1, Prime False 0), (2, Loaded 0 (Inr demo_report)), (3, Fan 0 (\<lambda>_. False)),
       (4, Notify 1 9), (5, Leave 0), (5, Join 1), (6, Loaded 1 (Inr demo_report)), (7, Credit 0)] NewHub of
     None \<Rightarrow> False
   | Some h \<Rightarrow> keys h 1 = Some 1 \<and> finished (actors h ! 0) \<and> credits (actors h ! 0) = [9] \<and> credits (actors h ! 1) = []"
  by code_simp

end
