(* ===== verification/Embeddings.thy ===== *)
theory Embeddings
  imports Json Apikey
begin

text \<open>
  What the proxy reads from request and response bodies
  (src/internal/proxy/embeddings.go): counting the inputs of a request on the decoder's
  token stream, and the billed tokens of an upstream response.
\<close>

section \<open>Counting inputs\<close>

datatype input_error = InvalidInput | InputTooLarge

definition maxInputArrayElements :: int where
  "maxInputArrayElements = 100000"

text \<open>\<open>depth\<close> brackets are open; what is left when they have closed.\<close>

fun skipRest :: "nat \<Rightarrow> token list \<Rightarrow> token list option" where
  "skipRest 0 ts = Some ts"
| "skipRest (Suc d) [] = None"
| "skipRest (Suc d) (t # ts) =
     (case t of
        Delim c \<Rightarrow> (if opens c then skipRest (Suc (Suc d)) ts
                    else if closes c then skipRest d ts else skipRest (Suc d) ts)
      | _ \<Rightarrow> skipRest (Suc d) ts)"

lemma skipRest_length: "skipRest d ts = Some ts' \<Longrightarrow> length ts' \<le> length ts"
proof (induction d ts rule: skipRest.induct)
  case (3 d t ts)
  then show ?case by (cases t) (auto split: if_splits intro: le_SucI)
qed simp_all

text \<open>One turn of the loop's \<open>switch\<close>: whether all elements are still numbers, and the
  tokens after the element.\<close>

definition element :: "bool \<Rightarrow> token \<Rightarrow> token list \<Rightarrow> (bool \<times> token list) option" where
  "element all_numbers t ts =
     (case t of
        Delim c \<Rightarrow> map_option (Pair False) (skipRest 1 ts)
      | TNum _ \<Rightarrow> Some (all_numbers, ts)
      | _ \<Rightarrow> Some (False, ts))"

definition array_result :: "int \<Rightarrow> bool \<Rightarrow> int" where
  "array_result n all_numbers = (if n = 0 then 0 else if all_numbers then 1 else n)"

function countArrayInputs :: "int \<Rightarrow> int \<Rightarrow> bool \<Rightarrow> token list \<Rightarrow> input_error + int" where
  "countArrayInputs limit n all_numbers ts =
     (if \<not> has_more ts then Inr (array_result n all_numbers)
      else case ts of
        [] \<Rightarrow> Inl InvalidInput
      | t # ts1 \<Rightarrow>
          (case element all_numbers t ts1 of
             None \<Rightarrow> Inl InvalidInput
           | Some (all', ts2) \<Rightarrow>
               if maxInputArrayElements < n + 1 then Inl InputTooLarge
               else if \<not> all' \<and> limit < n + 1 then Inr (n + 1)
               else countArrayInputs limit (n + 1) all' ts2))"
  by pat_completeness auto
termination
proof (relation "measure (\<lambda>(limit, n, all_numbers, ts). length ts)", goal_cases)
  case (2 limit n all_numbers ts t ts1 p all' ts2)
  then have "length ts2 \<le> length ts1"
    by (auto simp: element_def split: token.splits dest: skipRest_length)
  with 2 show ?case by (cases p) simp
qed simp

declare countArrayInputs.simps [simp del]

text \<open>The field's raw message; a body without the field leaves nothing to read.\<close>

definition countInputs :: "json option \<Rightarrow> int \<Rightarrow> input_error + int" where
  "countInputs raw limit =
     (case (case raw of None \<Rightarrow> [] | Some v \<Rightarrow> tokens v) of
        TStr s # ts \<Rightarrow> Inr 1
      | Delim c # ts \<Rightarrow>
          (if c \<noteq> CHR ''['' then Inl InvalidInput else countArrayInputs limit 0 True ts)
      | _ \<Rightarrow> Inl InvalidInput)"

section \<open>The request's input field\<close>

datatype body_error = NotJson

text \<open>\<open>json.Unmarshal\<close> into \<open>embeddingsRequest\<close>; \<open>doc\<close> is the parsed body. The last field whose
  name matches wins, and a document that is not an object is an error unless it is null.\<close>

definition unmarshal_request :: "json option \<Rightarrow> body_error + json option" where
  "unmarshal_request doc =
     (case doc of
        Some (JObj fs) \<Rightarrow> Inr (map_option snd (find (\<lambda>f. names (fst f) ''input'') (rev fs)))
      | Some JNull \<Rightarrow> Inr None
      | _ \<Rightarrow> Inl NotJson)"

section \<open>The billed tokens\<close>

text \<open>The \<open>usage\<close> object: the value of \<open>prompt_tokens\<close> so far, and whether a type error was seen.\<close>

fun decode_usage :: "(string \<times> json) list \<Rightarrow> int \<times> bool \<Rightarrow> int \<times> bool" where
  "decode_usage [] st = st"
| "decode_usage (f # fs) (n, err) =
     (if names (fst f) ''prompt_tokens''
      then (let (n', e) = store_int64 (snd f) n in decode_usage fs (n', err \<or> e))
      else decode_usage fs (n, err))"

fun decode_upstream :: "(string \<times> json) list \<Rightarrow> int \<times> int \<times> bool \<Rightarrow> int \<times> int \<times> bool" where
  "decode_upstream [] st = st"
| "decode_upstream (f # fs) (n, ev, err) =
     (if names (fst f) ''usage''
      then (case snd f of
              JObj gs \<Rightarrow> (let (n', err') = decode_usage gs (n, err) in decode_upstream fs (n', ev, err'))
            | JNull \<Rightarrow> decode_upstream fs (n, ev, err)
            | _ \<Rightarrow> decode_upstream fs (n, ev, True))
      else if names (fst f) ''prompt_eval_count''
      then (let (ev', e) = store_int64 (snd f) ev in decode_upstream fs (n, ev', err \<or> e))
      else decode_upstream fs (n, ev, err))"

definition parsePromptTokens :: "json option \<Rightarrow> int" where
  "parsePromptTokens doc =
     (case doc of
        Some (JObj fs) \<Rightarrow>
          (let (n, ev, err) = decode_upstream fs (0, 0, False)
           in if err then 0 else if 0 < n then n else ev)
      | _ \<Rightarrow> 0)"

section \<open>Counting agrees with the documents\<close>

lemma skipRest_value:
  "skipRest (Suc d) (tokens v @ ts) = skipRest (Suc d) ts"
proof (induction v arbitrary: d ts rule: tokens.induct)
  case (5 xs)
  have "skipRest (Suc d) (concat (map tokens ys) @ ts) = skipRest (Suc d) ts"
    if "set ys \<subseteq> set xs" for ys d ts
    using that by (induction ys) (auto simp: 5)
  then show ?case by (simp add: opens_def closes_def)
next
  case (6 fs)
  have "skipRest (Suc d) (concat (map (\<lambda>f. TStr (fst f) # tokens (snd f)) gs) @ ts) = skipRest (Suc d) ts"
    if "set gs \<subseteq> set fs" for gs d ts
    using that by (induction gs) (auto simp: 6)
  then show ?case by (simp add: opens_def closes_def)
qed simp_all

text \<open>The loop, seen on the elements instead of their tokens.\<close>

fun count_elements :: "int \<Rightarrow> int \<Rightarrow> bool \<Rightarrow> json list \<Rightarrow> input_error + int" where
  "count_elements limit n all_numbers [] = Inr (array_result n all_numbers)"
| "count_elements limit n all_numbers (x # xs) =
     (let all' = all_numbers \<and> is_number x
      in if maxInputArrayElements < n + 1 then Inl InputTooLarge
         else if \<not> all' \<and> limit < n + 1 then Inr (n + 1)
         else count_elements limit (n + 1) all' xs)"

lemma skipRest_elements: "skipRest (Suc d) (concat (map tokens xs) @ ts) = skipRest (Suc d) ts"
  by (induction xs) (simp_all add: skipRest_value)

lemma skipRest_fields:
  "skipRest (Suc d) (concat (map (\<lambda>f. TStr (fst f) # tokens (snd f)) fs) @ ts) = skipRest (Suc d) ts"
  by (induction fs) (simp_all add: skipRest_value)

lemma tokens_element:
  obtains t ts where "tokens v = t # ts" "\<And>us. has_more (t # us)"
    "\<And>rest. element all_numbers t (ts @ rest) = Some (all_numbers \<and> is_number v, rest)"
proof (cases v)
  case (JArr xs)
  show ?thesis
    by (rule that [of "Delim CHR ''[''" "concat (map tokens xs) @ [Delim CHR '']'']"])
      (simp_all add: JArr element_def skipRest_elements opens_def closes_def)
next
  case (JObj fs)
  show ?thesis
    by (rule that [of "Delim CHR ''{''"
          "concat (map (\<lambda>f. TStr (fst f) # tokens (snd f)) fs) @ [Delim CHR ''}'']"])
      (simp_all add: JObj element_def skipRest_fields opens_def closes_def)
qed (auto intro!: that simp: element_def)

lemma countArrayInputs_elements:
  "countArrayInputs limit n all_numbers (concat (map tokens xs) @ Delim CHR '']'' # ts) =
     count_elements limit n all_numbers xs"
proof (induction xs arbitrary: n all_numbers)
  case Nil
  then show ?case by (simp add: countArrayInputs.simps closes_def)
next
  case (Cons x xs)
  obtain t us where t: "tokens x = t # us" "\<And>vs. has_more (t # vs)"
    "\<And>rest. element all_numbers t (us @ rest) = Some (all_numbers \<and> is_number x, rest)"
    using tokens_element [of x all_numbers] by metis
  show ?case
    by (subst countArrayInputs.simps) (simp add: t Cons.IH Let_def)
qed

lemma count_elements_accepts:
  "0 \<le> n \<Longrightarrow> n \<le> maxInputArrayElements \<Longrightarrow>
   count_elements limit n all_numbers xs = Inr m \<and> m \<le> limit \<longleftrightarrow>
     n + int (length xs) \<le> maxInputArrayElements \<and>
     m = array_result (n + int (length xs)) (all_numbers \<and> list_all is_number xs) \<and> m \<le> limit"
proof (induction xs arbitrary: n all_numbers)
  case Nil
  then show ?case by auto
next
  case (Cons x xs)
  let ?all = "all_numbers \<and> is_number x"
  consider (large) "maxInputArrayElements < n + 1"
    | (early) "n + 1 \<le> maxInputArrayElements" "\<not> ?all" "limit < n + 1"
    | (go) "n + 1 \<le> maxInputArrayElements" "?all \<or> n + 1 \<le> limit" by linarith
  then show ?case
  proof cases
    case early
    then show ?thesis using Cons.prems by (auto simp: array_result_def)
  next
    case go
    then have "count_elements limit n all_numbers (x # xs) = count_elements limit (n + 1) ?all xs"
      by (auto simp: Let_def)
    then show ?thesis using go(1) Cons.prems Cons.IH [of "n + 1" ?all]
      by (simp add: conj_assoc add.assoc)
  qed (use Cons.prems in auto)
qed

section \<open>Properties\<close>

text \<open>OpenAI's meaning of the input: a string is one input, an array of nothing but numbers
  is one tokenised input, any other array is one input per element.\<close>

fun input_count :: "json \<Rightarrow> int option" where
  "input_count (JStr s) = Some 1"
| "input_count (JArr xs) =
     Some (if xs \<noteq> [] \<and> list_all is_number xs then 1 else int (length xs))"
| "input_count _ = None"

lemma countInputs_accepts:
  "(countInputs (Some v) (BatchMax k) = Inr n \<and> AllowsBatch k n) \<longleftrightarrow>
     input_count v = Some n \<and> 1 \<le> n \<and> n \<le> BatchMax k \<and>
     (\<forall>xs. v = JArr xs \<longrightarrow> int (length xs) \<le> maxInputArrayElements)"
proof (cases v)
  case (JArr xs)
  have "array_result (int (length xs)) (list_all is_number xs) =
      (if xs \<noteq> [] \<and> list_all is_number xs then 1 else int (length xs))"
    by (simp add: array_result_def)
  with count_elements_accepts [of 0 "BatchMax k" True xs n] show ?thesis
    by (auto simp: JArr countInputs_def countArrayInputs_elements AllowsBatch_def maxInputArrayElements_def)
qed (auto simp: countInputs_def AllowsBatch_def)

text \<open>The batch limit is enforced on the true count. A request passes the two input
  checks exactly when its input is a string or an array of at most the scanned maximum whose
  OpenAI count is between one and the key's limit, and then the batch size recorded is that
  count; the early exit and the all-numbers rule open no way around the limit.\<close>

theorem batch_limit_exact:
  "(countInputs (Some v) (BatchMax k) = Inr n \<and> AllowsBatch k n) \<longleftrightarrow>
     input_count v = Some n \<and> 1 \<le> n \<and> n \<le> BatchMax k \<and>
     (\<forall>xs. v = JArr xs \<longrightarrow> int (length xs) \<le> maxInputArrayElements)"
  by (rule countInputs_accepts)

theorem batch_limit_exact_witness:
  "let k = (sample_key 1 ''h'')\<lparr>BatchMax := 3\<rparr> in
     countInputs (Some (JArr [JNum ''0'', JStr ''a'', JArr [JNum ''1'', JNum ''2'']])) (BatchMax k) = Inr 3 \<and>
     AllowsBatch k 3"
proof -
  let ?v = "JArr [JNum ''0'', JStr ''a'', JArr [JNum ''1'', JNum ''2'']]"
  from batch_limit_exact [of ?v "(sample_key 1 ''h'')\<lparr>BatchMax := 3\<rparr>" 3] show ?thesis
    by (simp add: maxInputArrayElements_def Let_def)
qed

text \<open>The field is found again wherever it stands, and fields of other names do not matter.\<close>

lemma decode_usage_skip:
  "\<forall>f \<in> set fs. \<not> names (fst f) ''prompt_tokens'' \<Longrightarrow>
   decode_usage (fs @ gs) st = decode_usage gs st"
  by (induction fs arbitrary: st) (auto split: prod.splits)

lemma decode_usage_none:
  "\<forall>f \<in> set fs. \<not> names (fst f) ''prompt_tokens'' \<Longrightarrow> decode_usage fs st = st"
  using decode_usage_skip [of fs "[]" st] by simp

lemma decode_upstream_skip:
  "\<forall>f \<in> set fs. \<not> names (fst f) ''usage'' \<and> \<not> names (fst f) ''prompt_eval_count'' \<Longrightarrow>
   decode_upstream (fs @ gs) st = decode_upstream gs st"
  by (induction fs arbitrary: st) (auto split: prod.splits)

lemma decode_upstream_none:
  "\<forall>f \<in> set fs. \<not> names (fst f) ''usage'' \<and> \<not> names (fst f) ''prompt_eval_count'' \<Longrightarrow>
   decode_upstream fs st = st"
  using decode_upstream_skip [of fs "[]" st] by simp

lemma decode_usage_range:
  "in_i64 (fst st) \<Longrightarrow> in_i64 (fst (decode_usage fs st))"
proof (induction fs st rule: decode_usage.induct)
  case (2 f fs n err)
  then show ?case
    using store_int64_range [of n "snd f"] by (auto simp: Let_def split: prod.split)
qed simp

lemma decode_upstream_range:
  "in_i64 (fst st) \<Longrightarrow> in_i64 (fst (snd st)) \<Longrightarrow>
     in_i64 (fst (decode_upstream fs st)) \<and> in_i64 (fst (snd (decode_upstream fs st)))"
proof (induction fs st rule: decode_upstream.induct)
  case (2 f fs n ev err)
  show ?case
  proof (cases "names (fst f) ''usage''")
    case True
    show ?thesis
    proof (cases "snd f")
      case (JObj gs)
      then show ?thesis
        using True 2 decode_usage_range [of "(n, err)" gs] by (auto simp: Let_def split: prod.split)
    qed (use True 2 in auto)
  next
    case False
    then show ?thesis
      using 2 store_int64_range [of ev "snd f"] by (auto simp: Let_def split: prod.split)
  qed
qed simp

lemma parsePromptTokens_range: "in_i64 (parsePromptTokens doc)"
proof (cases "\<exists>fs. doc = Some (JObj fs)")
  case True
  then obtain fs where "doc = Some (JObj fs)" by blast
  moreover obtain n ev err where "decode_upstream fs (0, 0, False) = (n, ev, err)"
    by (cases "decode_upstream fs (0, 0, False)")
  moreover from this have "in_i64 n" "in_i64 ev"
    using decode_upstream_range [of "(0, 0, False)" fs] by simp_all
  ultimately show ?thesis by (simp add: parsePromptTokens_def)
qed (auto simp: parsePromptTokens_def split: option.split json.split)

text \<open>The upstream's own count is what is billed. In either API's spelling, with the count
  anywhere in the object, among any other fields, a positive \<open>int64\<close> count is returned as it
  is; and whatever the body, the result is an \<open>int64\<close>.\<close>

lemma prompt_tokens_billed:
  assumes "0 < n" and "n \<le> max_i64"
    and "\<forall>f \<in> set xs \<union> set ys. \<not> names (fst f) ''usage'' \<and> \<not> names (fst f) ''prompt_eval_count''"
    and "\<forall>f \<in> set us \<union> set vs. \<not> names (fst f) ''prompt_tokens''"
  shows "parsePromptTokens (Some (JObj (xs @
      (''usage'', JObj (us @ (''prompt_tokens'', JNum (Itoa n)) # vs)) # ys))) = n \<and>
    parsePromptTokens (Some (JObj (xs @ (''prompt_eval_count'', JNum (Itoa n)) # ys))) = n \<and>
    in_i64 (parsePromptTokens doc)"
proof (intro conjI)
  have n: "ParseInt (Itoa n) = Some n" using assms(1,2) by simp
  have nm: "names ''usage'' ''usage''" "names ''prompt_tokens'' ''prompt_tokens''"
    "names ''prompt_eval_count'' ''prompt_eval_count''" "\<not> names ''prompt_eval_count'' ''usage''"
    by (simp_all add: names_def fold_char_def)
  have "decode_usage (us @ (''prompt_tokens'', JNum (Itoa n)) # vs) (0, False) = (n, False)"
    using assms(4) by (subst decode_usage_skip) (auto simp: decode_usage_none nm n)
  then show "parsePromptTokens (Some (JObj (xs @
      (''usage'', JObj (us @ (''prompt_tokens'', JNum (Itoa n)) # vs)) # ys))) = n"
    using assms(1,3) by (simp add: parsePromptTokens_def decode_upstream_skip decode_upstream_none nm)
  show "parsePromptTokens (Some (JObj (xs @ (''prompt_eval_count'', JNum (Itoa n)) # ys))) = n"
    using assms(1,3) by (simp add: parsePromptTokens_def decode_upstream_skip decode_upstream_none nm n)
  show "min_i64 \<le> parsePromptTokens doc" "parsePromptTokens doc \<le> max_i64"
    using parsePromptTokens_range by blast+
qed

lemma prompt_tokens_billed_example:
  "parsePromptTokens (Some (JObj [(''object'', JStr ''list''),
     (''usage'', JObj [(''prompt_tokens'', JNum (Itoa 7)), (''total_tokens'', JNum ''7'')])])) = 7"
proof -
  have nm: "\<not> names ''object'' ''usage''" "\<not> names ''object'' ''prompt_eval_count''"
    "\<not> names ''total_tokens'' ''prompt_tokens''" by (simp_all add: names_def fold_char_def)
  show ?thesis
    using prompt_tokens_billed [of 7 "[(''object'', JStr ''list'')]" "[]" "[]" "[(''total_tokens'', JNum ''7'')]"] nm
    by simp
qed

text \<open>A hostile or broken upstream can lower what a key has spent. A negative Ollama count
  is returned as it is, while any ill-typed field, such as a fractional count, yields zero.\<close>

theorem negative_tokens_billed:
  "parsePromptTokens (Some (JObj [(''prompt_eval_count'', JNum ''-5'')])) = -5 \<and>
   parsePromptTokens (Some (JObj [(''usage'', JObj [(''prompt_tokens'', JNum ''7'')]),
     (''prompt_eval_count'', JNum ''1.5'')])) = 0"
  by (simp add: parsePromptTokens_def names_def fold_char_def ParseInt_def digits_def digit_value_def)

end
