(* ===== verification/RateLimit.thy ===== *)
theory RateLimit
  imports Prelude
begin

text \<open>
  The per-key fixed-window limiter (src/internal/ratelimit/ratelimit.go). The mutex
  makes every \<open>Allow\<close> one atomic step on the map of windows; the clock reading is an
  argument. The locale \<open>rate_limiter\<close> is the contract the request pipeline uses.
\<close>

section \<open>The limiter\<close>

definition Window :: duration where
  "Window = minute"

record decision =
  Allowed :: bool
  RetryAfter :: duration

record window =
  start :: instant
  count :: int

type_synonym limiter = "uint \<rightharpoonup> window"

definition Allow :: "limiter \<Rightarrow> instant \<Rightarrow> uint \<Rightarrow> int \<Rightarrow> decision \<times> limiter" where
  "Allow ws now keyID limit =
     (let w = (case ws keyID of
                 None \<Rightarrow> \<lparr>start = now, count = 0\<rparr>
               | Some w \<Rightarrow> (if Window \<le> time_sub now (start w) then \<lparr>start = now, count = 0\<rparr> else w))
      in if limit \<le> count w
         then (\<lparr>Allowed = False, RetryAfter = max (i64 (Window - time_sub now (start w))) 0\<rparr>,
               ws(keyID \<mapsto> w))
         else (\<lparr>Allowed = True, RetryAfter = 0\<rparr>, ws(keyID \<mapsto> w\<lparr>count := i64 (count w + 1)\<rparr>)))"

text \<open>
  \<open>math.Ceil(RetryAfter.Seconds())\<close>: for a wait of at most a window the float quotient
  is exact enough that its ceiling is the integer ceiling.
\<close>

definition RetryAfterSeconds :: "decision \<Rightarrow> int" where
  "RetryAfterSeconds d =
     (if Allowed d then 0
      else let secs = - (- RetryAfter d div second) in if secs < 1 then 1 else secs)"

section \<open>The contract\<close>

text \<open>A history of calls \<open>(now, key, limit)\<close> and the decisions it produces.\<close>

fun allow_run ::
    "('s \<Rightarrow> instant \<Rightarrow> uint \<Rightarrow> int \<Rightarrow> decision \<times> 's) \<Rightarrow> 's \<Rightarrow> (instant \<times> uint \<times> int) list \<Rightarrow>
     (uint \<times> bool) list" where
  "allow_run allow s [] = []"
| "allow_run allow s ((now, k, limit) # cs) =
     (let (d, s') = allow s now k limit in (k, Allowed d) # allow_run allow s' cs)"

text \<open>The calls of \<open>G\<close> granted at times from \<open>a\<close> to before \<open>b\<close>.\<close>

definition grants :: "nat set \<Rightarrow> (nat \<Rightarrow> instant) \<Rightarrow> instant \<Rightarrow> instant \<Rightarrow> int" where
  "grants G \<tau> a b = int (card {i \<in> G. a \<le> \<tau> i \<and> \<tau> i < b})"

lemma grants_insert:
  "finite G \<Longrightarrow> i \<notin> G \<Longrightarrow>
   grants (insert i G) (\<tau>(i := now)) a b = grants G \<tau> a b + (if a \<le> now \<and> now < b then 1 else 0)"
proof -
  assume "finite G" "i \<notin> G"
  moreover from this have "{j \<in> insert i G. a \<le> (\<tau>(i := now)) j \<and> (\<tau>(i := now)) j < b} =
    (if a \<le> now \<and> now < b then insert i {j \<in> G. a \<le> \<tau> j \<and> \<tau> j < b} else {j \<in> G. a \<le> \<tau> j \<and> \<tau> j < b})"
    by auto
  ultimately show ?thesis by (simp add: grants_def)
qed

lemma grants_le:
  "finite G \<Longrightarrow> (\<And>i. i \<in> H \<Longrightarrow> a' \<le> \<tau>' i \<Longrightarrow> \<tau>' i < b' \<Longrightarrow> i \<in> G \<and> a \<le> \<tau> i \<and> \<tau> i < b) \<Longrightarrow>
   grants H \<tau>' a' b' \<le> grants G \<tau> a b"
  unfolding grants_def by (simp, rule card_mono) auto

lemma grants_split:
  "finite G \<Longrightarrow> (\<And>i. i \<in> G \<Longrightarrow> a \<le> \<tau> i \<Longrightarrow> \<tau> i < b \<Longrightarrow> c \<le> \<tau> i \<and> \<tau> i < d \<or> d \<le> \<tau> i \<and> \<tau> i < e) \<Longrightarrow>
   grants G \<tau> a b \<le> grants G \<tau> c d + grants G \<tau> d e"
proof -
  assume "finite G" and *: "\<And>i. i \<in> G \<Longrightarrow> a \<le> \<tau> i \<Longrightarrow> \<tau> i < b \<Longrightarrow> c \<le> \<tau> i \<and> \<tau> i < d \<or> d \<le> \<tau> i \<and> \<tau> i < e"
  then have "card {i \<in> G. a \<le> \<tau> i \<and> \<tau> i < b} \<le>
      card ({i \<in> G. c \<le> \<tau> i \<and> \<tau> i < d} \<union> {i \<in> G. d \<le> \<tau> i \<and> \<tau> i < e})"
    by (intro card_mono) auto
  also have "\<dots> \<le> card {i \<in> G. c \<le> \<tau> i \<and> \<tau> i < d} + card {i \<in> G. d \<le> \<tau> i \<and> \<tau> i < e}" by (rule card_Un_le)
  finally show ?thesis by (simp add: grants_def)
qed

text \<open>\<open>used s now k\<close> is the number of requests already charged to the window that is
  current for \<open>k\<close> at \<open>now\<close>.\<close>

locale rate_limiter =
  fixes allow :: "'s \<Rightarrow> instant \<Rightarrow> uint \<Rightarrow> int \<Rightarrow> decision \<times> 's"
    and used :: "'s \<Rightarrow> instant \<Rightarrow> uint \<Rightarrow> int"
    and ok :: "'s \<Rightarrow> bool"
  assumes allowed_iff: "Allowed (fst (allow s now k limit)) \<longleftrightarrow> used s now k < limit"
    and used_after: "ok s \<Longrightarrow> limit \<le> max_i64 \<Longrightarrow> used (snd (allow s now k limit)) now k =
      used s now k + (if Allowed (fst (allow s now k limit)) then 1 else 0)"
    and used_other: "k' \<noteq> k \<Longrightarrow> used (snd (allow s now k limit)) t k' = used s t k'"
    and used_range: "ok s \<Longrightarrow> 0 \<le> used s now k"
    and ok_allow: "ok s \<Longrightarrow> limit \<le> max_i64 \<Longrightarrow> ok (snd (allow s now k limit))"

text \<open>A limiter of fixed windows also says when a key's last window opened: the first call after its
  end opens the next one.\<close>

locale fixed_window = rate_limiter allow used ok
  for allow :: "'s \<Rightarrow> instant \<Rightarrow> uint \<Rightarrow> int \<Rightarrow> decision \<times> 's" and used and ok +
  fixes opened :: "'s \<Rightarrow> uint \<Rightarrow> instant option"
  assumes fresh: "(\<And>b. opened s k = Some b \<Longrightarrow> b + Window \<le> now) \<Longrightarrow>
      used s now k = 0 \<and> opened (snd (allow s now k limit)) k = Some now"
    and stays: "opened s k = Some b \<Longrightarrow> now < b + Window \<Longrightarrow> opened (snd (allow s now k limit)) k = Some b"
    and steady: "opened s k = Some b \<Longrightarrow> t < b + Window \<Longrightarrow> used s t k = used s b k"
    and opened_other: "k' \<noteq> k \<Longrightarrow> opened (snd (allow s now k limit)) k' = opened s k'"
begin

text \<open>Inside one window the calls are granted until the limit is used up.\<close>

lemma window_run:
  "ok s \<Longrightarrow> limit \<le> max_i64 \<Longrightarrow> opened s k = Some b \<Longrightarrow> (\<And>t. t \<in> set ts \<Longrightarrow> b \<le> t \<and> t < b + Window) \<Longrightarrow>
   map snd (allow_run allow s (map (\<lambda>t. (t, k, limit)) ts)) =
     replicate (min (length ts) (nat (limit - used s b k))) True @
     replicate (length ts - nat (limit - used s b k)) False"
proof (induction ts arbitrary: s)
  case Nil
  then show ?case by simp
next
  case (Cons t ts)
  let ?r = "allow s t k limit"
  have t: "t < b + Window" "b < b + Window" using Cons.prems(4) [of t] by simp_all
  have o: "opened (snd ?r) k = Some b" by (rule stays [OF Cons.prems(3) t(1)])
  have u: "used (snd ?r) b k = used s b k + (if Allowed (fst ?r) then 1 else 0)"
    using used_after [OF Cons.prems(1,2), of t k] steady [OF o t(1)] steady [OF Cons.prems(3) t(1)] by simp
  have a: "Allowed (fst ?r) \<longleftrightarrow> used s b k < limit"
    using steady [OF Cons.prems(3) t(1)] by (simp add: allowed_iff)
  have "map snd (allow_run allow (snd ?r) (map (\<lambda>t. (t, k, limit)) ts)) =
     replicate (min (length ts) (nat (limit - used (snd ?r) b k))) True @
     replicate (length ts - nat (limit - used (snd ?r) b k)) False"
    using Cons.prems o by (intro Cons.IH ok_allow) auto
  moreover have "nat (limit - used s b k) = (if Allowed (fst ?r) then Suc (nat (limit - used (snd ?r) b k)) else 0)"
    using a u by auto
  ultimately show ?case using a u by (auto simp: split_beta Let_def)
qed

text \<open>Every call is made in a window that is open at its time.\<close>

lemma window_of_call:
  assumes "ok s" "limit \<le> max_i64" "\<And>b. opened s k = Some b \<Longrightarrow> b \<le> now"
  obtains b where "opened (snd (allow s now k limit)) k = Some b" "b \<le> now" "now < b + Window"
    "used (snd (allow s now k limit)) b k = used s now k + (if Allowed (fst (allow s now k limit)) then 1 else 0)"
    "opened s k = Some b \<and> used s now k = used s b k \<or>
     used s now k = 0 \<and> b = now \<and> (\<forall>b0. opened s k = Some b0 \<longrightarrow> b0 + Window \<le> now)"
proof (cases "\<exists>b. opened s k = Some b \<and> now < b + Window")
  case True
  then obtain b where b: "opened s k = Some b" "now < b + Window" by blast
  note o = stays [OF b]
  have u: "used (snd (allow s now k limit)) now k = used (snd (allow s now k limit)) b k" "used s now k = used s b k"
    using steady [OF o b(2)] steady [OF b] by simp_all
  show thesis
    by (rule that [OF o assms(3) [OF b(1)] b(2)]) (use used_after [OF assms(1,2), of now k] u b in simp_all)
next
  case False
  then have "\<And>b. opened s k = Some b \<Longrightarrow> b + Window \<le> now" by force
  note f = this fresh [OF this, where limit = limit]
  show thesis
    by (rule that [of now]) (use f used_after [OF assms(1,2), of now k] in \<open>auto simp: Window_def\<close>)
qed

text \<open>The ledger of a key's grants \<open>G\<close>, at times \<open>\<tau>\<close>: no minute holds two limits, the open window
  no more than are charged to it. The call that opens a window is charged to it, so the minute
  before the open window, without the instant it began at, holds less than one limit.\<close>

definition paced :: "int \<Rightarrow> nat set \<Rightarrow> (nat \<Rightarrow> instant) \<Rightarrow> 's \<Rightarrow> uint \<Rightarrow> instant \<Rightarrow> bool" where
  "paced L G \<tau> s k now \<longleftrightarrow> finite G \<and> ok s \<and> (\<forall>a. grants G \<tau> a (a + Window) < 2 * L) \<and>
     (case opened s k of
        None \<Rightarrow> G = {}
      | Some b \<Rightarrow> b \<le> now \<and> (\<forall>i \<in> G. \<tau> i < b + Window) \<and> grants G \<tau> (b - Window + 1) b < L \<and>
          grants G \<tau> b (b + Window) \<le> used s b k \<and> grants G \<tau> (b + 1) (b + Window) < used s b k \<and> used s b k \<le> L)"

lemma paced_start: "ok s \<Longrightarrow> opened s k = None \<Longrightarrow> 0 < L \<Longrightarrow> paced L {} \<tau> s k now"
  by (simp add: paced_def grants_def)

lemma paced_fewer:
  assumes "paced L G \<tau> s k now" "H \<subseteq> G" "\<And>i. i \<in> H \<Longrightarrow> \<tau>' i = \<tau> i" "now \<le> later"
  shows "paced L H \<tau>' s k later"
proof -
  have f: "finite G" "finite H" using assms(1,2) finite_subset by (auto simp: paced_def)
  have le: "grants H \<tau>' a b \<le> grants G \<tau> a b" for a b
    using assms(2,3) f by (intro grants_le) auto
  have all: "\<forall>a. grants H \<tau>' a (a + Window) < 2 * L"
    using assms(1) le by (auto simp: paced_def intro: order.strict_trans1)
  show ?thesis
  proof (cases "opened s k")
    case None
    then show ?thesis using assms(1,2) f all by (simp add: paced_def)
  next
    case (Some b)
    have "\<forall>i \<in> H. \<tau>' i < b + Window" using assms(1-3) Some by (auto simp: paced_def)
    then show ?thesis
      using assms(1,4) f all Some le [of "b - Window + 1" b] le [of b "b + Window"] le [of "b + 1" "b + Window"]
      by (simp add: paced_def)
  qed
qed

lemma paced_other:
  "paced L G \<tau> s k now \<Longrightarrow> k \<noteq> k' \<Longrightarrow> limit \<le> max_i64 \<Longrightarrow> paced L G \<tau> (snd (allow s t k' limit)) k now"
  by (cases "opened s k") (auto simp: paced_def opened_other used_other ok_allow)

lemma paced_call:
  assumes "paced L G \<tau> s k t" "t \<le> now" "1 \<le> limit" "limit \<le> L" "L \<le> max_i64" "i \<notin> G"
  defines "r \<equiv> allow s now k limit"
  shows "paced L (if Allowed (fst r) then insert i G else G) (\<tau>(i := now)) (snd r) k now"
proof -
  have ok: "ok s" "finite G" and old: "\<And>a. grants G \<tau> a (a + Window) < 2 * L"
    using assms(1) by (auto simp: paced_def)
  have lim: "limit \<le> max_i64" using assms(4,5) by simp
  have "\<And>b. opened s k = Some b \<Longrightarrow> b \<le> now" using assms(1,2) by (auto simp: paced_def)
  from window_of_call [OF ok(1) lim this] obtain b where
    b: "opened (snd r) k = Some b" "b \<le> now" "now < b + Window"
      "used (snd r) b k = used s now k + (if Allowed (fst r) then 1 else 0)"
      "opened s k = Some b \<and> used s now k = used s b k \<or>
       used s now k = 0 \<and> b = now \<and> (\<forall>b0. opened s k = Some b0 \<longrightarrow> b0 + Window \<le> now)"
    unfolding r_def by blast
  have before: "(\<forall>i \<in> G. \<tau> i < b + Window) \<and> grants G \<tau> (b - Window + 1) b < L \<and>
      grants G \<tau> b (b + Window) \<le> used s now k \<and> used s now k \<le> L \<and>
      (grants G \<tau> (b + 1) (b + Window) < used s now k \<or> b = now \<and> used s now k = 0 \<and> grants G \<tau> (b + 1) (b + Window) = 0)"
    using b(5)
  proof
    assume "opened s k = Some b \<and> used s now k = used s b k"
    then show ?thesis using assms(1) by (simp add: paced_def)
  next
    assume new: "used s now k = 0 \<and> b = now \<and> (\<forall>b0. opened s k = Some b0 \<longrightarrow> b0 + Window \<le> now)"
    show ?thesis
    proof (cases "opened s k")
      case None
      then show ?thesis using assms(1,3,4) new by (simp add: paced_def grants_def)
    next
      case (Some b0)
      then have *: "b0 + Window \<le> now" "\<forall>i \<in> G. \<tau> i < b0 + Window" "grants G \<tau> (b0 + 1) (b0 + Window) < L"
        using new assms(1) by (auto simp: paced_def)
      have "grants G \<tau> (now - Window + 1) now \<le> grants G \<tau> (b0 + 1) (b0 + Window)" using * ok(2) by (intro grants_le) auto
      moreover have "grants G \<tau> now (now + Window) = 0" "grants G \<tau> (now + 1) (now + Window) = 0"
        using * by (force simp: grants_def card_eq_0_iff)+
      ultimately show ?thesis using * new assms(3,4) by (force simp: Window_def)
    qed
  qed
  let ?G = "if Allowed (fst r) then insert i G else G"
  have g: "grants ?G (\<tau>(i := now)) a c =
      grants G \<tau> a c + (if Allowed (fst r) \<and> a \<le> now \<and> now < c then 1 else 0)" for a c
  proof (cases "Allowed (fst r)")
    case True
    then show ?thesis using grants_insert [OF ok(2) assms(6)] by simp
  next
    case False
    have "{j \<in> G. a \<le> (\<tau>(i := now)) j \<and> (\<tau>(i := now)) j < c} = {j \<in> G. a \<le> \<tau> j \<and> \<tau> j < c}"
      using assms(6) by auto
    with False show ?thesis by (simp add: grants_def)
  qed
  have allowed: "Allowed (fst r) \<longleftrightarrow> used s now k < limit" by (simp add: r_def allowed_iff)
  have top: "used (snd r) b k \<le> L" using b(4) before assms(4) allowed by auto
  have all: "grants ?G (\<tau>(i := now)) a (a + Window) < 2 * L" for a
  proof (cases "a \<le> now \<and> now < a + Window")
    case False
    then show ?thesis using old [of a] g [of a "a + Window"] by auto
  next
    case True
    have "grants G \<tau> a (a + Window) \<le> grants G \<tau> (b - Window + 1) b + grants G \<tau> b (b + Window)"
      using before b(2) True by (intro grants_split [OF ok(2)]) auto
    then show ?thesis using g [of a "a + Window"] before b(4) top True by (auto split: if_splits)
  qed
  have rest: "grants ?G (\<tau>(i := now)) b (b + Window) \<le> used (snd r) b k"
    "grants ?G (\<tau>(i := now)) (b + 1) (b + Window) < used (snd r) b k"
    "grants ?G (\<tau>(i := now)) (b - Window + 1) b < L"
    using before b(2-4) g [of b "b + Window"] g [of "b + 1" "b + Window"] g [of "b - Window + 1" b] assms(3) allowed
    by (auto split: if_splits)
  have "finite ?G" "ok (snd r)" using ok ok_allow [OF ok(1) lim] by (simp_all add: r_def)
  then show ?thesis
    using all before top b(1-3) rest assms(6) by (auto simp: paced_def)
qed

end

section \<open>The limiter meets the contract\<close>

definition window_used :: "limiter \<Rightarrow> instant \<Rightarrow> uint \<Rightarrow> int" where
  "window_used ws now k =
     (case ws k of None \<Rightarrow> 0 | Some w \<Rightarrow> (if Window \<le> time_sub now (start w) then 0 else count w))"

definition limiter_ok :: "limiter \<Rightarrow> bool" where
  "limiter_ok ws \<longleftrightarrow> (\<forall>k w. ws k = Some w \<longrightarrow> 0 \<le> count w \<and> count w \<le> max_i64)"

lemma Window_value [simp]: "Window = 60000000000"
  by (simp add: Window_def)

lemma Allow_Allowed: "Allowed (fst (Allow ws now k limit)) \<longleftrightarrow> window_used ws now k < limit"
  by (auto simp: Allow_def window_used_def Let_def split: option.splits)

lemma Allow_frame: "k' \<noteq> k \<Longrightarrow> snd (Allow ws now k limit) k' = ws k'"
  by (auto simp: Allow_def Let_def)

lemma Allow_used:
  "limiter_ok ws \<Longrightarrow> limit \<le> max_i64 \<Longrightarrow>
   window_used (snd (Allow ws now k limit)) now k =
     window_used ws now k + (if window_used ws now k < limit then 1 else 0)"
  by (auto simp: Allow_def window_used_def limiter_ok_def Let_def split: option.splits)

lemma limiter_ok_Allow:
  "limiter_ok ws \<Longrightarrow> limit \<le> max_i64 \<Longrightarrow> limiter_ok (snd (Allow ws now k limit))"
  by (auto simp: Allow_def limiter_ok_def Let_def split: option.splits if_splits)

definition window_opened :: "limiter \<Rightarrow> uint \<Rightarrow> instant option" where
  "window_opened ws k = map_option start (ws k)"

interpretation rl: fixed_window Allow window_used limiter_ok window_opened
proof (unfold_locales, goal_cases)
  case (3 k' k s now limit t)
  then show ?case by (simp add: window_used_def Allow_frame)
next
  case (4 s now k)
  then show ?case by (auto simp: window_used_def limiter_ok_def split: option.splits)
next
  case (6 s k now limit)
  then show ?case
    by (auto simp: window_opened_def window_used_def Allow_def time_sub_ge_iff Let_def split: option.splits)
next
  case (7 s k b now limit)
  then show ?case by (auto simp: window_opened_def Allow_def time_sub_ge_iff Let_def)
next
  case (8 s k b t)
  then show ?case by (auto simp: window_opened_def window_used_def time_sub_ge_iff)
qed (simp_all add: Allow_Allowed Allow_used limiter_ok_Allow window_opened_def Allow_frame)

lemma limiter_empty [simp]: "limiter_ok Map.empty" "window_opened Map.empty k = None"
  by (simp_all add: limiter_ok_def window_opened_def)

section \<open>Runs of calls\<close>

lemma Allow_cong:
  "ws k = ws' k \<Longrightarrow> fst (Allow ws now k limit) = fst (Allow ws' now k limit) \<and>
     snd (Allow ws now k limit) k = snd (Allow ws' now k limit) k"
  by (simp add: Allow_def Let_def split: option.splits)

lemma allow_run_cong:
  "ws k = ws' k \<Longrightarrow> (\<And>c. c \<in> set cs \<Longrightarrow> fst (snd c) = k) \<Longrightarrow> allow_run Allow ws cs = allow_run Allow ws' cs"
proof (induction cs arbitrary: ws ws')
  case Nil
  then show ?case by simp
next
  case (Cons c cs)
  obtain now limit where c: "c = (now, k, limit)" using Cons.prems(2) [of c] by (cases c) auto
  have "allow_run Allow (snd (Allow ws now k limit)) cs = allow_run Allow (snd (Allow ws' now k limit)) cs"
    using Cons.prems Allow_cong [of ws k ws' now limit] by (intro Cons.IH) auto
  with Cons.prems(1) Allow_cong [of ws k ws' now limit] show ?case
    by (simp add: c split_beta)
qed

lemma Allow_in_window:
  assumes "ws k = Some \<lparr>start = t0, count = c\<rparr>" "t0 \<le> t" "t < t0 + Window"
  shows "Allow ws t k limit =
    (if limit \<le> c then (\<lparr>Allowed = False, RetryAfter = Window - (t - t0)\<rparr>, ws)
     else (\<lparr>Allowed = True, RetryAfter = 0\<rparr>, ws(k \<mapsto> \<lparr>start = t0, count = i64 (c + 1)\<rparr>)))"
proof -
  have "time_sub t t0 = t - t0" using assms by (intro time_sub_exact) simp
  moreover have "ws(k \<mapsto> \<lparr>start = t0, count = c\<rparr>) = ws" using assms(1) by auto
  ultimately show ?thesis using assms by (simp add: Allow_def)
qed

lemma RetryAfterSeconds_bounds:
  assumes "\<forall>w. ws k = Some w \<longrightarrow> start w \<le> now" and "\<not> Allowed (fst (Allow ws now k limit))"
  shows "1 \<le> RetryAfterSeconds (fst (Allow ws now k limit)) \<and> RetryAfterSeconds (fst (Allow ws now k limit)) \<le> 60"
proof -
  let ?d = "fst (Allow ws now k limit)"
  define t where "t = (case ws k of None \<Rightarrow> now
    | Some w \<Rightarrow> if Window \<le> time_sub now (start w) then now else start w)"
  have "t \<le> now" using assms(1) by (auto simp: t_def split: option.split)
  then have sub: "0 \<le> time_sub now t" "time_sub now t \<le> max_i64" by (auto simp: time_sub_def)
  have "RetryAfter ?d = max (i64 (Window - time_sub now t)) 0"
    using assms(2) by (cases "ws k") (auto simp: Allow_def t_def Let_def split: if_splits)
  moreover have "i64 (Window - time_sub now t) = Window - time_sub now t" using sub by simp
  ultimately have r: "RetryAfter ?d \<le> Window" using sub by simp
  have "- (- RetryAfter ?d div second) \<le> 60"
    using div_mult_mod_eq [of "- RetryAfter ?d" second] pos_mod_bound [of second "- RetryAfter ?d"] r by simp
  then show ?thesis using assms(2) by (simp add: RetryAfterSeconds_def Let_def)
qed

section \<open>Properties\<close>

text \<open>C21: the quota is exact. From the request that opens a key's window, the first
  \<open>limit\<close> requests of that minute are admitted and every later one is refused.\<close>

theorem quota_exact:
  assumes "ws k = None \<or> (\<exists>w. ws k = Some w \<and> Window \<le> time_sub t0 (start w))"
    and "1 \<le> limit" and "limit \<le> max_i64"
    and "\<And>t. t \<in> set ts \<Longrightarrow> t0 \<le> t \<and> t < t0 + Window"
  shows "map snd (allow_run Allow ws (map (\<lambda>t. (t, k, limit)) (t0 # ts))) =
    replicate (min (Suc (length ts)) (nat limit)) True @ replicate (Suc (length ts) - nat limit) False"
proof -
  have a: "Allow ws t0 k limit =
      (\<lparr>Allowed = True, RetryAfter = 0\<rparr>, ws(k \<mapsto> \<lparr>start = t0, count = 1\<rparr>))"
    using assms(1,2) by (auto simp: Allow_def)
  let ?w = "[k \<mapsto> \<lparr>start = t0, count = 1\<rparr>] :: limiter"
  have n: "nat limit = Suc (nat (limit - 1))" using assms(2) by simp
  have "allow_run Allow (ws(k \<mapsto> \<lparr>start = t0, count = 1\<rparr>)) (map (\<lambda>t. (t, k, limit)) ts) =
      allow_run Allow ?w (map (\<lambda>t. (t, k, limit)) ts)"
    by (rule allow_run_cong) auto
  moreover have "limiter_ok ?w" "window_opened ?w k = Some t0" "window_used ?w t0 k = 1"
    by (simp_all add: limiter_ok_def window_opened_def window_used_def)
  ultimately show ?thesis
    using rl.window_run [of ?w limit k t0 ts] assms(3,4) by (simp add: a n)
qed

theorem quota_exact_witness:
  "map snd (allow_run Allow Map.empty (map (\<lambda>t. (t, 7, 2)) [0, 1, 2, 3])) = [True, True, False, False]"
  proof -
  have "map snd (allow_run Allow Map.empty (map (\<lambda>t. (t, 7, 2)) [0, 1, 2, 3])) =
      replicate (min (Suc (length [1, 2, 3 :: int])) (nat 2)) True @
      replicate (Suc (length [1, 2, 3 :: int]) - nat 2) False"
    by (rule quota_exact) auto
  also have "\<dots> = [True, True, False, False]" by code_simp
  finally show ?thesis .
qed

text \<open>Retry-After is exact. A refused request is told a positive wait of at most one
  window; the same key keeps being refused for the whole wait and is admitted at its end.
  The header's whole seconds round that wait up, by less than a second.\<close>

theorem retry_after_exact:
  assumes "Allow ws now k limit = (d, ws')" and "\<not> Allowed d"
    and "1 \<le> limit" and "\<And>w. ws k = Some w \<Longrightarrow> start w \<le> now"
  shows "0 < RetryAfter d \<and> RetryAfter d \<le> Window \<and>
    (\<forall>t. now \<le> t \<and> t < now + RetryAfter d \<longrightarrow> \<not> Allowed (fst (Allow ws' t k limit))) \<and>
    Allowed (fst (Allow ws' (now + RetryAfter d) k limit)) \<and>
    RetryAfter d \<le> RetryAfterSeconds d * second \<and>
    RetryAfterSeconds d * second < RetryAfter d + second"
proof -
  obtain w where w: "ws k = Some w" "time_sub now (start w) < Window" "limit \<le> count w"
    using assms(1-3) by (auto simp: Allow_def Let_def split: option.splits if_splits)
  have before: "start w \<le> now" using assms(4) w(1) by simp
  have sub: "time_sub now (start w) = now - start w"
    using w(2) before by (auto simp: time_sub_def)
  have win: "ws k = Some \<lparr>start = start w, count = count w\<rparr>" using w(1) by simp
  have d: "d = \<lparr>Allowed = False, RetryAfter = Window - (now - start w)\<rparr>" "ws' = ws"
    using Allow_in_window [of ws k "start w" "count w" now limit] win before w(2,3) sub assms(1) by auto
  have refused: "\<not> Allowed (fst (Allow ws t k limit))" if "now \<le> t" "t < start w + Window" for t
    using Allow_in_window [of ws k "start w" "count w" t limit] win that w(3) before by simp
  have "Allowed (fst (Allow ws (Window + start w) k limit))"
    using w(1) assms(3) by (simp add: Allow_Allowed window_used_def time_sub_def)
  moreover have "RetryAfter d \<le> - (- RetryAfter d div second) * second"
    "- (- RetryAfter d div second) * second < RetryAfter d + second"
    using div_mult_mod_eq [of "- RetryAfter d" second] pos_mod_sign [of second "- RetryAfter d"]
      pos_mod_bound [of second "- RetryAfter d"] by simp_all
  moreover have "0 < RetryAfter d" "RetryAfter d \<le> Window" using w(2) before sub by (simp_all add: d)
  ultimately show ?thesis
    using refused by (auto simp: RetryAfterSeconds_def Let_def d)
qed

theorem retry_after_exact_witness:
  "let ws = [7 \<mapsto> \<lparr>start = 0, count = 2\<rparr>]; d = fst (Allow ws (30 * second) 7 2)
   in \<not> Allowed d \<and> RetryAfter d = 30 * second \<and>
      Allowed (fst (Allow ws (30 * second + RetryAfter d) 7 2))"
proof -
  let ?ws = "[7 \<mapsto> \<lparr>start = 0, count = 2\<rparr>] :: limiter"
  let ?d = "\<lparr>Allowed = False, RetryAfter = 30 * second\<rparr>"
  have a: "Allow ?ws (30 * second) 7 2 = (?d, ?ws)"
    by (simp add: Allow_def time_sub_def)
  have "0 < RetryAfter ?d \<and> RetryAfter ?d \<le> Window \<and>
    (\<forall>t. 30 * second \<le> t \<and> t < 30 * second + RetryAfter ?d \<longrightarrow> \<not> Allowed (fst (Allow ?ws t 7 2))) \<and>
    Allowed (fst (Allow ?ws (30 * second + RetryAfter ?d) 7 2)) \<and>
    RetryAfter ?d \<le> RetryAfterSeconds ?d * second \<and>
    RetryAfterSeconds ?d * second < RetryAfter ?d + second"
    by (rule retry_after_exact [OF a]) auto
  moreover have "RetryAfter ?d = 30 * second" by simp
  ultimately show ?thesis by (simp only: Let_def a fst_conv) simp
qed

text \<open>Keys do not share a window. In any interleaving of requests, the decisions one
  key receives are those it would receive alone.\<close>

theorem keys_isolated:
  "filter (\<lambda>r. fst r = k) (allow_run Allow ws cs) = allow_run Allow ws (filter (\<lambda>c. fst (snd c) = k) cs)"
proof (induction cs arbitrary: ws)
  case Nil
  then show ?case by simp
next
  case (Cons c cs)
  obtain now k' limit where c: "c = (now, k', limit)" by (cases c)
  show ?case
  proof (cases "k' = k")
    case True
    then show ?thesis using Cons by (simp add: c split_beta)
  next
    case False
    have "allow_run Allow (snd (Allow ws now k' limit)) (filter (\<lambda>c. fst (snd c) = k) cs)
        = allow_run Allow ws (filter (\<lambda>c. fst (snd c) = k) cs)"
      using False by (intro allow_run_cong [of _ k]) (auto simp: Allow_frame)
    with False Cons show ?thesis by (simp add: c split_beta)
  qed
qed

end
