(* ===== verification/Handler.thy ===== *)
theory Handler
  imports Embeddings Budget RateLimit
begin

text \<open>
  The enforcement point (src/internal/proxy/handler.go), the forwarder
  (src/internal/proxy/forwarder.go) and the error envelope. A request runs in stages, each
  of which reads the world once: other requests run in between, so each stage is given the
  state it finds. The handler is their composition and returns its effects in order.
\<close>

section \<open>Requests and replies\<close>

record request =
  req_key :: "apikey option"
  req_path :: string
  req_body :: string
  req_broken :: bool

datatype reply_body = ErrorBody string string | Relayed string

record reply =
  rp_status :: int
  rp_headers :: "(string \<times> string) list"
  rp_body :: reply_body

definition WriteError :: "(string \<times> string) list \<Rightarrow> int \<Rightarrow> string \<Rightarrow> string \<Rightarrow> reply" where
  "WriteError headers status errType message =
     \<lparr>rp_status = status, rp_headers = headers @ [(''Content-Type'', ''application/json'')],
      rp_body = ErrorBody errType message\<rparr>"

definition defaultMaxBodyBytes :: int where
  "defaultMaxBodyBytes = 10 * 2 ^ 20"

section \<open>The forwarder\<close>

definition maxUpstreamBytes :: int where
  "maxUpstreamBytes = 64 * 2 ^ 20"

datatype forward_error = BuildRequest | UpstreamCall | ReadBody | TooManyBytes

text \<open>What the HTTP client brings back: the status, the content type, the bytes of the body
  and whether the stream breaks after them.\<close>

record http_response =
  hr_status :: int
  hr_content_type :: string
  hr_stream :: string
  hr_broken :: bool

record upstream =
  up_status :: int
  up_content_type :: string
  up_body :: string

type_synonym http_client = "string \<Rightarrow> string \<Rightarrow> forward_error + http_response"

definition Forward :: "string \<Rightarrow> http_client \<Rightarrow> string \<Rightarrow> string \<Rightarrow> forward_error + upstream" where
  "Forward baseURL client path body =
     (case client (baseURL @ path) body of
        Inl e \<Rightarrow> Inl e
      | Inr r \<Rightarrow>
          (let got = take_int (maxUpstreamBytes + 1) (hr_stream r)
           in if hr_broken r \<and> int (length got) < maxUpstreamBytes + 1 then Inl ReadBody
              else if maxUpstreamBytes < int (length got) then Inl TooManyBytes
              else Inr \<lparr>up_status = hr_status r, up_content_type = hr_content_type r, up_body = got\<rparr>))"

section \<open>The stages\<close>

text \<open>Authentication, body, decoding and batch size need nothing but the request.\<close>

definition input_message :: "input_error \<Rightarrow> string" where
  "input_message e = (case e of InvalidInput \<Rightarrow> ''input must be a non-empty string or array''
                              | InputTooLarge \<Rightarrow> ''input array is too large'')"

definition check_request :: "int \<Rightarrow> (string \<Rightarrow> json option) \<Rightarrow> request \<Rightarrow> reply + apikey \<times> int" where
  "check_request maxBody parse r =
     (case req_key r of
        None \<Rightarrow> Inl (WriteError [] 401 ''invalid_request_error'' ''missing API key'')
      | Some key \<Rightarrow>
          if req_broken r \<or> maxBody < int (length (req_body r))
          then Inl (WriteError [] 413 ''invalid_request_error'' ''request body too large'')
          else case unmarshal_request (parse (req_body r)) of
            Inl _ \<Rightarrow> Inl (WriteError [] 400 ''invalid_request_error'' ''request body is not valid JSON'')
          | Inr raw \<Rightarrow>
              (case countInputs raw (BatchMax key) of
                 Inl e \<Rightarrow> Inl (WriteError [] 400 ''invalid_request_error'' (input_message e))
               | Inr n \<Rightarrow>
                   if \<not> AllowsBatch key n
                   then Inl (WriteError [] 400 ''invalid_request_error''
                     (''batch size '' @ Itoa n @ '' exceeds the limit of '' @ Itoa (BatchMax key) @
                      '' inputs per request''))
                   else Inr (key, n)))"

definition check_rate :: "limiter \<Rightarrow> instant \<Rightarrow> apikey \<Rightarrow> reply option \<times> limiter" where
  "check_rate lim now key =
     (let (d, lim') = Allow lim now (ID key) (RatePerMin key)
      in (if Allowed d then None
          else Some (WriteError [(''Retry-After'', Itoa (RetryAfterSeconds d))] 429 ''rate_limit_exceeded''
            (''rate limit of '' @ Itoa (RatePerMin key) @ '' requests/min exceeded; retry in '' @
             Itoa (RetryAfterSeconds d) @ '' seconds'')), lim'))"

definition check_budget ::
    "(uint \<Rightarrow> instant \<Rightarrow> instant \<Rightarrow> repo_error + int) \<Rightarrow> zone \<Rightarrow> instant \<Rightarrow> apikey \<Rightarrow> reply + status" where
  "check_budget sumf loc now key =
     (case Status sumf loc now key of
        Inl _ \<Rightarrow> Inl (WriteError [] 500 ''internal_error'' ''could not evaluate token budget'')
      | Inr st \<Rightarrow>
          if Exhausted st
          then Inl (WriteError [] 402 ''insufficient_quota'' ''token budget exhausted for this key'')
          else Inr st)"

definition usage_event_of :: "string \<Rightarrow> instant \<Rightarrow> apikey \<Rightarrow> int \<Rightarrow> int \<Rightarrow> event" where
  "usage_event_of model now key toks n =
     \<lparr>EventID = 0, APIKeyID = ID key, Model = model, PromptTokens = toks, BatchSize = n, EventAt = now\<rparr>"

definition relay :: "(string \<times> string) list \<Rightarrow> upstream \<Rightarrow> reply" where
  "relay headers up =
     \<lparr>rp_status = up_status up,
      rp_headers = headers @ (if up_content_type up \<noteq> [] then [(''Content-Type'', up_content_type up)] else []),
      rp_body = Relayed (up_body up)\<rparr>"

section \<open>The handler\<close>

text \<open>The world as the stages find it, in the order they read it.\<close>

record 'db world =
  w_limiter :: limiter
  w_allow_now :: instant
  w_sum :: "uint \<Rightarrow> instant \<Rightarrow> instant \<Rightarrow> repo_error + int"
  w_zone :: zone
  w_status_now :: instant
  w_admitted :: bool
  w_client :: http_client
  w_event_now :: instant
  w_db :: 'db

text \<open>\<open>Enter\<close> is the call of \<open>Acquire\<close>, whether it returns with a slot or with an error; \<open>Free\<close> is a
  call of the release function; \<open>Store\<close> carries the state the write leaves.\<close>

datatype 'db effect =
  SetLimiter limiter
| Enter int
| Send string string
| Free
| Store event 'db

record gateway_config =
  g_maxBody :: int
  g_model :: string
  g_baseURL :: string
  g_parse :: "string \<Rightarrow> json option"

definition Embeddings ::
    "gateway_config \<Rightarrow> ('db \<Rightarrow> event \<Rightarrow> repo_error option \<times> 'db) \<Rightarrow> 'db world \<Rightarrow> request \<Rightarrow>
     reply \<times> 'db effect list" where
  "Embeddings h rec w r =
     (case check_request (g_maxBody h) (g_parse h) r of
        Inl rp \<Rightarrow> (rp, [])
      | Inr (key, n) \<Rightarrow>
     case check_rate (w_limiter w) (w_allow_now w) key of
        (Some rp, lim) \<Rightarrow> (rp, [SetLimiter lim])
      | (None, lim) \<Rightarrow>
     case check_budget (w_sum w) (w_zone w) (w_status_now w) key of
        Inl rp \<Rightarrow> (rp, [SetLimiter lim])
      | Inr st \<Rightarrow>
     if \<not> w_admitted w
     then (WriteError [] 503 ''service_unavailable'' ''request cancelled while queued for the embedding pool'',
           [SetLimiter lim, Enter (Priority key)])
     else
     let before = [SetLimiter lim, Enter (Priority key), Send (req_path r) (req_body r), Free] in
     case Forward (g_baseURL h) (w_client w) (req_path r) (req_body r) of
        Inl _ \<Rightarrow> (WriteError [] 502 ''upstream_error'' ''embedding backend unavailable'', before @ [Free])
      | Inr up \<Rightarrow>
     if up_status up = 200
     then let ev = usage_event_of (g_model h) (w_event_now w) key (parsePromptTokens (g_parse h (up_body up))) n;
              headers = (if RemainingTokens st \<noteq> Unlimited
                         then [(''X-Token-Budget-Remaining'', Itoa (RemainingTokens st))] else [])
          in (relay headers up, before @ [Store ev (snd (rec (w_db w) ev)), Free])
     else (relay [] up, before @ [Free]))"

section \<open>What the checks admit\<close>

text \<open>The specification of an acceptable request, in terms of the components' own promises:
  a present key, a body that fits, a true input count within the batch limit, quota left in
  the key's window, and budget left in its period.\<close>

definition well_formed :: "gateway_config \<Rightarrow> request \<Rightarrow> apikey \<Rightarrow> int \<Rightarrow> bool" where
  "well_formed h r key n \<longleftrightarrow> req_key r = Some key \<and> \<not> req_broken r \<and>
     int (length (req_body r)) \<le> g_maxBody h \<and>
     (\<exists>v. unmarshal_request (g_parse h (req_body r)) = Inr (Some v) \<and> input_count v = Some n \<and>
        1 \<le> n \<and> n \<le> BatchMax key \<and> (\<forall>xs. v = JArr xs \<longrightarrow> int (length xs) \<le> maxInputArrayElements))"

definition in_quota :: "'db world \<Rightarrow> apikey \<Rightarrow> bool" where
  "in_quota w key \<longleftrightarrow> window_used (w_limiter w) (w_allow_now w) (ID key) < RatePerMin key"

definition in_budget :: "'db world \<Rightarrow> apikey \<Rightarrow> bool" where
  "in_budget w key \<longleftrightarrow> IsUnlimited key \<or>
     (\<exists>used. w_sum w (ID key) (period_start (w_zone w) (w_status_now w) key) (w_status_now w) = Inr used \<and>
        used < TokenBudget key)"

lemma check_request_Inr:
  "check_request (g_maxBody h) (g_parse h) r = Inr (key, n) \<longleftrightarrow> well_formed h r key n"
proof -
  have some: "\<exists>v. raw = Some v" if "countInputs raw l = Inr m" for raw l m
    using that by (cases raw) (simp_all add: countInputs_def)
  have "well_formed h r key n \<longleftrightarrow> req_key r = Some key \<and> \<not> req_broken r \<and>
     int (length (req_body r)) \<le> g_maxBody h \<and>
     (\<exists>v. unmarshal_request (g_parse h (req_body r)) = Inr (Some v) \<and>
        countInputs (Some v) (BatchMax key) = Inr n \<and> AllowsBatch key n)"
    unfolding well_formed_def by (simp add: countInputs_accepts)
  then show ?thesis
    by (auto simp: check_request_def split: option.splits sum.splits if_splits dest: some)
qed

lemma check_rate_quota: "fst (check_rate (w_limiter w) (w_allow_now w) key) = None \<longleftrightarrow> in_quota w key"
  by (auto simp: check_rate_def in_quota_def rl.allowed_iff [symmetric] split: prod.split)

lemma check_budget_Inr:
  "(\<exists>st. check_budget (w_sum w) (w_zone w) (w_status_now w) key = Inr st) \<longleftrightarrow> in_budget w key"
proof (cases "IsUnlimited key")
  case True
  then show ?thesis by (simp add: check_budget_def in_budget_def Status_def)
next
  case False
  then show ?thesis
    by (auto simp: check_budget_def in_budget_def Status_limited split: sum.splits)
qed

text \<open>The four ways a request can end, with the replies and effects of each.\<close>

lemma Embeddings_cases:
  obtains (refused) rp where "Embeddings h rec w r = (rp, [])"
      "check_request (g_maxBody h) (g_parse h) r = Inl rp"
  | (stopped) key n lim rp st t m where "well_formed h r key n" "lim = snd (Allow (w_limiter w) (w_allow_now w) (ID key) (RatePerMin key))"
      "Embeddings h rec w r = (rp, SetLimiter lim #
        (if in_quota w key \<and> in_budget w key then [Enter (Priority key)] else []))"
      "\<not> (in_quota w key \<and> in_budget w key \<and> w_admitted w)"
      "rp = WriteError (if in_quota w key then [] else [(''Retry-After'', Itoa (RetryAfterSeconds
         (fst (Allow (w_limiter w) (w_allow_now w) (ID key) (RatePerMin key)))))]) st t m"
      "st = 429 \<longleftrightarrow> \<not> in_quota w key" "in_quota w key \<and> in_budget w key \<longrightarrow> st = 503"
  | (failed) key n lim e where "well_formed h r key n" "in_quota w key" "in_budget w key" "w_admitted w"
      "Forward (g_baseURL h) (w_client w) (req_path r) (req_body r) = Inl e"
      "Embeddings h rec w r = (WriteError [] 502 ''upstream_error'' ''embedding backend unavailable'',
        [SetLimiter lim, Enter (Priority key), Send (req_path r) (req_body r), Free, Free])"
  | (relayed) key n lim up hs st where "well_formed h r key n" "in_quota w key" "in_budget w key" "w_admitted w"
      "Status (w_sum w) (w_zone w) (w_status_now w) key = Inr st"
      "Forward (g_baseURL h) (w_client w) (req_path r) (req_body r) = Inr up"
      "Embeddings h rec w r = (relay hs up,
        [SetLimiter lim, Enter (Priority key), Send (req_path r) (req_body r), Free] @
        (if up_status up = 200
         then (let ev = usage_event_of (g_model h) (w_event_now w) key (parsePromptTokens (g_parse h (up_body up))) n
               in [Store ev (snd (rec (w_db w) ev))]) else []) @ [Free])"
      "hs = (if up_status up = 200 \<and> RemainingTokens st \<noteq> Unlimited
         then [(''X-Token-Budget-Remaining'', Itoa (RemainingTokens st))] else [])"
proof (cases "check_request (g_maxBody h) (g_parse h) r")
  case (Inl rp)
  then show ?thesis by (intro refused) (auto simp: Embeddings_def)
next
  case (Inr kn)
  obtain key n where kn: "kn = (key, n)" by (cases kn)
  note wf = Inr [unfolded kn check_request_Inr]
  obtain o1 lim where rate: "check_rate (w_limiter w) (w_allow_now w) key = (o1, lim)" by fastforce
  have lim: "lim = snd (Allow (w_limiter w) (w_allow_now w) (ID key) (RatePerMin key))"
    using rate by (auto simp: check_rate_def split: prod.splits)
  show ?thesis
  proof (cases o1)
    case (Some rp)
    then have "\<not> in_quota w key" using check_rate_quota [of w key] rate by simp
    moreover obtain m where "rp = WriteError [(''Retry-After'', Itoa (RetryAfterSeconds
         (fst (Allow (w_limiter w) (w_allow_now w) (ID key) (RatePerMin key)))))] 429 ''rate_limit_exceeded'' m"
      using rate Some by (auto simp: check_rate_def split: prod.splits if_splits)
    ultimately show ?thesis
      using stopped [OF wf lim, of rp 429 "''rate_limit_exceeded''" m] Inr kn rate Some
      by (simp add: Embeddings_def)
  next
    case None
    then have quota: "in_quota w key" using check_rate_quota [of w key] rate by simp
    show ?thesis
    proof (cases "check_budget (w_sum w) (w_zone w) (w_status_now w) key")
      case (Inl rp)
      then have "\<not> in_budget w key" using check_budget_Inr [of w key] by auto
      moreover obtain st t m where "rp = WriteError [] st t m" "st \<noteq> 429"
        using Inl by (auto simp: check_budget_def split: sum.splits if_splits)
      moreover have "Embeddings h rec w r = (rp, [SetLimiter lim])"
        using Inr kn rate None Inl by (simp add: Embeddings_def)
      ultimately show ?thesis using stopped [OF wf lim, of rp st t m] quota by simp
    next
      case budget: (Inr st)
      then have ib: "in_budget w key" using check_budget_Inr [of w key] by auto
      have st: "Status (w_sum w) (w_zone w) (w_status_now w) key = Inr st"
        using budget by (auto simp: check_budget_def split: sum.splits if_splits)
      show ?thesis
      proof (cases "w_admitted w")
        case False
        then show ?thesis
          using stopped [OF wf lim, of _ 503] quota ib Inr kn rate None budget by (simp add: Embeddings_def)
      next
        case adm: True
        show ?thesis
        proof (cases "Forward (g_baseURL h) (w_client w) (req_path r) (req_body r)")
          case (Inl e)
          then show ?thesis
            using failed [OF wf quota ib adm Inl] Inr kn rate None budget adm
            by (simp add: Embeddings_def Let_def)
        next
          case up: (Inr up)
          show ?thesis
            by (rule relayed [OF wf quota ib adm st up _ refl, of lim])
              (use Inr kn rate None budget adm up in \<open>simp add: Embeddings_def Let_def\<close>)
        qed
      qed
    qed
  qed
qed

section \<open>Properties\<close>

lemma well_formed_unique:
  "well_formed h r key n \<Longrightarrow> well_formed h r key' n' \<Longrightarrow> key' = key \<and> n' = n"
  by (auto simp: well_formed_def)

text \<open>C6: an upstream call is spent on acceptable requests only, and on all of them. The
  request is sent exactly when a key is attached, the body fits and its true input count is
  within the key's batch limit, the key's window has quota left, its budget is not used up
  and a slot was granted; and what is sent is the client's own path and body.\<close>

theorem sent_iff_acceptable:
  "Send p b \<in> set (snd (Embeddings h rec w r)) \<longleftrightarrow>
     p = req_path r \<and> b = req_body r \<and>
     (\<exists>key n. well_formed h r key n \<and> in_quota w key \<and> in_budget w key \<and> w_admitted w)"
proof (cases rule: Embeddings_cases [of h rec w r])
  case (refused rp)
  then have "\<not> well_formed h r key n" for key n using check_request_Inr [of h r key n] by simp
  with refused show ?thesis by simp
next
  case (stopped key n lim rp st t m)
  have "\<not> (well_formed h r key' n' \<and> in_quota w key' \<and> in_budget w key' \<and> w_admitted w)" for key' n'
    using stopped(4) well_formed_unique [OF stopped(1), of key' n'] by blast
  then show ?thesis by (auto simp: stopped(3))
next
  case (failed key n lim e)
  then show ?thesis by auto
next
  case (relayed key n lim up hs st)
  then show ?thesis by (auto simp: Let_def)
qed

text \<open>C5: a slot covers the upstream call and nothing else. Either the request never reaches the
  queue, sends nothing and stores nothing; or it enters the queue once, at its key's priority, and is
  cancelled there, and then sends, stores and frees nothing and is answered 503; or it enters
  once and is admitted, sends once, frees the slot before anything is stored, and ends with a
  second, harmless free.\<close>

theorem slot_discipline:
  "(\<exists>lims. snd (Embeddings h rec w r) = map SetLimiter lims \<and> length lims \<le> 1) \<or>
   (\<exists>lim key. req_key r = Some key \<and> \<not> w_admitted w \<and>
      snd (Embeddings h rec w r) = [SetLimiter lim, Enter (Priority key)] \<and>
      rp_status (fst (Embeddings h rec w r)) = 503) \<or>
   (\<exists>lim key stores. req_key r = Some key \<and> w_admitted w \<and>
      snd (Embeddings h rec w r) =
        [SetLimiter lim, Enter (Priority key), Send (req_path r) (req_body r), Free] @
        map (\<lambda>(e, db). Store e db) stores @ [Free] \<and> length stores \<le> 1)"
proof (cases rule: Embeddings_cases [of h rec w r])
  case (refused rp)
  then show ?thesis by (intro disjI1 exI [of _ "[]"]) simp
next
  case (stopped key n lim rp st t m)
  show ?thesis
  proof (cases "in_quota w key \<and> in_budget w key")
    case True
    with stopped(4) have adm: "\<not> w_admitted w" by simp
    have "rp_status (fst (Embeddings h rec w r)) = 503" using True stopped(5,7) by (simp add: stopped(3) WriteError_def)
    with adm True stopped(1,3) show ?thesis by (simp add: well_formed_def)
  next
    case False
    with stopped(3) show ?thesis by (intro disjI1 exI [of _ "[lim]"]) auto
  qed
next
  case (failed key n lim e)
  then show ?thesis
    by (intro disjI2 exI [of _ lim] exI [of _ key] exI [of _ "[]"]) (simp add: well_formed_def)
next
  case (relayed key n lim up hs st)
  let ?ev = "usage_event_of (g_model h) (w_event_now w) key (parsePromptTokens (g_parse h (up_body up))) n"
  show ?thesis
    by (intro disjI2 exI [of _ lim] exI [of _ key]
        exI [of _ "if up_status up = 200 then [(?ev, snd (rec (w_db w) ?ev))] else []"])
      (use relayed(1,4,7) in \<open>simp add: well_formed_def Let_def\<close>)
qed

text \<open>C7: what is accounted is what was served. An event is stored exactly when the request was
  sent and the upstream answered 200, with the key's id, the upstream's own token count and
  the true number of inputs; and the write of it decides neither status nor body.\<close>

theorem accounting_exact:
  "Store ev db \<in> set (snd (Embeddings h rec w r)) \<longleftrightarrow>
     (\<exists>key n up. well_formed h r key n \<and> in_quota w key \<and> in_budget w key \<and> w_admitted w \<and>
        Forward (g_baseURL h) (w_client w) (req_path r) (req_body r) = Inr up \<and> up_status up = 200 \<and>
        APIKeyID ev = ID key \<and> PromptTokens ev = parsePromptTokens (g_parse h (up_body up)) \<and>
        BatchSize ev = n \<and> Model ev = g_model h \<and> EventAt ev = w_event_now w \<and> EventID ev = 0 \<and>
        db = snd (rec (w_db w) ev))"
    (is "?stored \<longleftrightarrow> ?served")
proof (cases rule: Embeddings_cases [of h rec w r])
  case (refused rp)
  then have "\<not> well_formed h r key n" for key n using check_request_Inr [of h r key n] by simp
  with refused show ?thesis by simp
next
  case (stopped key n lim rp st t m)
  have "\<not> (well_formed h r key' n' \<and> in_quota w key' \<and> in_budget w key' \<and> w_admitted w)" for key' n'
    using stopped(4) well_formed_unique [OF stopped(1), of key' n'] by blast
  then show ?thesis by (auto simp: stopped(3))
next
  case (failed key n lim e)
  then show ?thesis by auto
next
  case (relayed key n lim up hs st)
  note uniq = well_formed_unique [OF relayed(1)]
  have ev: "ev = usage_event_of (g_model h) (w_event_now w) key (parsePromptTokens (g_parse h (up_body up))) n
      \<longleftrightarrow> APIKeyID ev = ID key \<and> PromptTokens ev = parsePromptTokens (g_parse h (up_body up)) \<and>
        BatchSize ev = n \<and> Model ev = g_model h \<and> EventAt ev = w_event_now w \<and> EventID ev = 0"
    by (cases ev) (auto simp: usage_event_of_def)
  have "?stored \<longleftrightarrow> up_status up = 200 \<and>
      ev = usage_event_of (g_model h) (w_event_now w) key (parsePromptTokens (g_parse h (up_body up))) n \<and>
      db = snd (rec (w_db w) ev)"
    using relayed(7) by (auto simp: Let_def)
  also have "\<dots> \<longleftrightarrow> ?served"
  proof
    assume ?served
    then obtain key' n' up' where k: "well_formed h r key' n'"
      "Forward (g_baseURL h) (w_client w) (req_path r) (req_body r) = Inr up'" "up_status up' = 200"
      "APIKeyID ev = ID key'" "PromptTokens ev = parsePromptTokens (g_parse h (up_body up'))"
      "BatchSize ev = n'" "Model ev = g_model h" "EventAt ev = w_event_now w" "EventID ev = 0"
      "db = snd (rec (w_db w) ev)" by blast
    then have "key' = key" "n' = n" "up' = up" using uniq [OF k(1)] relayed(6) by simp_all
    with k ev show "up_status up = 200 \<and>
      ev = usage_event_of (g_model h) (w_event_now w) key (parsePromptTokens (g_parse h (up_body up))) n \<and>
      db = snd (rec (w_db w) ev)" by simp
  next
    assume "up_status up = 200 \<and>
      ev = usage_event_of (g_model h) (w_event_now w) key (parsePromptTokens (g_parse h (up_body up))) n \<and>
      db = snd (rec (w_db w) ev)"
    with ev relayed(1-4,6) show ?served by blast
  qed
  finally show ?thesis .
qed

lemma check_request_Inl:
  assumes "check_request maxBody parse r = Inl rp"
  shows "rp_status rp = (if req_key r = None then 401
      else if req_broken r \<or> maxBody < int (length (req_body r)) then 413 else 400)"
    and "\<exists>st t m. rp = WriteError [] st t m"
  using assms by (auto simp: check_request_def WriteError_def split: option.splits sum.splits if_splits)

text \<open>C20: each failure has its status, in the order of the checks: no key 401, body too large or
  broken 413, not an acceptable input 400, quota 429, failing budget query 500, spent budget
  402, cancelled in the queue 503, upstream failure 502; otherwise the upstream's status.\<close>

theorem reply_status:
  "rp_status (fst (Embeddings h rec w r)) =
     (case req_key r of
        None \<Rightarrow> 401
      | Some key \<Rightarrow>
          if req_broken r \<or> g_maxBody h < int (length (req_body r)) then 413
          else if \<not> (\<exists>n. well_formed h r key n) then 400
          else if \<not> in_quota w key then 429
          else if \<not> in_budget w key
          then (if \<exists>e. w_sum w (ID key) (period_start (w_zone w) (w_status_now w) key) (w_status_now w) = Inl e
                then 500 else 402)
          else if \<not> w_admitted w then 503
          else (case Forward (g_baseURL h) (w_client w) (req_path r) (req_body r) of
                  Inl _ \<Rightarrow> 502
                | Inr up \<Rightarrow> up_status up))"
proof (cases "check_request (g_maxBody h) (g_parse h) r")
  case (Inl rp)
  then have none: "\<not> well_formed h r key n" for key n using check_request_Inr [of h r key n] by simp
  with Inl show ?thesis
    by (cases "req_key r") (simp_all add: Embeddings_def check_request_Inl [OF Inl])
next
  case (Inr kn)
  obtain key n where kn: "kn = (key, n)" by (cases kn)
  note wf = Inr [unfolded kn check_request_Inr]
  then have req: "req_key r = Some key" "\<not> req_broken r" "\<not> g_maxBody h < int (length (req_body r))"
    by (simp_all add: well_formed_def)
  obtain o1 lim where rate: "check_rate (w_limiter w) (w_allow_now w) key = (o1, lim)" by fastforce
  show ?thesis
  proof (cases o1)
    case (Some rp)
    then have "\<not> in_quota w key" using check_rate_quota [of w key] rate by simp
    moreover have "rp_status rp = 429"
      using rate Some by (auto simp: check_rate_def WriteError_def split: prod.splits if_splits)
    moreover have "\<exists>n. well_formed h r key n" using wf by blast
    ultimately show ?thesis using req Inr kn rate Some by (simp add: Embeddings_def)
  next
    case None
    then have quota: "in_quota w key" using check_rate_quota [of w key] rate by simp
    have ex: "\<exists>n. well_formed h r key n" using wf by blast
    show ?thesis
    proof (cases "in_budget w key")
      case False
      then have "\<not> IsUnlimited key" by (simp add: in_budget_def)
      with False ex quota req Inr kn rate None show ?thesis
        by (auto simp: Embeddings_def check_budget_def in_budget_def Status_limited WriteError_def
            split: sum.splits)
    next
      case True
      then obtain st where "check_budget (w_sum w) (w_zone w) (w_status_now w) key = Inr st"
        using check_budget_Inr [of w key] by auto
      with True ex quota req Inr kn rate None show ?thesis
        by (simp add: Embeddings_def WriteError_def relay_def Let_def split: sum.splits)
    qed
  qed
qed

text \<open>The client sees the upstream's answer or the gateway's error, never a mixture. The
  body is the upstream's own, unaltered, exactly when a complete answer was received; every
  other reply carries the error envelope, and a 429 tells a wait of 1 to 60 seconds.\<close>

theorem reply_body_verbatim:
  assumes "\<forall>k win. w_limiter w k = Some win \<longrightarrow> start win \<le> w_allow_now w"
  shows "case rp_body (fst (Embeddings h rec w r)) of
       Relayed b \<Rightarrow> Send (req_path r) (req_body r) \<in> set (snd (Embeddings h rec w r)) \<and>
         (\<exists>up. Forward (g_baseURL h) (w_client w) (req_path r) (req_body r) = Inr up \<and> b = up_body up)
     | ErrorBody t m \<Rightarrow> (''Content-Type'', ''application/json'') \<in> set (rp_headers (fst (Embeddings h rec w r))) \<and>
         (rp_status (fst (Embeddings h rec w r)) = 429 \<longrightarrow>
           (\<exists>secs. 1 \<le> secs \<and> secs \<le> 60 \<and>
              (''Retry-After'', Itoa secs) \<in> set (rp_headers (fst (Embeddings h rec w r)))))"
proof (cases rule: Embeddings_cases [of h rec w r])
  case (refused rp)
  obtain st t m where rp: "rp = WriteError [] st t m" using check_request_Inl(2) [OF refused(2)] by blast
  have "st \<noteq> 429" using check_request_Inl(1) [OF refused(2)] by (auto simp: rp WriteError_def split: if_splits)
  then show ?thesis by (simp add: refused(1) rp WriteError_def)
next
  case (stopped key n lim rp st t m)
  show ?thesis
  proof (cases "in_quota w key")
    case True
    with stopped(5,6) show ?thesis by (simp add: stopped(3) WriteError_def)
  next
    case False
    then have "\<not> Allowed (fst (Allow (w_limiter w) (w_allow_now w) (ID key) (RatePerMin key)))"
      by (simp add: in_quota_def rl.allowed_iff)
    then have "1 \<le> RetryAfterSeconds (fst (Allow (w_limiter w) (w_allow_now w) (ID key) (RatePerMin key))) \<and>
        RetryAfterSeconds (fst (Allow (w_limiter w) (w_allow_now w) (ID key) (RatePerMin key))) \<le> 60"
      using assms by (intro RetryAfterSeconds_bounds) auto
    with False stopped(5) show ?thesis
      by (auto simp: stopped(3) WriteError_def)
  qed
next
  case (failed key n lim e)
  then show ?thesis by (simp add: WriteError_def)
next
  case (relayed key n lim up hs st)
  then show ?thesis by (simp add: relay_def)
qed

text \<open>A gateway with one key, a database and an upstream that answers every batch.\<close>

definition demo_gateway :: gateway_config where
  "demo_gateway = \<lparr>g_maxBody = defaultMaxBodyBytes, g_model = ''bge-m3'', g_baseURL = ''http://caddy'',
     g_parse = (\<lambda>s. if s = ''ask'' then Some (JObj [(''input'', JArr [JStr ''a'', JStr ''b''])])
                    else if s = ''answer'' then Some (JObj [(''usage'', JObj [(''prompt_tokens'', JNum ''9'')])])
                    else None)\<rparr>"

definition demo_world :: "limiter \<Rightarrow> mem_db \<Rightarrow> mem_db world" where
  "demo_world lim db = \<lparr>w_limiter = lim, w_allow_now = 200, w_sum = SumTokens mem_driver db, w_zone = UTC,
     w_status_now = 200, w_admitted = True,
     w_client = (\<lambda>url body. Inr \<lparr>hr_status = 200, hr_content_type = ''application/json'',
                                hr_stream = ''answer'', hr_broken = False\<rparr>),
     w_event_now = 200, w_db = db\<rparr>"

definition demo_request :: "apikey \<Rightarrow> request" where
  "demo_request k = \<lparr>req_key = Some k, req_path = ''/v1/embeddings'', req_body = ''ask'', req_broken = False\<rparr>"

theorem reply_body_verbatim_witness:
  "let full = [1 \<mapsto> \<lparr>start = 0, count = 100\<rparr>];
       rp = fst (Embeddings demo_gateway (Record mem_driver) (demo_world full spent_db) (demo_request (lifetime_key 1000)))
   in rp_status rp = 429 \<and> (\<exists>secs. 1 \<le> secs \<and> secs \<le> 60 \<and> (''Retry-After'', Itoa secs) \<in> set (rp_headers rp))"
proof -
  let ?full = "[1 \<mapsto> \<lparr>start = 0, count = 100\<rparr>] :: limiter"
  let ?e = "Embeddings demo_gateway (Record mem_driver) (demo_world ?full spent_db) (demo_request (lifetime_key 1000))"
  have "\<forall>k win. w_limiter (demo_world ?full spent_db) k = Some win \<longrightarrow>
      start win \<le> w_allow_now (demo_world ?full spent_db)"
    by (auto simp: demo_world_def split: if_splits)
  note b = reply_body_verbatim [OF this, of demo_gateway "Record mem_driver" "demo_request (lifetime_key 1000)"]
  have "rp_status (fst ?e) = 429 \<and> (case rp_body (fst ?e) of ErrorBody t m \<Rightarrow> True | Relayed x \<Rightarrow> False)" by code_simp
  with b show ?thesis by (auto simp: Let_def split: reply_body.splits)
qed

text \<open>Budgets are enforced on the recorded truth. Over any lawful database, a request of a
  limited key whose recorded spend in its own period has reached its budget is answered 402
  and changes nothing but the rate window; below the budget it is not stopped for money.\<close>

theorem budget_enforced:
  assumes "sql_driver g K E" and "w_sum w = SumTokens g (w_db w)"
    and "SumTokens g (w_db w) (ID key) (period_start (w_zone w) (w_status_now w) key) (w_status_now w) = Inr answer"
    and "well_formed h r key n" and "\<not> IsUnlimited key" and "in_quota w key"
    and "used = spent_in (E (w_db w)) (ID key)
      (\<lambda>t. period_start (w_zone w) (w_status_now w) key \<le> t \<and> t < w_status_now w)"
  shows "if TokenBudget key \<le> used
    then rp_status (fst (Embeddings h rec w r)) = 402 \<and>
      (\<exists>lim. snd (Embeddings h rec w r) = [SetLimiter lim])
    else (w_admitted w \<longrightarrow> Send (req_path r) (req_body r) \<in> set (snd (Embeddings h rec w r)))"
proof -
  have "answer = used"
    using sql_driver.SumTokens_exact [OF assms(1,3)] by (simp add: assms(7) spent_in_def conj_assoc)
  then have ib: "in_budget w key \<longleftrightarrow> used < TokenBudget key"
    using assms(3,5) by (simp add: in_budget_def assms(2))
  have req: "check_request (g_maxBody h) (g_parse h) r = Inr (key, n)"
    using assms(4) by (simp add: check_request_Inr)
  obtain lim where rate: "check_rate (w_limiter w) (w_allow_now w) key = (None, lim)"
    using check_rate_quota [of w key] assms(6) by (cases "check_rate (w_limiter w) (w_allow_now w) key") auto
  show ?thesis
  proof (cases "TokenBudget key \<le> used")
    case True
    with \<open>answer = used\<close> have "check_budget (w_sum w) (w_zone w) (w_status_now w) key =
        Inl (WriteError [] 402 ''insufficient_quota'' ''token budget exhausted for this key'')"
      using assms(3,5) by (simp add: check_budget_def Status_limited assms(2))
    with True req rate show ?thesis by (simp add: Embeddings_def WriteError_def)
  next
    case False
    then obtain st where "check_budget (w_sum w) (w_zone w) (w_status_now w) key = Inr st"
      using check_budget_Inr [of w key] ib by auto
    with False req rate show ?thesis by (simp add: Embeddings_def Let_def split: sum.splits)
  qed
qed

theorem budget_enforced_witness:
  "rp_status (fst (Embeddings demo_gateway (Record mem_driver) (demo_world Map.empty spent_db)
      (demo_request (lifetime_key 400)))) = 402"
proof -
  let ?w = "demo_world Map.empty spent_db" and ?k = "lifetime_key 400"
  have sums: "w_sum ?w = SumTokens mem_driver (w_db ?w)" by (simp add: demo_world_def)
  have facts: "SumTokens mem_driver (w_db ?w) (ID ?k) (period_start (w_zone ?w) (w_status_now ?w) ?k) (w_status_now ?w) = Inr 400"
    "\<not> IsUnlimited ?k" "in_quota ?w ?k" by code_simp+
  have wf: "well_formed demo_gateway (demo_request ?k) ?k 2"
    unfolding check_request_Inr [symmetric] by code_simp
  have used: "400 = spent_in (mem_events (w_db ?w)) (ID ?k)
      (\<lambda>t. period_start (w_zone ?w) (w_status_now ?w) ?k \<le> t \<and> t < w_status_now ?w)"
    by (simp add: spent_in_def tokens_where_def spent_db_def demo_world_def lifetime_key_def sample_key_def period_start_def)
  show ?thesis
    using budget_enforced [OF mem.sql_driver_axioms sums facts(1) wf facts(2,3) used, of "Record mem_driver"]
    by (simp add: lifetime_key_def)
qed

end
