(* ===== verification/Config.thy ===== *)
theory Config
  imports Text Apikey Queue
begin

text \<open>
  Configuration (src/internal/config/config.go): resolution from the environment with its
  fall-backs, and the validation that decides whether the gateway starts. The environment
  is a function from names to values, empty when unset, as it is after godotenv has read a
  \<open>.env\<close> file; the duration and URL parsers of the library are arguments.
\<close>

section \<open>Data\<close>

record defaults =
  D_BatchMax :: int
  D_RatePerMin :: int
  D_TokenBudget :: int
  D_BudgetPeriod :: string
  D_Priority :: int

record plan_config =
  PriceEUR :: int
  VATPercent :: int

record dashboard_config =
  User :: string
  Password :: string

record queue_config =
  MaxConcurrent :: int
  QPromoteAfter :: duration

record config =
  ListenAddr :: string
  DBPath :: string
  CaddyUpstreamURL :: string
  EmbedModel :: string
  ContactEmail :: string
  ContactPhone :: string
  CompanyURL :: string
  ConfigDefaults :: defaults
  ConfigPlan :: plan_config
  ConfigQueue :: queue_config
  ConfigDashboard :: dashboard_config

definition Enabled :: "dashboard_config \<Rightarrow> bool" where
  "Enabled d \<longleftrightarrow> Password d \<noteq> ''''"

definition periodMonthly :: string where
  "periodMonthly = ''monthly''"

definition periodLifetime :: string where
  "periodLifetime = ''lifetime''"

definition maxPriority :: int where
  "maxPriority = 9"

section \<open>The environment\<close>

type_synonym environment = "string \<Rightarrow> string"

definition envStr :: "environment \<Rightarrow> string \<Rightarrow> string \<Rightarrow> string" where
  "envStr env key def = (if env key \<noteq> '''' then env key else def)"

definition envInt :: "environment \<Rightarrow> string \<Rightarrow> int \<Rightarrow> int" where
  "envInt env key def =
     (if env key \<noteq> '''' then (case ParseInt (env key) of Some n \<Rightarrow> n | None \<Rightarrow> def) else def)"

definition envInt64 :: "environment \<Rightarrow> string \<Rightarrow> int \<Rightarrow> int" where
  "envInt64 env key def =
     (if env key \<noteq> '''' then (case ParseInt (env key) of Some n \<Rightarrow> n | None \<Rightarrow> def) else def)"

definition envDuration ::
    "(string \<Rightarrow> duration option) \<Rightarrow> environment \<Rightarrow> string \<Rightarrow> duration \<Rightarrow> duration" where
  "envDuration parse_duration env key def =
     (if env key \<noteq> '''' then (case parse_duration (env key) of Some d \<Rightarrow> d | None \<Rightarrow> def) else def)"

section \<open>Validation\<close>

datatype config_error =
    CfgBatch int | CfgRate int | CfgBudget int | CfgPeriod string | CfgPriority int
  | CfgPrice int | CfgVAT int | CfgConcurrent int | CfgPromote duration | CfgUser
  | CfgUpstream string | CfgDotenv

text \<open>\<open>parse_url\<close> returns scheme and host, or None on a parse error.\<close>

definition cfg_validate :: "(string \<Rightarrow> (string \<times> string) option) \<Rightarrow> config \<Rightarrow> config_error option" where
  "cfg_validate parse_url c =
     (let d = ConfigDefaults c in
      if D_BatchMax d < 1 then Some (CfgBatch (D_BatchMax d))
      else if D_RatePerMin d < 1 then Some (CfgRate (D_RatePerMin d))
      else if D_TokenBudget d < -1 \<or> D_TokenBudget d = 0 then Some (CfgBudget (D_TokenBudget d))
      else if D_BudgetPeriod d \<noteq> periodMonthly \<and> D_BudgetPeriod d \<noteq> periodLifetime
      then Some (CfgPeriod (D_BudgetPeriod d))
      else if D_Priority d < 0 \<or> maxPriority < D_Priority d then Some (CfgPriority (D_Priority d))
      else if PriceEUR (ConfigPlan c) < 1 then Some (CfgPrice (PriceEUR (ConfigPlan c)))
      else if VATPercent (ConfigPlan c) < 0 \<or> 100 < VATPercent (ConfigPlan c)
      then Some (CfgVAT (VATPercent (ConfigPlan c)))
      else if MaxConcurrent (ConfigQueue c) < 1 then Some (CfgConcurrent (MaxConcurrent (ConfigQueue c)))
      else if QPromoteAfter (ConfigQueue c) \<le> 0 then Some (CfgPromote (QPromoteAfter (ConfigQueue c)))
      else if Enabled (ConfigDashboard c) \<and> TrimSpace (User (ConfigDashboard c)) = '''' then Some CfgUser
      else case parse_url (CaddyUpstreamURL c) of
             None \<Rightarrow> Some (CfgUpstream (CaddyUpstreamURL c))
           | Some (scheme, host) \<Rightarrow>
               if scheme = '''' \<or> host = '''' then Some (CfgUpstream (CaddyUpstreamURL c)) else None)"

definition read_config :: "(string \<Rightarrow> duration option) \<Rightarrow> environment \<Rightarrow> config" where
  "read_config parse_duration env =
     \<lparr>ListenAddr = envStr env ''LISTEN_ADDR'' '':8080'',
      DBPath = envStr env ''DB_PATH'' ''ragembed.db'',
      CaddyUpstreamURL = envStr env ''CADDY_UPSTREAM_URL'' ''http://localhost:11435'',
      EmbedModel = envStr env ''EMBED_MODEL'' ''bge-m3'',
      ContactEmail = envStr env ''CONTACT_EMAIL'' ''info@ituoga.lt'',
      ContactPhone = envStr env ''CONTACT_PHONE'' ''+37063594444'',
      CompanyURL = envStr env ''COMPANY_URL'' ''https://letas.lt'',
      ConfigDefaults =
        \<lparr>D_BatchMax = envInt env ''DEFAULT_BATCH_MAX'' 25,
         D_RatePerMin = envInt env ''DEFAULT_RATE_PER_MIN'' 100,
         D_TokenBudget = envInt64 env ''DEFAULT_TOKEN_BUDGET'' (-1),
         D_BudgetPeriod = envStr env ''DEFAULT_BUDGET_PERIOD'' periodLifetime,
         D_Priority = envInt env ''DEFAULT_PRIORITY'' 0\<rparr>,
      ConfigPlan =
        \<lparr>PriceEUR = envInt env ''PLAN_PRICE_EUR'' 50,
         VATPercent = envInt env ''PLAN_VAT_PERCENT'' 21\<rparr>,
      ConfigQueue =
        \<lparr>MaxConcurrent = envInt env ''UPSTREAM_MAX_CONCURRENT'' 10,
         QPromoteAfter = envDuration parse_duration env ''QUEUE_PROMOTE_AFTER'' (5 * second)\<rparr>,
      ConfigDashboard =
        \<lparr>User = envStr env ''DASHBOARD_USER'' ''admin'', Password = env ''DASHBOARD_PASSWORD''\<rparr>\<rparr>"

text \<open>\<open>dotenv\<close> is None when a present \<open>.env\<close> cannot be loaded, and otherwise the environment.\<close>

definition Load ::
    "(string \<Rightarrow> duration option) \<Rightarrow> (string \<Rightarrow> (string \<times> string) option) \<Rightarrow> environment option \<Rightarrow>
     config_error + config" where
  "Load parse_duration parse_url dotenv =
     (case dotenv of
        None \<Rightarrow> Inl CfgDotenv
      | Some env \<Rightarrow>
          (let cfg = read_config parse_duration env
           in case cfg_validate parse_url cfg of Some e \<Rightarrow> Inl e | None \<Rightarrow> Inr cfg))"

text \<open>The limits a new key starts from (src/cmd/ragctl/main.go).\<close>

definition default_limits :: "config \<Rightarrow> limits" where
  "default_limits c =
     \<lparr>L_BatchMax = D_BatchMax (ConfigDefaults c), L_RatePerMin = D_RatePerMin (ConfigDefaults c),
      L_TokenBudget = D_TokenBudget (ConfigDefaults c), L_BudgetPeriod = D_BudgetPeriod (ConfigDefaults c),
      L_Priority = D_Priority (ConfigDefaults c)\<rparr>"

lemma cfg_validate_None:
  assumes "cfg_validate parse_url c = None"
  shows "1 \<le> D_BatchMax (ConfigDefaults c)" "1 \<le> D_RatePerMin (ConfigDefaults c)"
    "D_TokenBudget (ConfigDefaults c) = -1 \<or> 0 < D_TokenBudget (ConfigDefaults c)"
    "D_BudgetPeriod (ConfigDefaults c) = periodMonthly \<or> D_BudgetPeriod (ConfigDefaults c) = periodLifetime"
    "0 \<le> D_Priority (ConfigDefaults c) \<and> D_Priority (ConfigDefaults c) \<le> maxPriority"
    "1 \<le> PriceEUR (ConfigPlan c)" "0 \<le> VATPercent (ConfigPlan c) \<and> VATPercent (ConfigPlan c) \<le> 100"
    "1 \<le> MaxConcurrent (ConfigQueue c)" "0 < QPromoteAfter (ConfigQueue c)"
    "Enabled (ConfigDashboard c) \<longrightarrow> TrimSpace (User (ConfigDashboard c)) \<noteq> ''''"
    "\<exists>scheme host. parse_url (CaddyUpstreamURL c) = Some (scheme, host) \<and> scheme \<noteq> '''' \<and> host \<noteq> ''''"
  using assms by (auto simp: cfg_validate_def Let_def split: if_splits option.splits)

lemma Load_validates: "Load pd pu de = Inr c \<Longrightarrow> cfg_validate pu c = None"
  by (auto simp: Load_def Let_def split: option.splits)

section \<open>Properties\<close>

text \<open>A configuration that loads is one the program can run on. The queue it asks for can
  be built without a panic, the default limits are ones the domain accepts, an enabled
  dashboard has a user, and the upstream is an absolute URL.\<close>

theorem loaded_config_runs:
  assumes "Load parse_duration parse_url dotenv = Inr c"
  shows "(\<exists>q. NewWithClock (MaxConcurrent (ConfigQueue c)) (QPromoteAfter (ConfigQueue c)) = Inr q) \<and>
    Validate (default_limits c) = None \<and>
    1 \<le> PriceEUR (ConfigPlan c) \<and> 0 \<le> VATPercent (ConfigPlan c) \<and> VATPercent (ConfigPlan c) \<le> 100 \<and>
    (Enabled (ConfigDashboard c) \<longrightarrow> TrimSpace (User (ConfigDashboard c)) \<noteq> '''') \<and>
    (\<exists>scheme host. parse_url (CaddyUpstreamURL c) = Some (scheme, host) \<and> scheme \<noteq> '''' \<and> host \<noteq> '''')"
proof -
  note v = cfg_validate_None [OF Load_validates [OF assms]]
  have "Validate (default_limits c) = None"
    using v(1-5) by (simp add: Validate_None_iff default_limits_def periodMonthly_def periodLifetime_def
        Monthly_def Lifetime_def maxPriority_def)
  moreover have "\<exists>q. NewWithClock (MaxConcurrent (ConfigQueue c)) (QPromoteAfter (ConfigQueue c)) = Inr q"
    using v(8,9) by (simp add: NewWithClock_def)
  ultimately show ?thesis using v(6,7,10,11) by blast
qed

definition sample_env :: environment where
  "sample_env = (\<lambda>_. '''')(''DEFAULT_BATCH_MAX'' := ''5O'', ''DEFAULT_RATE_PER_MIN'' := ''60'')"

definition sample_url :: "string \<Rightarrow> (string \<times> string) option" where
  "sample_url s = (if HasPrefix s ''http://'' then Some (''http'', drop 7 s) else None)"

theorem loaded_config_runs_witness:
  "\<exists>c. Load (\<lambda>_. None) sample_url (Some sample_env) = Inr c \<and> D_BatchMax (ConfigDefaults c) = 25 \<and>
     D_RatePerMin (ConfigDefaults c) = 60 \<and> Validate (default_limits c) = None"
proof -
  let ?c = "read_config (\<lambda>_. None) sample_env"
  have "cfg_validate sample_url ?c = None" "D_BatchMax (ConfigDefaults ?c) = 25"
    "D_RatePerMin (ConfigDefaults ?c) = 60" by code_simp+
  moreover from this(1) have l: "Load (\<lambda>_. None) sample_url (Some sample_env) = Inr ?c"
    by (simp add: Load_def Let_def)
  ultimately show ?thesis using loaded_config_runs [OF l] by blast
qed

end
