(* ===== verification/HttpApi.thy ===== *)
theory HttpApi
  imports Handler Config
begin

text \<open>
  Authentication and routing (src/internal/httpapi/middleware.go, router.go), and the part of
  the composition root that decides which guards exist (src/cmd/gateway/main.go).
\<close>

section \<open>Bearer authentication\<close>

definition bearer_prefix :: string where
  "bearer_prefix = ''bearer ''"

text \<open>\<open>strings.EqualFold\<close> against an ASCII prefix without k or s is equality of the folded bytes.\<close>

definition bearerToken :: "string \<Rightarrow> string" where
  "bearerToken header =
     (if length header < length bearer_prefix \<or>
         map fold_char (take (length bearer_prefix) header) \<noteq> map fold_char bearer_prefix
      then '''' else TrimSpace (drop (length bearer_prefix) header))"

datatype auth_result = Rejected reply | Passed apikey

definition BearerAuth :: "(string \<Rightarrow> string) \<Rightarrow> (string \<Rightarrow> repo_error + apikey) \<Rightarrow> string \<Rightarrow> auth_result" where
  "BearerAuth sha256 lookup header =
     (let token = bearerToken header
      in if token = ''''
         then Rejected (WriteError [] 401 ''invalid_request_error''
                ''missing or malformed Authorization header (expected 'Bearer <key>')'')
         else case lookup (HashKey sha256 token) of
           Inl ErrNotFound \<Rightarrow> Rejected (WriteError [] 401 ''invalid_request_error'' ''invalid API key'')
         | Inl _ \<Rightarrow> Rejected (WriteError [] 500 ''internal_error'' ''could not verify API key'')
         | Inr k \<Rightarrow>
             if IsRevoked k
             then Rejected (WriteError [] 401 ''invalid_request_error'' ''invalid API key'')
             else Passed k)"

section \<open>Basic authentication\<close>

definition dashboardRealm :: string where
  "dashboardRealm = ''ragembed operator dashboard''"

record text_reply =
  tr_status :: int
  tr_headers :: "(string \<times> string) list"
  tr_text :: string

definition challenge :: text_reply where
  "challenge = \<lparr>tr_status = 401,
     tr_headers = [(''WWW-Authenticate'',
       ''Basic realm='' @ CHR 0x22 # dashboardRealm @ CHR 0x22 # '', charset='' @ [CHR 0x22] @ ''UTF-8'' @ [CHR 0x22])],
     tr_text = ''authentication required''\<rparr>"

text \<open>\<open>creds\<close> is what \<open>r.BasicAuth()\<close> finds. None lets the request through.\<close>

definition BasicAuth ::
    "(string \<Rightarrow> string) \<Rightarrow> string \<Rightarrow> string \<Rightarrow> (string \<times> string) option \<Rightarrow> text_reply option" where
  "BasicAuth sha256 user password creds =
     (case creds of
        None \<Rightarrow> Some challenge
      | Some (gotUser, gotPass) \<Rightarrow>
          (let userOK = sha256 gotUser = sha256 user; passOK = sha256 gotPass = sha256 password
           in if \<not> userOK \<or> \<not> passOK then Some challenge else None))"

section \<open>Routing\<close>

text \<open>A path, everything under a prefix, or one parameter between a prefix and a suffix.\<close>

datatype path_pattern = Exact string | Under string | Param string string

datatype handler_id = Healthz | EmbeddingsAPI | LandingSite | DashboardUI

datatype guard = BearerGuard | BasicGuard string string

record route =
  rt_method :: "string option"
  rt_path :: path_pattern
  rt_guards :: "guard list"
  rt_target :: handler_id

definition PublicPaths :: "string list" where
  "PublicPaths = [''/'', ''/kada-reikia-embeddingu-api'', ''/assets/landing.css'', ''/robots.txt'',
     ''/sitemap.xml'', ''/llms.txt'']"

definition BasePath :: string where
  "BasePath = ''/admin''"

text \<open>The optional fields of \<open>Router\<close>: whether a landing and a dashboard handler are set, and the
  dashboard's guard if any. A mounted handler answers every method.\<close>

record router =
  has_landing :: bool
  has_dashboard :: bool
  dashboard_auth :: "guard option"

definition Router_Handler :: "router \<Rightarrow> route list" where
  "Router_Handler rt =
     [\<lparr>rt_method = Some ''GET'', rt_path = Exact ''/healthz'', rt_guards = [], rt_target = Healthz\<rparr>,
      \<lparr>rt_method = Some ''POST'', rt_path = Exact ''/v1/embeddings'', rt_guards = [BearerGuard], rt_target = EmbeddingsAPI\<rparr>,
      \<lparr>rt_method = Some ''POST'', rt_path = Exact ''/api/embed'', rt_guards = [BearerGuard], rt_target = EmbeddingsAPI\<rparr>] @
     (if has_landing rt
      then map (\<lambda>p. \<lparr>rt_method = Some ''GET'', rt_path = Exact p, rt_guards = [], rt_target = LandingSite\<rparr>) PublicPaths
      else []) @
     (if \<not> has_dashboard rt then []
      else case dashboard_auth rt of
             None \<Rightarrow> []
           | Some g \<Rightarrow> [\<lparr>rt_method = None, rt_path = Under BasePath, rt_guards = [g], rt_target = DashboardUI\<rparr>])"

text \<open>What \<open>run\<close> in the composition root passes to the router.\<close>

definition wire_router :: "config \<Rightarrow> router" where
  "wire_router cfg =
     \<lparr>has_landing = True, has_dashboard = True,
      dashboard_auth =
        (if Enabled (ConfigDashboard cfg)
         then Some (BasicGuard (User (ConfigDashboard cfg)) (Password (ConfigDashboard cfg))) else None)\<rparr>"

section \<open>Properties\<close>

text \<open>C32: only a live key gets through. With the repository over any lawful database, the
  middleware passes a request exactly with an unrevoked key whose stored hash is that of the
  presented token; and while the database answers, an unknown token and a revoked key get the
  same reply, byte for byte.\<close>

theorem bearer_sound:
  assumes "sql_driver g K E"
  shows "(BearerAuth sha256 (ByHash g db) header = Passed k \<longrightarrow>
      k \<in> set (K db) \<and> \<not> IsRevoked k \<and> bearerToken header \<noteq> '''' \<and>
      KeyHash k = HashKey sha256 (bearerToken header)) \<and>
    (bearerToken header \<noteq> '''' \<longrightarrow>
      ((\<exists>k'. ByHash g db (HashKey sha256 (bearerToken header)) = Inr k' \<and> IsRevoked k') \<or>
       ByHash g db (HashKey sha256 (bearerToken header)) = Inl ErrNotFound) \<longrightarrow>
      BearerAuth sha256 (ByHash g db) header =
        Rejected (WriteError [] 401 ''invalid_request_error'' ''invalid API key''))"
proof (intro conjI impI)
  assume p: "BearerAuth sha256 (ByHash g db) header = Passed k"
  then have b: "ByHash g db (HashKey sha256 (bearerToken header)) = Inr k" "\<not> IsRevoked k" "bearerToken header \<noteq> ''''"
    by (auto simp: BearerAuth_def Let_def split: sum.splits repo_error.splits if_splits)
  from sql_driver.ByHash_Inr [OF assms b(1)]
  have "k \<in> set (K db)" "KeyHash k = HashKey sha256 (bearerToken header)"
    by (auto simp: find_Some_iff)
  with b(2,3) show "k \<in> set (K db)" "\<not> IsRevoked k" "bearerToken header \<noteq> ''''"
    "KeyHash k = HashKey sha256 (bearerToken header)" by simp_all
qed (auto simp: BearerAuth_def Let_def)

definition token_key :: apikey where
  "token_key = sample_key 1 (HashKey id ''t'')"

definition token_db :: mem_db where
  "token_db = sample_db\<lparr>mem_keys := [token_key]\<rparr>"

lemma token_passes:
  "BearerAuth id (ByHash mem_driver token_db) ''bearer t '' = Passed token_key"
proof -
  have tok: "bearerToken ''bearer t '' = ''t''"
    by (simp add: bearerToken_def bearer_prefix_def TrimSpace_def is_space_def)
  have h: "KeyHash token_key = HashKey id ''t''" "\<not> IsRevoked token_key"
    by (simp_all add: token_key_def sample_key_def IsRevoked_def)
  have "ByHash mem_driver token_db (HashKey id ''t'') = Inr token_key"
    using h(1) by (simp add: ByHash_def mem_driver_def mem_guard_def token_db_def sample_db_def)
  then show ?thesis using h(2) by (simp add: BearerAuth_def tok)
qed

theorem bearer_sound_witness:
  "BearerAuth id (ByHash mem_driver token_db) ''bearer t '' = Passed token_key \<and>
   token_key \<in> set (mem_keys token_db) \<and> \<not> IsRevoked token_key"
  using bearer_sound [OF mem.sql_driver_axioms, of id token_db "''bearer t ''" token_key] token_passes by blast

text \<open>The dashboard fails closed. However the gateway is configured, the dashboard is
  reachable only behind Basic authentication with the configured, non-empty password, and
  not at all without one; the embeddings API is reachable only behind Bearer authentication.\<close>

theorem dashboard_fails_closed:
  "(\<forall>r \<in> set (Router_Handler (wire_router cfg)). rt_target r = DashboardUI \<longrightarrow>
      rt_guards r = [BasicGuard (User (ConfigDashboard cfg)) (Password (ConfigDashboard cfg))] \<and>
      Password (ConfigDashboard cfg) \<noteq> '''') \<and>
   (\<forall>r \<in> set (Router_Handler (wire_router cfg)). rt_target r = EmbeddingsAPI \<longrightarrow> rt_guards r = [BearerGuard]) \<and>
   ((\<exists>r \<in> set (Router_Handler (wire_router cfg)). rt_target r = DashboardUI) \<longleftrightarrow> Enabled (ConfigDashboard cfg))"
  by (auto simp: Router_Handler_def wire_router_def Enabled_def)

theorem dashboard_fails_closed_witness:
  "\<exists>r \<in> set (Router_Handler (wire_router (read_config (\<lambda>_. None) ((\<lambda>_. '''')(''DASHBOARD_PASSWORD'' := ''pw''))))).
     rt_target r = DashboardUI \<and> rt_guards r = [BasicGuard ''admin'' ''pw'']"
proof -
  let ?c = "read_config (\<lambda>_. None) ((\<lambda>_. '''')(''DASHBOARD_PASSWORD'' := ''pw''))"
  have "Enabled (ConfigDashboard ?c)" "User (ConfigDashboard ?c) = ''admin''" "Password (ConfigDashboard ?c) = ''pw''"
    by (simp_all add: Enabled_def read_config_def envStr_def)
  with dashboard_fails_closed [of ?c] show ?thesis by metis
qed

text \<open>Basic authentication admits exactly the configured pair of digests, and every other
  request, credentials or not, gets the same challenge.\<close>

theorem basic_auth_exact:
  "BasicAuth sha256 user password creds =
     (if \<exists>u p. creds = Some (u, p) \<and> sha256 u = sha256 user \<and> sha256 p = sha256 password
      then None else Some challenge)"
  by (auto simp: BasicAuth_def Let_def split: option.splits)

end
