(* ===== verification/Stream.thy ===== *)
theory Stream
  imports View LiveRun HttpApi
begin

text \<open>
  The dashboard's handlers (src/internal/web/server.go): the index, a key's page, and the live
  stream with its throttled repaints. The stream is a state machine over the cases of its
  \<open>select\<close>; what it writes to the client is its output.
\<close>

section \<open>Pages\<close>

text \<open>\<open>strconv.ParseUint(s, 10, 64)\<close>.\<close>

definition ParseUint :: "string \<Rightarrow> uint option" where
  "ParseUint s = (case digits s of Some n \<Rightarrow> (if n < 2 ^ 64 then Some (nat n) else None) | None \<Rightarrow> None)"

datatype page_reply =
  Redirect string | PageReply page_vm | EmptyPage string "queue_vm option" | PageNotFound | PageUnavailable

definition key_url :: "uint \<Rightarrow> string" where
  "key_url k = BasePath @ ''/keys/'' @ Itoa (int k)"

definition handleIndex ::
    "(int \<Rightarrow> string) \<Rightarrow> (duration \<Rightarrow> string) \<Rightarrow> string \<Rightarrow> repo_error + apikey list \<Rightarrow> stats \<Rightarrow> page_reply" where
  "handleIndex comma tenths model listed st =
     (case listed of
        Inl _ \<Rightarrow> PageUnavailable
      | Inr ks \<Rightarrow>
          (case defaultKeyID ks of
             Some k \<Rightarrow> Redirect (key_url k)
           | None \<Rightarrow> EmptyPage model (buildQueue comma tenths st)))"

definition handleKeyPage ::
    "(int \<Rightarrow> string) \<Rightarrow> (duration \<Rightarrow> string) \<Rightarrow> string \<Rightarrow> repo_error + apikey list \<Rightarrow>
     (uint \<Rightarrow> instant \<Rightarrow> instant \<Rightarrow> repo_error + int) \<Rightarrow> stats \<Rightarrow> zone \<Rightarrow> instant \<Rightarrow> string \<Rightarrow> page_reply" where
  "handleKeyPage comma tenths model listed sumf st loc now param =
     (case ParseUint param of
        None \<Rightarrow> PageNotFound
      | Some k \<Rightarrow>
          (case buildPage comma tenths model listed sumf st loc now k of
             Inl ErrNotFound \<Rightarrow> PageNotFound
           | Inl _ \<Rightarrow> PageUnavailable
           | Inr vm \<Rightarrow> PageReply vm))"

section \<open>The live stream\<close>

definition queueHeartbeat :: duration where
  "queueHeartbeat = second"

definition queueMinInterval :: duration where
  "queueMinInterval = 100000000"

datatype live_reply = LiveNotFound | LiveUnavailable | Streaming apikey sidebar_ctx

definition open_live ::
    "(uint \<Rightarrow> repo_error + apikey) \<Rightarrow> repo_error + apikey list \<Rightarrow>
     (uint \<Rightarrow> instant \<Rightarrow> instant \<Rightarrow> repo_error + int) \<Rightarrow> zone \<Rightarrow> instant \<Rightarrow> string \<Rightarrow> live_reply" where
  "open_live byID listed sumf loc now param =
     (case ParseUint param of
        None \<Rightarrow> LiveNotFound
      | Some k \<Rightarrow>
          (case byID k of
             Inl _ \<Rightarrow> LiveNotFound
           | Inr key \<Rightarrow>
               (case sidebarContext listed sumf loc now k of
                  Inl _ \<Rightarrow> LiveUnavailable
                | Inr sc \<Rightarrow> Streaming key sc)))"

text \<open>The patches sent to the page.\<close>

datatype frame =
  PoolFrame "queue_vm option" | PanelFrame "detail_vm option" | RowFrame key_list_item | TotalFrame string

definition detailFrom :: "(int \<Rightarrow> string) \<Rightarrow> apikey \<Rightarrow> snapshot \<Rightarrow> detail_vm option" where
  "detailFrom comma k snap = detailVM comma k (SN_Report snap)"

definition snapshot_frames :: "(int \<Rightarrow> string) \<Rightarrow> apikey \<Rightarrow> sidebar_ctx \<Rightarrow> snapshot \<Rightarrow> frame list" where
  "snapshot_frames comma key sc snap =
     [PanelFrame (detailFrom comma key snap),
      RowFrame (sidebar_row comma sc key (R_Today (SN_Report snap))),
      TotalFrame (totalLabel comma sc (R_Today (SN_Report snap)))]"

text \<open>\<open>signal\<close> is the buffer of the queue's watcher channel, \<open>cooldown\<close> the deadline of the timer
  while it runs.\<close>

record stream =
  signal :: bool
  throttled :: bool
  missed :: bool
  cooldown :: "instant option"
  open_conn :: bool

text \<open>Patches are written in turn until one fails; \<open>n\<close> writes succeed.\<close>

definition emit :: "nat \<Rightarrow> frame list \<Rightarrow> stream \<Rightarrow> stream \<times> frame list" where
  "emit n fs s = (s\<lparr>open_conn := (length fs \<le> n)\<rparr>, take n fs)"

definition paintQueue :: "nat \<Rightarrow> instant \<Rightarrow> frame \<Rightarrow> stream \<Rightarrow> stream \<times> frame list" where
  "paintQueue n now pool s =
     (if n = 0 then emit n [pool] s
      else emit n [pool] (s\<lparr>throttled := True, missed := False, cooldown := Some (now + queueMinInterval)\<rparr>))"

text \<open>Before the loop; the queue may have moved since \<open>Watch\<close>.\<close>

definition stream_start :: "bool \<Rightarrow> nat \<Rightarrow> instant \<Rightarrow> frame \<Rightarrow> stream \<times> frame list" where
  "stream_start moved_already n now pool =
     paintQueue n now pool \<lparr>signal = moved_already, throttled = False, missed = False, cooldown = None, open_conn = True\<rparr>"

text \<open>\<open>QueueMoved\<close> is the queue's own notification; the others are the cases of the \<open>select\<close>.\<close>

datatype stream_event = QueueMoved | Gone | Changed | CooldownOver | Heartbeat | Snap snapshot

fun stream_step ::
    "(snapshot \<Rightarrow> frame list) \<Rightarrow> nat \<Rightarrow> instant \<Rightarrow> frame \<Rightarrow> stream_event \<Rightarrow> stream \<Rightarrow> (stream \<times> frame list) option" where
  "stream_step frames n now pool QueueMoved s = Some (s\<lparr>signal := True\<rparr>, [])"
| "stream_step frames n now pool Gone s = (if open_conn s then Some (s\<lparr>open_conn := False\<rparr>, []) else None)"
| "stream_step frames n now pool Changed s =
     (if open_conn s \<and> signal s
      then Some (if throttled s then (s\<lparr>signal := False, missed := True\<rparr>, [])
                 else paintQueue n now pool (s\<lparr>signal := False\<rparr>))
      else None)"
| "stream_step frames n now pool CooldownOver s =
     (case cooldown s of
        None \<Rightarrow> None
      | Some d \<Rightarrow>
          (if open_conn s \<and> d \<le> now
           then Some (let s1 = s\<lparr>cooldown := None, throttled := False\<rparr>
                      in if missed s1 then paintQueue n now pool s1 else (s1, []))
           else None))"
| "stream_step frames n now pool Heartbeat s = (if open_conn s then Some (emit n [pool] s) else None)"
| "stream_step frames n now pool (Snap snap) s = (if open_conn s then Some (emit n (frames snap) s) else None)"

section \<open>Runs of the stream\<close>

record stream_log =
  lg_stream :: stream
  lg_clock :: instant
  lg_dirty :: bool
  lg_paints :: "instant list"

text \<open>The log keeps whether the queue has moved since the pool strip was last drawn, and the
  times of the repaints that changes caused.\<close>

definition log_start :: "bool \<Rightarrow> nat \<Rightarrow> instant \<Rightarrow> frame \<Rightarrow> stream_log" where
  "log_start moved_already n now pool =
     \<lparr>lg_stream = fst (stream_start moved_already n now pool), lg_clock = now, lg_dirty = False, lg_paints = [now]\<rparr>"

fun change_driven :: "stream_event \<Rightarrow> bool" where
  "change_driven Changed = True"
| "change_driven CooldownOver = True"
| "change_driven _ = False"

definition draws_pool :: "stream_event \<Rightarrow> frame list \<Rightarrow> bool" where
  "draws_pool e fs \<longleftrightarrow> fs \<noteq> [] \<and> (change_driven e \<or> e = Heartbeat)"

definition log_step ::
    "(snapshot \<Rightarrow> frame list) \<Rightarrow> nat \<Rightarrow> instant \<Rightarrow> frame \<Rightarrow> stream_event \<Rightarrow> stream_log \<Rightarrow> stream_log option" where
  "log_step frames n now pool e l =
     (if now < lg_clock l then None
      else map_option (\<lambda>(s, fs).
        \<lparr>lg_stream = s, lg_clock = now,
         lg_dirty = (e = QueueMoved \<or> lg_dirty l \<and> \<not> draws_pool e fs),
         lg_paints = lg_paints l @ (if change_driven e \<and> fs \<noteq> [] then [now] else [])\<rparr>)
       (stream_step frames n now pool e (lg_stream l)))"

inductive stream_reachable :: "(snapshot \<Rightarrow> frame list) \<Rightarrow> stream_log \<Rightarrow> bool" for frames where
  stream_first: "stream_reachable frames (log_start moved_already n now pool)"
| stream_next: "stream_reachable frames l \<Longrightarrow> log_step frames n now pool e l = Some l' \<Longrightarrow> stream_reachable frames l'"

section \<open>The invariant of the stream\<close>

definition stream_ok :: "stream_log \<Rightarrow> bool" where
  "stream_ok l \<longleftrightarrow> lg_paints l \<noteq> [] \<and> last (lg_paints l) \<le> lg_clock l \<and>
     successively (\<lambda>a b. a + queueMinInterval \<le> b) (lg_paints l) \<and>
     (open_conn (lg_stream l) \<longrightarrow>
       (case cooldown (lg_stream l) of
          None \<Rightarrow> \<not> throttled (lg_stream l) \<and> last (lg_paints l) + queueMinInterval \<le> lg_clock l
        | Some d \<Rightarrow> throttled (lg_stream l) \<and> d = last (lg_paints l) + queueMinInterval) \<and>
       (missed (lg_stream l) \<longrightarrow> throttled (lg_stream l)) \<and>
       (lg_dirty l \<longrightarrow> signal (lg_stream l) \<or> missed (lg_stream l)))"

lemma stream_ok_start: "stream_ok (log_start moved_already n now pool)"
  by (auto simp: stream_ok_def log_start_def stream_start_def paintQueue_def emit_def)

text \<open>A repaint is allowed when the last one lies back far enough.\<close>

lemma stream_ok_paint:
  assumes "stream_ok l" "lg_clock l \<le> now" "last (lg_paints l) + queueMinInterval \<le> now" "s0 = lg_stream l"
    and "paintQueue n now pool (s0\<lparr>signal := sg, throttled := th, cooldown := cd\<rparr>) = (s, fs)"
    and "th = throttled s0 \<and> cd = cooldown s0 \<or> \<not> th \<and> cd = None"
  shows "stream_ok \<lparr>lg_stream = s, lg_clock = now, lg_dirty = (lg_dirty l \<and> fs = []),
    lg_paints = lg_paints l @ (if fs \<noteq> [] then [now] else [])\<rparr>"
proof (cases "n = 0")
  case True
  with assms show ?thesis by (auto simp: stream_ok_def paintQueue_def emit_def)
next
  case False
  with assms show ?thesis by (auto simp: stream_ok_def paintQueue_def emit_def successively_append_iff)
qed

lemma stream_eta:
  "s\<lparr>signal := b, throttled := throttled s, cooldown := cooldown s\<rparr> = s\<lparr>signal := b\<rparr>"
  "s\<lparr>signal := signal s, throttled := th, cooldown := cd\<rparr> = s\<lparr>throttled := th, cooldown := cd\<rparr>"
  "s\<lparr>cooldown := cd, throttled := th\<rparr> = s\<lparr>throttled := th, cooldown := cd\<rparr>"
  by (cases s; simp)+

lemma stream_ok_quiet:
  assumes "stream_ok l" "lg_clock l \<le> now" "open_conn (lg_stream l)"
    and "throttled s = throttled (lg_stream l)" "cooldown s = cooldown (lg_stream l)"
    and "missed s \<longrightarrow> missed (lg_stream l) \<or> throttled s" "d \<and> open_conn s \<longrightarrow> signal s \<or> missed s"
  shows "stream_ok \<lparr>lg_stream = s, lg_clock = now, lg_dirty = d, lg_paints = lg_paints l\<rparr>"
  using assms unfolding stream_ok_def by (simp split: option.splits) linarith

lemma stream_ok_closed:
  assumes "stream_ok l" "lg_clock l \<le> now" "\<not> open_conn s"
  shows "stream_ok \<lparr>lg_stream = s, lg_clock = now, lg_dirty = d, lg_paints = lg_paints l\<rparr>"
  using assms unfolding stream_ok_def by simp

lemma stream_ok_step:
  assumes "stream_ok l" "log_step frames n now pool e l = Some l'"
  shows "stream_ok l'"
proof -
  let ?s = "lg_stream l"
  obtain s fs where st: "stream_step frames n now pool e ?s = Some (s, fs)" "lg_clock l \<le> now"
    and l': "l' = \<lparr>lg_stream = s, lg_clock = now, lg_dirty = (e = QueueMoved \<or> lg_dirty l \<and> \<not> draws_pool e fs),
      lg_paints = lg_paints l @ (if change_driven e \<and> fs \<noteq> [] then [now] else [])\<rparr>"
    using assms(2) by (auto simp: log_step_def split: if_splits)
  have dirty: "lg_dirty l \<and> open_conn ?s \<longrightarrow> signal ?s \<or> missed ?s"
    using assms(1) by (simp add: stream_ok_def)
  show ?thesis
  proof (cases e)
    case QueueMoved
    then have s: "s = ?s\<lparr>signal := True\<rparr>" "fs = []" using st by simp_all
    show ?thesis
    proof (cases "open_conn ?s")
      case True
      with QueueMoved s st(2) assms(1) show ?thesis unfolding l' by (auto intro!: stream_ok_quiet)
    next
      case False
      with QueueMoved s st(2) assms(1) show ?thesis unfolding l' by (auto intro!: stream_ok_closed)
    qed
  next
    case Gone
    with st assms(1) show ?thesis unfolding l' by (auto intro!: stream_ok_closed split: if_splits)
  next
    case Heartbeat
    with st assms(1) dirty show ?thesis unfolding l'
      by (auto simp: emit_def draws_pool_def intro!: stream_ok_quiet split: if_splits)
  next
    case (Snap x)
    with st assms(1) dirty show ?thesis unfolding l'
      by (auto simp: emit_def draws_pool_def intro!: stream_ok_quiet split: if_splits)
  next
    case Changed
    then have o: "open_conn ?s" "signal ?s" using st by (auto split: if_splits)
    show ?thesis
    proof (cases "throttled ?s")
      case True
      with Changed o st assms(1) show ?thesis unfolding l' by (auto intro!: stream_ok_quiet)
    next
      case False
      then have le: "last (lg_paints l) + queueMinInterval \<le> now"
        using assms(1) o st(2) by (auto simp: stream_ok_def split: option.splits)
      have pq: "paintQueue n now pool (?s\<lparr>signal := False, throttled := throttled ?s, cooldown := cooldown ?s\<rparr>) = (s, fs)"
        unfolding stream_eta using Changed o False st by simp
      show ?thesis
        using stream_ok_paint [OF assms(1) st(2) le refl pq] Changed by (auto simp: l' draws_pool_def)
    qed
  next
    case CooldownOver
    then obtain d where d: "cooldown ?s = Some d" "d \<le> now" and o: "open_conn ?s"
      using st by (auto split: option.splits if_splits)
    then have le: "last (lg_paints l) + queueMinInterval \<le> now"
      using assms(1) by (simp add: stream_ok_def)
    show ?thesis
    proof (cases "missed ?s")
      case True
      then have pq: "paintQueue n now pool (?s\<lparr>signal := signal ?s, throttled := False, cooldown := None\<rparr>) = (s, fs)"
        unfolding stream_eta using CooldownOver d o st by (simp add: Let_def stream_eta)
      show ?thesis
        using stream_ok_paint [OF assms(1) st(2) le refl pq] CooldownOver by (auto simp: l' draws_pool_def)
    next
      case False
      with CooldownOver d o st le assms(1) show ?thesis
        by (auto simp: l' stream_ok_def Let_def)
    qed
  qed
qed

lemma stream_reachable_ok: "stream_reachable frames l \<Longrightarrow> stream_ok l"
  by (induction rule: stream_reachable.induct) (auto intro: stream_ok_start stream_ok_step)

section \<open>What a stream pushes and what a page shows\<close>

lemma foldl_i64: "in_i64 acc \<Longrightarrow> foldl (\<lambda>a n. i64 (a + n)) acc ts = i64 (acc + sum_list ts)"
proof (induction ts arbitrary: acc)
  case (Cons t ts)
  then show ?case
    using i64_range [of "acc + t"] i64_add_cong [of "i64 (acc + t)" "acc + t" "sum_list ts"]
    by (simp add: add.assoc)
qed simp

definition others :: "uint \<Rightarrow> apikey list \<Rightarrow> int list \<Rightarrow> int" where
  "others k ks ts = sum_list (map snd (filter (\<lambda>x. ID (fst x) \<noteq> k) (zip ks ts)))"

lemma others_simps [simp]:
  "others k [] ts = 0"
  "others k (x # xs) (t # ts) = (if ID x = k then others k xs ts else t + others k xs ts)"
  by (simp_all add: others_def)

lemma sidebar_fold_eq:
  assumes "length ks = length ts" "in_i64 (othersToday sc)"
  shows "peakToday (sidebar_fold k (zip ks ts) sc) = foldl max (peakToday sc) ts \<and>
    othersToday (sidebar_fold k (zip ks ts) sc) = i64 (othersToday sc + others k ks ts)"
  using assms
proof (induction ks ts arbitrary: sc rule: list_induct2)
  case (Cons x xs t ts)
  have "i64 (i64 (othersToday sc + t) + others k xs ts) = i64 (othersToday sc + t + others k xs ts)"
    by (rule i64_add_cong) simp
  with Cons i64_range [of "othersToday sc + t"] show ?case by (simp add: add.assoc)
qed simp

lemma others_none: "length ks = length ts \<Longrightarrow> k \<notin> ID ` set ks \<Longrightarrow> others k ks ts = sum_list ts"
  by (induction ks ts rule: list_induct2) auto

lemma others_plus:
  "length ks = length ts \<Longrightarrow> distinct (map ID ks) \<Longrightarrow> (key, t) \<in> set (zip ks ts) \<Longrightarrow>
     others (ID key) ks ts + t = sum_list ts"
proof (induction ks ts rule: list_induct2)
  case (Cons x xs u ts)
  show ?case
  proof (cases "ID x = ID key")
    case True
    have none: "ID key \<notin> ID ` set xs" using Cons.prems(1) by (simp add: True [symmetric])
    then have "(key, t) \<notin> set (zip xs ts)" by (auto dest: set_zip_leftD)
    then have "t = u" using Cons.prems(2) by simp
    then show ?thesis using True others_none [OF Cons.hyps(1) none] by simp
  next
    case False
    with Cons show ?thesis by auto
  qed
qed simp

lemma foldl_max_ge: "m \<le> foldl max m ts \<and> (t \<in> set ts \<longrightarrow> t \<le> foldl max m ts)" for m t :: int
proof (induction ts arbitrary: m)
  case (Cons x ts)
  from Cons [of "max m x"] show ?case by auto
qed simp

lemma today_totals_all2:
  "today_totals sumf t0 now ks = Inr ts \<Longrightarrow> list_all2 (\<lambda>k t. sumf (ID k) t0 now = Inr t) ks ts"
  by (induction ks arbitrary: ts) (auto split: sum.splits)

lemma filter_unique: "distinct (map f xs) \<Longrightarrow> x \<in> set xs \<Longrightarrow> filter (\<lambda>y. f y = f x) xs = [x]"
proof (induction xs)
  case (Cons y ys)
  have "filter (\<lambda>z. f z = f x) ys = []" if "f y = f x" using Cons.prems that by (auto simp: filter_empty_conv image_iff)
  with Cons show ?case by auto
qed simp

lemma today_to_now [simp]: "To (Today (ReportWindows loc now)) = now"
  by (simp add: ReportWindows_def Let_def)

section \<open>Properties\<close>

fun log_run :: "(snapshot \<Rightarrow> frame list) \<Rightarrow> (instant \<times> frame \<times> stream_event) list \<Rightarrow> stream_log \<Rightarrow> stream_log option" where
  "log_run frames [] l = Some l"
| "log_run frames ((now, pool, e) # es) l =
     (case log_step frames 1 now pool e l of None \<Rightarrow> None | Some l' \<Rightarrow> log_run frames es l')"

lemma log_run_reachable:
  "stream_reachable frames l \<Longrightarrow> log_run frames es l = Some l' \<Longrightarrow> stream_reachable frames l'"
  by (induction frames es l rule: log_run.induct) (auto split: option.splits intro: stream_next)

text \<open>A change inside the cooldown, and its repaint at the end.\<close>

abbreviation no_frames :: "snapshot \<Rightarrow> frame list" where
  "no_frames \<equiv> \<lambda>_. []"

definition demo_moved :: stream_log where
  "demo_moved = the (log_run no_frames [(10, PoolFrame None, QueueMoved)] (log_start False 1 0 (PoolFrame None)))"

definition demo_repainted :: stream_log where
  "demo_repainted = the (log_run no_frames [(20, PoolFrame None, Changed), (100000000, PoolFrame None, CooldownOver)] demo_moved)"

lemma demo_moved_reachable: "stream_reachable no_frames demo_moved"
proof -
  have "log_run no_frames [(10, PoolFrame None, QueueMoved)] (log_start False 1 0 (PoolFrame None)) = Some demo_moved"
    unfolding demo_moved_def by (rule the_run) code_simp
  from log_run_reachable [OF stream_first this] show ?thesis .
qed

lemma demo_repainted_reachable: "stream_reachable no_frames demo_repainted"
proof -
  have "log_run no_frames [(20, PoolFrame None, Changed), (100000000, PoolFrame None, CooldownOver)] demo_moved = Some demo_repainted"
    unfolding demo_repainted_def by (rule the_run) code_simp
  from log_run_reachable [OF demo_moved_reachable this] show ?thesis .
qed

text \<open>Changes repaint the pool strip at most once per interval. In every run of a stream the
  repaints that queue changes cause lie at least \<open>queueMinInterval\<close> apart.\<close>

theorem repaints_throttled:
  assumes "stream_reachable frames l"
  shows "successively (\<lambda>a b. a + queueMinInterval \<le> b) (lg_paints l)"
  using stream_reachable_ok [OF assms] by (simp add: stream_ok_def)

theorem repaints_throttled_witness:
  "lg_paints demo_repainted = [0, 100000000] \<and> 0 + queueMinInterval \<le> 100000000"
proof -
  have "lg_paints demo_repainted = [0, 100000000]" by code_simp
  with repaints_throttled [OF demo_repainted_reachable] show ?thesis by simp
qed

text \<open>C26: no change of the queue is lost to the throttle. Whenever the queue has moved since the
  strip was last drawn and the connection is open, at most two further cases of the
  \<open>select\<close>, both possible and none later than one interval from now, redraw it.\<close>

theorem no_change_lost:
  assumes "stream_reachable frames l" and "open_conn (lg_stream l)" and "lg_dirty l"
  shows "\<exists>es l'. length es \<le> 2 \<and> (\<forall>(t, p, e) \<in> set es. t \<le> lg_clock l + queueMinInterval \<and> change_driven e) \<and>
    log_run frames es l = Some l' \<and> \<not> lg_dirty l' \<and> open_conn (lg_stream l')"
proof -
  let ?s = "lg_stream l" and ?pool = "PoolFrame None"
  note ok = stream_reachable_ok [OF assms(1), unfolded stream_ok_def]
  have sig: "signal ?s \<or> missed ?s" using ok assms(2,3) by simp
  show ?thesis
  proof (cases "cooldown ?s")
    case None
    with ok assms(2) sig have "\<not> throttled ?s" "signal ?s" by auto
    with assms(2) show ?thesis
      by (intro exI [of _ "[(lg_clock l, ?pool, Changed)]"])
        (auto simp: log_step_def paintQueue_def emit_def draws_pool_def queueMinInterval_def)
  next
    case (Some d)
    with ok assms(2) have d: "throttled ?s" "d \<le> lg_clock l + queueMinInterval" by auto
    let ?t = "max d (lg_clock l)"
    have t: "?t \<le> lg_clock l + queueMinInterval" using d by (simp add: queueMinInterval_def)
    show ?thesis
    proof (cases "missed ?s")
      case True
      with assms(2) Some t show ?thesis
        by (intro exI [of _ "[(?t, ?pool, CooldownOver)]"])
          (auto simp: log_step_def paintQueue_def emit_def draws_pool_def Let_def)
    next
      case False
      with sig have "signal ?s" by simp
      with assms(2) Some t d show ?thesis
        by (intro exI [of _ "[(lg_clock l, ?pool, Changed), (?t, ?pool, CooldownOver)]"])
          (auto simp: log_step_def paintQueue_def emit_def draws_pool_def Let_def queueMinInterval_def)
    qed
  qed
qed

theorem no_change_lost_witness:
  "lg_dirty demo_moved \<and>
   (\<exists>es l'. length es \<le> 2 \<and> log_run no_frames es demo_moved = Some l' \<and> \<not> lg_dirty l')"
proof -
  have "open_conn (lg_stream demo_moved)" "lg_dirty demo_moved" by code_simp+
  with no_change_lost [OF demo_moved_reachable this] show ?thesis by blast
qed

text \<open>C27: connecting a stream changes no figure on the screen. The frames of a snapshot loaded at the
  moment the page was built are the page's own: its detail panel, the key's row of its list and
  its aggregate.\<close>

theorem pushed_frames_match_page:
  assumes "buildPage comma tenths model (Inr ks) sumf st loc now (ID key) = Inr page"
    and "sidebarContext (Inr ks) sumf loc now (ID key) = Inr sc"
    and "BuildReport (ReportWindows loc now) (\<lambda>r. sumf (ID key) (From r) (To r)) = Inr rep"
    and "key \<in> set ks" and "distinct (map ID ks)"
  shows "\<exists>row \<in> set (P_Keys page). I_ID row = ID key \<and>
    snapshot_frames comma key sc \<lparr>SN_KeyID = ID key, SN_Report = rep, SN_At = now\<rparr> =
      [PanelFrame (P_Detail page), RowFrame row, TotalFrame (P_TokensTodayLabel page)]"
proof -
  let ?t0 = "From (Today (ReportWindows loc now))"
  obtain ts where ts: "today_totals sumf ?t0 now ks = Inr ts"
    and sc: "sc = sidebar_fold (ID key) (zip ks ts) \<lparr>othersToday = 0, peakToday = 0\<rparr>"
    using assms(2) by (auto simp: sidebarContext_def split: sum.splits)
  note all2 = today_totals_all2 [OF ts]
  then have len: "length ks = length ts" by (rule list_all2_lengthD)
  have today: "sumf (ID key) ?t0 now = Inr (R_Today rep)"
    using assms(3) by (simp add: BuildReport_Inr_iff)
  obtain i where i: "i < length ks" "ks ! i = key" using assms(4) by (auto simp: in_set_conv_nth)
  then have "sumf (ID key) ?t0 now = Inr (ts ! i)" using list_all2_nthD [OF all2 i(1)] by simp
  with today have ti: "ts ! i = R_Today rep" by simp
  have mem: "(key, R_Today rep) \<in> set (zip ks ts)" using i ti len by (auto simp: set_zip)
  have peak: "peakToday sc = foldl max 0 ts" and oth: "othersToday sc = i64 (others (ID key) ks ts)"
    using sidebar_fold_eq [OF len, of "\<lparr>othersToday = 0, peakToday = 0\<rparr>" "ID key"] by (simp_all add: sc)
  have "i64 (othersToday sc + R_Today rep) = i64 (others (ID key) ks ts + R_Today rep)"
    unfolding oth by (rule i64_add_cong) simp
  then have total: "i64 (othersToday sc + R_Today rep) = foldl (\<lambda>a n. i64 (a + n)) 0 ts"
    using foldl_i64 [of 0 ts] others_plus [OF len assms(5) mem] by simp
  have max: "max (peakToday sc) (R_Today rep) = foldl max 0 ts"
    using foldl_max_ge [of 0 ts "R_Today rep"] mem by (auto simp: peak dest: set_zip_rightD)
  let ?row = "key_item comma key True (R_Today rep) (foldl max 0 ts)"
  have page: "P_Detail page = detailVM comma key rep" "P_TokensTodayLabel page = comma (foldl (\<lambda>a n. i64 (a + n)) 0 ts)"
    "P_Keys page = map2 (\<lambda>k n. key_item comma k (ID k = ID key) n (foldl max 0 ts)) ks ts"
    using assms(1,3) ts filter_unique [OF assms(5,4)] by (auto simp: buildPage_def Let_def buildDetail_def)
  have "?row \<in> set (P_Keys page)" using mem by (auto simp: page(3) intro!: image_eqI [where x = "(key, R_Today rep)"])
  moreover have "I_ID ?row = ID key" by (simp add: key_item_def)
  ultimately show ?thesis
    by (intro bexI [of _ ?row]) (simp_all add: snapshot_frames_def detailFrom_def sidebar_row_def totalLabel_def page max total)
qed

definition demo_keys :: "apikey list" where
  "demo_keys = [lifetime_key 200, sample_key 999 ''h9'']"

definition demo_stats :: stats where
  "demo_stats = \<lparr>Capacity = 1, InFlight = 0, Waiting = 0, PromoteAfter = 5 * second, Classes = [], OldestWait = 0,
     Admitted = 0, Promoted = 0, Cancelled = 0\<rparr>"

lemma the_result: "case r of Inl _ \<Rightarrow> False | Inr _ \<Rightarrow> True \<Longrightarrow> r = Inr (projr r)"
  by (cases r) auto

theorem pushed_frames_match_page_witness:
  "\<exists>page sc row. buildPage Itoa Itoa ''bge-m3'' (Inr demo_keys) (SumTokens mem_driver july_db) demo_stats (fixed_zone 0) july_now 1 = Inr page \<and>
     row \<in> set (P_Keys page) \<and> P_TokensTodayLabel page = totalLabel Itoa sc 100"
proof -
  let ?key = "lifetime_key 200" and ?sum = "SumTokens mem_driver july_db"
  let ?rep = "\<lparr>R_Today = 100, R_ThisWeek = 100, R_ThisMonth = 150, R_PastMonth = 30, R_Before = 20\<rparr>"
  have k: "ID ?key = 1" "?key \<in> set demo_keys" "distinct (map ID demo_keys)"
    by (simp_all add: lifetime_key_def sample_key_def demo_keys_def)
  let ?w = "ReportWindows (fixed_zone 0) july_now"
  have todays: "today_totals ?sum (From (Today ?w)) july_now demo_keys = Inr [100, 777]" by code_simp
  have one: "filter (\<lambda>k. ID k = ID ?key) demo_keys = [?key]"
    by (simp add: demo_keys_def lifetime_key_def sample_key_def)
  let ?page = "buildPage Itoa Itoa ''bge-m3'' (Inr demo_keys) ?sum demo_stats (fixed_zone 0) july_now (ID ?key)"
  let ?sc = "sidebarContext (Inr demo_keys) ?sum (fixed_zone 0) july_now (ID ?key)"
  have page: "?page = Inr (projr ?page)"
    by (rule the_result) (simp add: buildPage_def todays one buildDetail_def july_report [folded k(1)])
  have sc: "?sc = Inr (projr ?sc)"
    by (rule the_result) (simp add: sidebarContext_def todays)
  from pushed_frames_match_page [OF page sc july_report [folded k(1)] k(2,3)]
  obtain row where "row \<in> set (P_Keys (projr ?page))"
    "snapshot_frames Itoa ?key (projr ?sc) \<lparr>SN_KeyID = ID ?key, SN_Report = ?rep, SN_At = july_now\<rparr> =
      [PanelFrame (P_Detail (projr ?page)), RowFrame row, TotalFrame (P_TokensTodayLabel (projr ?page))]" by blast
  moreover from this(2) have "P_TokensTodayLabel (projr ?page) = totalLabel Itoa (projr ?sc) 100"
    by (simp add: snapshot_frames_def)
  ultimately show ?thesis using page unfolding k(1) by blast
qed

text \<open>The dashboard's door never leads nowhere. The index redirects to a page that exists, as
  long as the keys are the same when the page is asked for.\<close>

theorem index_redirect_lands:
  assumes "handleIndex comma tenths model (Inr ks) st = Redirect url"
    and "\<forall>k \<in> set ks. ID k < 2 ^ 64" and "\<forall>k a b. sumf k a b \<noteq> Inl ErrNotFound"
  shows "\<exists>param. url = BasePath @ ''/keys/'' @ param \<and>
    handleKeyPage comma tenths model (Inr ks) sumf st' loc now param \<noteq> PageNotFound"
proof -
  have "\<exists>k \<in> set ks. url = key_url (ID k)"
    using assms(1) by (auto simp: handleIndex_def defaultKeyID_def find_Some_iff split: option.splits if_splits
        intro: hd_in_set nth_mem)
  then obtain k where k: "k \<in> set ks" "url = key_url (ID k)" by blast
  have parse: "ParseUint (Itoa (int (ID k))) = Some (ID k)"
    using assms(2) k(1) by (auto simp: ParseUint_def Itoa_def digits_def digits_decimal)
  have "today_totals sumf t0 now ks' \<noteq> Inl ErrNotFound" for t0 ks'
    using assms(3) by (induction ks') (auto split: sum.splits)
  moreover have "BuildReport w (\<lambda>r. sumf i (From r) (To r)) \<noteq> Inl ErrNotFound" for w i
    using assms(3) by (auto simp: BuildReport_def split: sum.splits)
  moreover have "filter (\<lambda>x. ID x = ID k) ks \<noteq> []" using k(1) by (auto simp: filter_empty_conv)
  ultimately have "buildPage comma tenths model (Inr ks) sumf st' loc now (ID k) \<noteq> Inl ErrNotFound"
    by (auto simp: buildPage_def Let_def buildDetail_def split: sum.splits list.splits)
  then have "handleKeyPage comma tenths model (Inr ks) sumf st' loc now (Itoa (int (ID k))) \<noteq> PageNotFound"
    by (auto simp: handleKeyPage_def parse split: sum.splits repo_error.splits)
  with k(2) show ?thesis by (auto simp: key_url_def)
qed

theorem index_redirect_lands_witness:
  "\<exists>param. handleIndex Itoa Itoa ''bge-m3'' (Inr demo_keys) demo_stats = Redirect (BasePath @ ''/keys/'' @ param) \<and>
     handleKeyPage Itoa Itoa ''bge-m3'' (Inr demo_keys) (\<lambda>_ _ _. Inr 0) demo_stats UTC 200 param \<noteq> PageNotFound"
proof -
  have r: "handleIndex Itoa Itoa ''bge-m3'' (Inr demo_keys) demo_stats = Redirect (key_url 1)"
    by (simp add: handleIndex_def defaultKeyID_def demo_keys_def lifetime_key_def sample_key_def IsRevoked_def)
  have ids: "\<forall>k \<in> set demo_keys. ID k < 2 ^ 64" by (simp add: demo_keys_def lifetime_key_def sample_key_def)
  have "\<forall>k a b. (\<lambda>_ _ _. Inr 0 :: repo_error + int) (k :: uint) (a :: instant) (b :: instant) \<noteq> Inl ErrNotFound" by simp
  from index_redirect_lands [OF r ids this] r show ?thesis by auto
qed

end
