(* ===== verification/Templates.thy ===== *)
theory Templates
  imports Markup Stream
begin

text \<open>
  The dashboard's templates (src/internal/web/templates_templ.go, generated from templates.templ):
  the page and the four components the live stream pushes, piece by piece as the generated code
  writes them. The lemmas follow each one through the HTML it opens and closes.
\<close>

section \<open>The components\<close>

definition datastarVersion :: string where
  "datastarVersion = ''v1.0.2''"

definition datastarCDN :: string where
  "datastarCDN = ''https://cdn.jsdelivr.net/gh/starfederation/datastar'' @ ''@'' @ datastarVersion @ ''/bundles/datastar.js''"

definition TokensToday :: "string \<Rightarrow> piece list" where
  "TokensToday label =
     [Begin,
      Lit (lt ''<span id=~qtokens-today~q class=~qstat~q><b class=~qamber~q>''),
      Txt label,
      Lit ''</b> tokens today</span>'']"

definition limit :: "string \<Rightarrow> string \<Rightarrow> string \<Rightarrow> bool \<Rightarrow> piece list" where
  "limit label val unit accent =
     [Begin,
      Css [Cls ''limit'', KV ''accent'' accent],
      Lit (lt ''<div class=~q''),
      CssAtt [Cls ''limit'', KV ''accent'' accent],
      Lit (lt ''~q><dt>''),
      Txt label,
      Lit (lt ''</dt><dd class=~qnum~q>''),
      Txt val,
      Lit '' ''] @
     (if unit \<noteq> '''' then
       [Lit (lt ''<span class=~qunit~q>''),
        Txt unit,
        Lit ''</span>'']
     else []) @
     [Lit ''</dd></div>'']"

definition detailError :: "string \<Rightarrow> piece list" where
  "detailError msg =
     [Begin,
      Lit (lt ''<div id=~qdetail~q class=~qdetail~q><div class=~qdetail-head~q><h2 '' @
           lt ''class=~qdetail-title~q>~m error ~m</h2></div><p class=~qover-note~q '' @
           lt ''style=~qmargin-top:16px~q>''),
      Txt msg,
      Lit ''</p></div>'']"

definition emptyState :: "piece list" where
  "emptyState =
     [Begin,
      Lit (lt ''<main class=~qempty~q><div class=~qempty-box~q><div class=~qempty-glyph~q>~2 '' @
           lt ''_</div><h2>no keys yet</h2><p class=~qfaint~q>Mint one from the CLI, then '' @
           lt ''reload:</p><code class=~qempty-cmd~q>ragctl create --name my-app</code></div></main>'')]"

definition keyRow_link :: "key_list_item \<Rightarrow> piece list" where
  "keyRow_link k =
     [Begin,
      Css [Cls ''keyrow'', KV ''active'' (I_Current k)],
      Lit (lt ''<a id=~q''),
      Att (''keyrow-'' @ Itoa (int (I_ID k))),
      Lit (lt ''~q href=~q''),
      Url (I_Href k),
      Lit (lt ''~q class=~q''),
      CssAtt [Cls ''keyrow'', KV ''active'' (I_Current k)],
      Lit (lt ''~q'')] @
     (if I_Current k then
       [Lit (lt '' aria-current=~qpage~q'')]
     else []) @
     [Lit (lt '' aria-label=~q''),
      Att (''Usage for '' @ I_Label k),
      Lit (lt ''~q><span class=~qrow-top~q>'')]"

definition keyRow_body :: "key_list_item \<Rightarrow> piece list" where
  "keyRow_body k =
     [Css [Cls ''dot'', Cls (I_StatusClass k)],
      Lit (lt ''<span class=~q''),
      CssAtt [Cls ''dot'', Cls (I_StatusClass k)],
      Lit (lt ''~q aria-hidden=~qtrue~q></span> <span class=~qrow-label~q>''),
      Txt (I_Label k),
      Lit ''</span> ''] @
     (if I_Elevated k then
       [Lit (lt ''<span class=~qtag-prio~q title=~qadmission-queue rank~q>''),
        Txt (I_PrioLabel k),
        Lit ''</span> '']
     else []) @
     (if I_Revoked k then
       [Lit (lt ''<span class=~qtag-revoked~q>revoked</span> '')]
     else []) @
     [Lit (lt ''<span class=~qrow-today num~q>''),
      Txt (I_TodayLabel k),
      Lit (lt ''</span></span> <span class=~qbar~q aria-hidden=~qtrue~q><span class=~qbar-fill~q '' @
           lt ''style=~q''),
      Sty (''width:'' @ I_Width k),
      Lit (lt ''~q></span></span></a>'')]"

definition keyRow :: "key_list_item \<Rightarrow> piece list" where
  "keyRow k = keyRow_link k @ keyRow_body k"

definition QueuePanel_slots :: "queue_vm \<Rightarrow> piece list" where
  "QueuePanel_slots q =
     [Begin,
      Css [Cls ''queue'', KV ''hot'' (Q_Saturated q), KV ''aged'' (Q_Aged q)],
      Lit (lt ''<div id=~qqueue~q class=~q''),
      CssAtt [Cls ''queue'', KV ''hot'' (Q_Saturated q), KV ''aged'' (Q_Aged q)],
      Lit (lt ''~q><div class=~qqueue-slots~q><span class=~qqueue-label~q>slots</span> <span '' @
           lt ''class=~qslots~q role=~qimg~q aria-label=~q''),
      Att (Q_InFlightLabel q @ '' upstream slots busy''),
      Lit (lt ''~q>'')] @
     concat (map (\<lambda>busy.
       [Css [Cls ''slot'', KV ''busy'' busy],
        Lit (lt ''<span class=~q''),
        CssAtt [Cls ''slot'', KV ''busy'' busy],
        Lit (lt ''~q></span>'')]) (Q_Slots q)) @
     [Lit (lt ''</span> <span class=~qqueue-num num~q>''),
      Txt (Q_InFlightLabel q),
      Lit ''</span></div>'']"

definition QueuePanel_classes :: "queue_vm \<Rightarrow> piece list" where
  "QueuePanel_classes q =
     (if Q_Waiting q then
       [Lit (lt ''<div class=~qqueue-classes~q role=~qlist~q aria-label=~qQueued requests by priority~q>'')] @
       concat (map (\<lambda>c.
         [Lit (lt ''<div class=~qqclass~q role=~qlistitem~q>''),
          Css [Cls ''qtag'', KV ''top'' (QC_Top c), KV ''aged'' (QC_Aged c)],
          Lit (lt ''<span class=~q''),
          CssAtt [Cls ''qtag'', KV ''top'' (QC_Top c), KV ''aged'' (QC_Aged c)],
          Lit (lt ''~q>''),
          Txt (QC_Label c),
          Lit (lt ''</span> <span class=~qqbar~q aria-hidden=~qtrue~q><span class=~qqfill~q style=~q''),
          Sty (''width:'' @ QC_Width c),
          Lit (lt ''~q></span></span> <span class=~qqcount num~q>''),
          Txt (QC_CountLabel c),
          Lit (lt ''</span> <span class=~qqwait num faint~q>''),
          Txt (QC_WaitLabel c),
          Lit ''</span></div>'']) (Q_Classes q)) @
       [Lit ''</div>'']
     else if Q_Idle q then
       [Lit (lt ''<p class=~qqueue-note faint~q>pool idle ~m nothing in flight, nothing queued</p>'')]
     else [Lit (lt ''<p class=~qqueue-note faint~q>no queue ~m every request is admitted straight through</p>'')])"

definition QueuePanel_foot :: "queue_vm \<Rightarrow> piece list" where
  "QueuePanel_foot q =
     [Lit (lt ''<div class=~qqueue-foot~q><span>''),
      Txt (Q_WaitingLabel q),
      Lit '' ''] @
     (if Q_Waiting q then
       [Lit (lt ''~1 oldest <b class=~qnum~q>''),
        Txt (Q_OldestLabel q),
        Lit ''</b>'']
     else []) @
     [Lit ''</span> ''] @
     (if Q_Aged q then
       [Lit (lt ''<span class=~qpromo-note~q>~6 waited past ''),
        Txt (Q_PromoteLabel q),
        Lit (lt '' ~m promoting ahead of priority</span> '')]
     else []) @
     [Lit (lt ''<span class=~qfaint~q>admitted <b class=~qnum~q>''),
      Txt (Q_AdmittedLabel q),
      Lit (lt ''</b> ~1 promoted <b class=~qnum~q>''),
      Txt (Q_PromotedLabel q),
      Lit ''</b></span></div></div>'']"

definition QueuePanel :: "queue_vm \<Rightarrow> piece list" where
  "QueuePanel q = QueuePanel_slots q @ QueuePanel_classes q @ QueuePanel_foot q"

definition Detail_head :: "detail_vm \<Rightarrow> piece list" where
  "Detail_head d =
     [Begin,
      Lit (lt ''<div id=~qdetail~q class=~qdetail~q><div class=~qdetail-head~q><div><h2 '' @
           lt ''class=~qdetail-title~q>''),
      Txt (V_Label d),
      Lit '' ''] @
     (if V_Revoked d then
       [Lit (lt ''<span class=~qtag-revoked~q>revoked</span>'')]
     else []) @
     [Lit (lt ''</h2><div class=~qdetail-id faint~q>id ''),
      Txt (Itoa (int (V_ID d))),
      Lit (lt ''</div></div><div class=~qdetail-actions~q><span class=~qlive~q title=~qupdates stream '' @
           lt ''as calls are recorded~q>~5 live</span></div></div><dl class=~qlimits~q>'')] @
     limit ''batch'' (V_Batch d) ''inputs/req'' False @
     limit ''rate'' (V_Rate d) ''req/min'' False @
     limit ''prio'' (V_Prio d) ''in queue'' (V_Elevated d) @
     limit ''budget'' (V_BudgetLabel d) ''tokens'' False @
     limit ''period'' (V_Period d) '''' False"

definition Detail_buckets :: "detail_vm \<Rightarrow> piece list" where
  "Detail_buckets d =
     [Lit (lt ''</dl><div class=~qbuckets~q role=~qgroup~q aria-label=~qToken usage by period~q>'')] @
     concat (map (\<lambda>b.
       [Css [Cls ''bucket'', KV ''emph'' (B_Emphasis b)],
        Lit (lt ''<div class=~q''),
        CssAtt [Cls ''bucket'', KV ''emph'' (B_Emphasis b)],
        Lit (lt ''~q><span class=~qbucket-label~q>''),
        Txt (B_Label b),
        Lit (lt ''</span> <span class=~qbucket-bar~q aria-hidden=~qtrue~q><span class=~qbucket-fill~q '' @
             lt ''style=~q''),
        Sty (''width:'' @ B_Width b),
        Lit (lt ''~q></span></span> <span class=~qbucket-num num~q>''),
        Txt (B_TokensLabel b),
        Lit ''</span></div>'']) (V_Buckets d)) @
     [Lit ''</div>'']"

definition Detail_budget :: "detail_vm \<Rightarrow> piece list" where
  "Detail_budget d =
     (if V_HasBudget d then
       [Css [Cls ''meter'', KV ''over'' (V_Over d)],
        Lit (lt ''<div class=~q''),
        CssAtt [Cls ''meter'', KV ''over'' (V_Over d)],
        Lit (lt ''~q><div class=~qmeter-head~q><span class=~qbucket-label~q>''),
        Txt (V_Period d),
        Lit (lt '' budget</span> <span class=~qnum~q><b>''),
        Txt (V_BudgetUsedLabel d),
        Lit (lt ''</b> used ~1 ''),
        Txt (V_BudgetRemainingLabel d),
        Lit (lt '' left</span></div><div class=~qmeter-track~q role=~qprogressbar~q aria-label=~qbudget '' @
             lt ''consumed~q aria-valuemin=~q0~q aria-valuemax=~q100~q><div class=~qmeter-fill~q style=~q''),
        Sty (''width:'' @ V_BudgetWidth d),
        Lit (lt ''~q></div></div>'')] @
       (if V_Over d then
         [Lit (lt ''<div class=~qover-note~q>budget exhausted ~m requests return 402 until ''),
          Txt (V_Period d),
          Lit '' resets</div>'']
       else []) @
       [Lit ''</div>'']
     else []) @
     [Lit ''</div>'']"

definition Detail :: "detail_vm \<Rightarrow> piece list" where
  "Detail d = Detail_head d @ Detail_buckets d @ Detail_budget d"

definition Page_head :: "page_vm \<Rightarrow> piece list" where
  "Page_head vm =
     [Begin,
      Lit (lt ''<!doctype html><html lang=~qen~q><head><meta charset=~qutf-8~q><meta name=~qviewport~q '' @
           lt ''content=~qwidth=device-width, initial-scale=1~q><title>ragembed ~1 token '' @
           lt ''usage</title><script type=~qmodule~q src=~q''),
      Att datastarCDN,
      Lit (lt ''~q></script><link rel=~qstylesheet~q href=~q''),
      Url (BasePath @ ''/assets/dashboard.css''),
      Lit (lt ''~q></head><body><div class=~qwrap~q data-init=~q''),
      Att (lt ''@get(~k'' @ P_LiveURL vm @ lt ''~k)''),
      Lit (lt ''~q><header class=~qmasthead~q><div class=~qbrand~q><span class=~qprompt~q>~2</span> '' @
           lt ''<span class=~qbrand-name~q>ragembed</span> <span class=~qbrand-sub~q>token '' @
           lt ''usage</span></div><div class=~qmeta~q><span class=~qchip~q title=~qembedding model~q>''),
      Txt (P_Model vm),
      Lit (lt ''</span> <span class=~qstat~q><b>''),
      Txt (Itoa (P_TotalKeys vm)),
      Lit ''</b> keys</span>''] @
     TokensToday (P_TokensTodayLabel vm) @
     [Lit ''</div></header>'']"

definition Page_main :: "page_vm \<Rightarrow> queue_vm \<Rightarrow> detail_vm \<Rightarrow> piece list" where
  "Page_main vm q d =
     [Lit (lt ''<section class=~qpanel pressure~q aria-label=~qUpstream pool pressure~q><div '' @
           lt ''class=~qpanel-head pressure-head~q><span><span class=~qtick~q>~3~4</span> pool '' @
           lt ''pressure</span> <span class=~qlive~q>~5 streaming</span></div>'')] @
     QueuePanel q @
     [Lit (lt ''</section><main class=~qgrid~q><nav class=~qpanel keys~q aria-label=~qAPI keys~q><div '' @
           lt ''class=~qpanel-head~q><span class=~qtick~q>~3~4</span> tokens ~1 by key</div><ul '' @
           lt ''class=~qkeylist~q role=~qlist~q>'')] @
     concat (map (\<lambda>k.
       [Lit ''<li>''] @
       keyRow k @
       [Lit ''</li>'']) (P_Keys vm)) @
     [Lit (lt ''</ul></nav><section class=~qpanel detailcol~q>'')] @
     Detail d @
     [Lit ''</section></main>'']"

definition Page_foot :: "piece list" where
  "Page_foot =
     [Lit (lt ''<footer class=~qfoot~q><span>bge-m3 tokens counted from upstream '' @
           lt ''<code>usage.prompt_tokens</code></span> <span class=~qfaint~q>keys are issued with '' @
           ''<code>ragctl create</code></span></footer></div></body></html>'')]"

text \<open>None is the panic of the nil detail, or one in the making of the view model.\<close>

definition Page :: "page_vm \<Rightarrow> piece list option" where
  "Page vm = map_option (\<lambda>main. Page_head vm @ main @ Page_foot)
     (if P_HasKeys vm
      then (case (P_Queue vm, P_Detail vm) of (Some q, Some d) \<Rightarrow> Some (Page_main vm q d) | _ \<Rightarrow> None)
      else Some emptyState)"

section \<open>What they open and close\<close>

lemmas html_steps = glyph_def open_element_def close_element_def void_tags_def

lemma plain_simps [simp]:
  "plain []" "plain (c # s) \<longleftrightarrow> c \<notin> {CHR ''<'', CHR ''>'', CHR ''&'', CHR 0x22, CHR 0x27} \<and> plain s"
  by (simp_all add: plain_def)

lemma plain_Itoa [simp]: "plain (Itoa n)"
proof -
  have "plain (decimal m)" for m
    using decimal_chars [of m] by (auto simp: plain_def list_all_iff is_digit_def)
  then show ?thesis by (simp add: Itoa_def)
qed

definition row_id :: "key_list_item \<Rightarrow> string" where
  "row_id k = ''keyrow-'' @ Itoa (int (I_ID k))"

lemma balanced_TokensToday: "balanced (TokensToday label) [''tokens-today'']"
  by (simp add: balanced_def TokensToday_def html_steps)

lemma balanced_limit: "balanced (limit label val unit accent) []"
  by (simp add: balanced_def limit_def html_steps)

lemma balanced_detailError: "balanced (detailError msg) [''detail'']"
  by (simp add: balanced_def detailError_def html_steps)

lemma balanced_emptyState: "balanced emptyState []"
  by (simp add: balanced_def emptyState_def html_steps)

lemma balanced_keyRow: "balanced (keyRow k) [row_id k]"
  by (simp add: balanced_def keyRow_def keyRow_link_def keyRow_body_def row_id_def html_steps)

lemma check_concat:
  "(\<And>x. x \<in> set xs \<Longrightarrow> balanced (f x) []) \<Longrightarrow> check (concat (map f xs)) (Data, st, ids) = (Data, st, ids)"
  by (induction xs) (simp_all add: balanced_def)

lemma check_QueuePanel_slots:
  "check (QueuePanel_slots q) (Data, st, ids) = (Data, ''div'' # st, ''queue'' # ids)"
  by (simp add: QueuePanel_slots_def check_concat balanced_def html_steps)

lemma check_QueuePanel_classes: "check (QueuePanel_classes q) (Data, st, ids) = (Data, st, ids)"
  by (simp add: QueuePanel_classes_def check_concat balanced_def html_steps)

lemma check_QueuePanel_foot: "check (QueuePanel_foot q) (Data, ''div'' # st, ids) = (Data, st, ids)"
  by (simp add: QueuePanel_foot_def html_steps)

lemma balanced_QueuePanel: "balanced (QueuePanel q) [''queue'']"
  by (simp add: balanced_def QueuePanel_def check_QueuePanel_slots check_QueuePanel_classes check_QueuePanel_foot)

lemma check_Detail_head:
  "check (Detail_head d) (Data, st, ids) = (Data, ''dl'' # ''div'' # st, ''detail'' # ids)"
  by (simp add: Detail_head_def balanced_check [OF balanced_limit] html_steps)

lemma check_Detail_buckets: "check (Detail_buckets d) (Data, ''dl'' # st, ids) = (Data, st, ids)"
  by (simp add: Detail_buckets_def check_concat balanced_def html_steps)

lemma check_Detail_budget: "check (Detail_budget d) (Data, ''div'' # st, ids) = (Data, st, ids)"
  by (simp add: Detail_budget_def html_steps)

lemma balanced_Detail: "balanced (Detail d) [''detail'']"
  by (simp add: balanced_def Detail_def check_Detail_head check_Detail_buckets check_Detail_budget)

lemmas component_ids = balanced_check [OF balanced_TokensToday] balanced_check [OF balanced_keyRow]
  balanced_check [OF balanced_QueuePanel] balanced_check [OF balanced_Detail] balanced_check [OF balanced_emptyState]

section \<open>The page\<close>

lemma check_Page_head:
  "check (Page_head vm) (Data, st, ids) = (Data, ''div'' # ''body'' # ''html'' # st, ''tokens-today'' # ids)"
  by (simp add: Page_head_def component_ids html_steps)

lemma check_Page_rows:
  "check (concat (map (\<lambda>k. [Lit ''<li>''] @ keyRow k @ [Lit ''</li>'']) ks)) (Data, st, ids) =
   (Data, st, rev (map row_id ks) @ ids)"
  by (induction ks arbitrary: ids) (simp_all add: component_ids html_steps)

lemma check_Page_main:
  "check (Page_main vm q d) (Data, st, ids) =
   (Data, st, ''detail'' # rev (map row_id (P_Keys vm)) @ ''queue'' # ids)"
  by (simp add: Page_main_def component_ids check_Page_rows [simplified] html_steps)

lemma check_Page_foot: "check Page_foot (Data, ''div'' # ''body'' # ''html'' # st, ids) = (Data, st, ids)"
  by (simp add: Page_foot_def html_steps)

definition page_ids :: "page_vm \<Rightarrow> string list" where
  "page_ids vm = ''tokens-today'' #
     (if P_HasKeys vm then ''queue'' # map row_id (P_Keys vm) @ [''detail''] else [])"

lemma balanced_Page: "Page vm = Some ps \<Longrightarrow> balanced ps (page_ids vm)"
  by (auto simp: Page_def balanced_def page_ids_def check_Page_head check_Page_main check_Page_foot component_ids
      split: if_splits option.splits prod.splits)


text \<open>The ids are distinct when the keys are, which they are as primary keys.\<close>

lemma row_id_inj: "row_id k = row_id k' \<Longrightarrow> I_ID k = I_ID k'"
  by (simp add: row_id_def Itoa_inj)

lemma distinct_page_ids: "distinct (map I_ID (P_Keys vm)) \<Longrightarrow> distinct (page_ids vm)"
proof -
  assume "distinct (map I_ID (P_Keys vm))"
  then have "distinct (map row_id (P_Keys vm))"
    by (auto simp: distinct_map inj_on_def dest: row_id_inj)
  then show ?thesis by (auto simp: page_ids_def row_id_def)
qed

lemma distinct_count: "distinct xs \<Longrightarrow> x \<in> set xs \<Longrightarrow> count_list xs x = 1"
  by (induction xs) auto

text \<open>A page lists the keys of the database in their order.\<close>

lemma page_key_ids:
  assumes "buildPage comma tenths model (Inr ks) sumf st loc now i = Inr vm"
  shows "map I_ID (P_Keys vm) = map ID ks" "P_HasKeys vm"
proof -
  obtain ts mx where keys: "P_Keys vm = map2 (\<lambda>k n. key_item comma k (ID k = i) n mx) ks ts"
    "length ks = length ts" "P_HasKeys vm"
    using assms today_totals_all2 [THEN list_all2_lengthD]
    by (fastforce simp: buildPage_def Let_def split: sum.splits list.splits)
  show "map I_ID (P_Keys vm) = map ID ks"
    using keys(2) by (auto simp: keys(1) key_item_def intro: nth_equalityI)
  show "P_HasKeys vm" by (rule keys(3))
qed

section \<open>Properties\<close>

text \<open>The template each frame of the live stream is rendered from; None is a panic.\<close>

fun frame_template :: "frame \<Rightarrow> piece list option" where
  "frame_template (PoolFrame q) = map_option QueuePanel q"
| "frame_template (PanelFrame d) = map_option Detail d"
| "frame_template (RowFrame k) = Some (keyRow k)"
| "frame_template (TotalFrame label) = Some (TokensToday label)"

fun frame_id :: "frame \<Rightarrow> string" where
  "frame_id (PoolFrame q) = ''queue''"
| "frame_id (PanelFrame d) = ''detail''"
| "frame_id (RowFrame k) = row_id k"
| "frame_id (TotalFrame label) = ''tokens-today''"

lemma balanced_frame: "frame_template f = Some ps \<Longrightarrow> balanced ps [frame_id f]"
  by (cases f rule: frame_template.cases)
    (auto simp: balanced_QueuePanel balanced_Detail balanced_keyRow balanced_TokensToday)

text \<open>No text can break the dashboard's markup. Whatever the labels of keys and limits are, the
  page the templates write is HTML in which every element is closed where it was opened, so that
  no name of a key ends an element or starts one; and no id occurs in it twice.\<close>

theorem dashboard_markup_safe:
  assumes "templ_runtime rt" and "Page vm = Some ps" and "render rt ps [] = Inr html"
    and "distinct (map I_ID (P_Keys vm))"
  shows "well_formed_html html (page_ids vm) \<and> distinct (page_ids vm)"
  using templ_runtime.balanced_well_formed [OF assms(1) balanced_Page [OF assms(2)] assms(3)]
    distinct_page_ids [OF assms(4)] by blast


definition hostile_page :: page_vm where
  "hostile_page =
     \<lparr>P_Model = ''</span>'', P_TotalKeys = 1, P_TokensTodayLabel = ''1'', P_HasKeys = True, P_LiveURL = ''/admin/keys/1/live'',
      P_Queue = Some \<lparr>Q_Capacity = 1, Q_Slots = [True], Q_InFlightLabel = ''1/1'', Q_Saturated = True, Q_Idle = False,
        Q_Waiting = False, Q_WaitingLabel = ''0 queued'', Q_Classes = [], Q_OldestLabel = ''0ms'', Q_Aged = False,
        Q_PromoteLabel = ''5.0s'', Q_AdmittedLabel = ''1'', Q_PromotedLabel = ''0''\<rparr>,
      P_Keys = [\<lparr>I_ID = 1, I_Label = ''</a><script>alert(1)</script>'', I_Href = ''/admin/keys/1'', I_Current = True,
        I_StatusClass = ''active'', I_Revoked = False, I_Elevated = False, I_PrioLabel = ''p0'', I_TodayLabel = ''1'',
        I_Width = ''100%''\<rparr>],
      P_Detail = Some \<lparr>V_ID = 1, V_Label = ''</h2>'', V_Revoked = False, V_Batch = ''25'', V_Rate = ''100'', V_Prio = ''p0'',
        V_Elevated = False, V_BudgetLabel = ''unlimited'', V_Period = ''monthly'', V_Buckets = [], V_HasBudget = False,
        V_Over = False, V_BudgetUsedLabel = [], V_BudgetRemainingLabel = [], V_BudgetWidth = []\<rparr>\<rparr>"

theorem dashboard_markup_safe_witness:
  "\<exists>html. render html_runtime (the (Page hostile_page)) [] = Inr html \<and>
     well_formed_html html [''tokens-today'', ''queue'', ''keyrow-1'', ''detail'']"
proof -
  have "Page hostile_page = Some (the (Page hostile_page))" by (simp add: Page_def hostile_page_def)
  moreover obtain html where "render html_runtime (the (Page hostile_page)) [] = Inr html" using html_renders by blast
  moreover have "page_ids hostile_page = [''tokens-today'', ''queue'', ''keyrow-1'', ''detail'']"
  proof -
    have "Itoa 1 = ''1''" by code_simp
    then show ?thesis by (simp add: page_ids_def hostile_page_def row_id_def)
  qed
  moreover have "distinct (map I_ID (P_Keys hostile_page))" by (simp add: hostile_page_def)
  ultimately show ?thesis using dashboard_markup_safe [OF html.templ_runtime_axioms] by metis
qed

text \<open>C28: every patch of the live stream finds its place. Each component the stream pushes is one
  piece of HTML that carries exactly one id, and in the page of the same key exactly one element
  carries it; so the browser replaces that element and nothing else, whatever the texts are.\<close>

theorem patches_find_their_element:
  assumes "templ_runtime rt" and "distinct (map ID ks)" and "key \<in> set ks"
    and "buildPage comma tenths model (Inr ks) sumf st loc now (ID key) = Inr vm"
    and "Page vm = Some ps" and "render rt ps [] = Inr html"
    and "f \<in> set (PoolFrame q # snapshot_frames comma key sc snap)"
    and "frame_template f = Some fs" and "render rt fs [] = Inr patch"
  shows "well_formed_html patch [frame_id f] \<and> well_formed_html html (page_ids vm) \<and>
    count_list (page_ids vm) (frame_id f) = 1"
proof -
  note ids = page_key_ids [OF assms(4)]
  have "map row_id (P_Keys vm) = map (\<lambda>i. ''keyrow-'' @ Itoa (int i)) (map I_ID (P_Keys vm))"
    by (simp add: row_id_def)
  also have "\<dots> = map (\<lambda>k. ''keyrow-'' @ Itoa (int (ID k))) ks" by (simp add: ids(1))
  finally have rows: "map row_id (P_Keys vm) = map (\<lambda>k. ''keyrow-'' @ Itoa (int (ID k))) ks" .
  have "distinct (page_ids vm)" using distinct_page_ids [of vm] assms(2) by (simp add: ids(1))
  moreover have "frame_id f \<in> set (page_ids vm)"
    using assms(3,7) ids(2)
    by (auto simp: page_ids_def rows snapshot_frames_def sidebar_row_def key_item_def row_id_def)
  ultimately have "count_list (page_ids vm) (frame_id f) = 1" by (rule distinct_count)
  then show ?thesis
    using templ_runtime.balanced_well_formed [OF assms(1) balanced_Page [OF assms(5)] assms(6)]
      templ_runtime.balanced_well_formed [OF assms(1) balanced_frame [OF assms(8)] assms(9)] by blast
qed


definition demo_page :: page_vm where
  "demo_page = projr (buildPage Itoa Itoa ''bge-m3'' (Inr demo_keys) (SumTokens mem_driver july_db) demo_stats
     (fixed_zone 0) july_now 1)"

lemma demo_page_built:
  "buildPage Itoa Itoa ''bge-m3'' (Inr demo_keys) (SumTokens mem_driver july_db) demo_stats (fixed_zone 0) july_now
     (ID (lifetime_key 200)) = Inr demo_page"
  "Page demo_page = Some (the (Page demo_page))"
proof -
  let ?key = "lifetime_key 200" and ?sum = "SumTokens mem_driver july_db" and ?w = "ReportWindows (fixed_zone 0) july_now"
  have k: "ID ?key = 1" by (simp add: lifetime_key_def sample_key_def)
  have todays: "today_totals ?sum (From (Today ?w)) july_now demo_keys = Inr [100, 777]" by code_simp
  have one: "filter (\<lambda>k. ID k = ID ?key) demo_keys = [?key]"
    by (simp add: demo_keys_def lifetime_key_def sample_key_def)
  have built: "\<exists>vm. buildPage Itoa Itoa ''bge-m3'' (Inr demo_keys) ?sum demo_stats (fixed_zone 0) july_now (ID ?key) = Inr vm \<and>
      P_Queue vm \<noteq> None \<and> P_Detail vm \<noteq> None"
    by (simp add: buildPage_def todays one buildDetail_def july_report [folded k] Let_def)
      (simp add: buildQueue_def busy_slots_def demo_stats_def detailVM_def Let_def lifetime_key_def sample_key_def)
  then show page: "buildPage Itoa Itoa ''bge-m3'' (Inr demo_keys) ?sum demo_stats (fixed_zone 0) july_now (ID ?key) = Inr demo_page"
    by (auto simp: demo_page_def k)
  with built show "Page demo_page = Some (the (Page demo_page))" by (auto simp: Page_def)
qed

theorem patches_find_their_element_witness:
  "\<exists>patch. render html_runtime (TokensToday ''150'') [] = Inr patch \<and> well_formed_html patch [''tokens-today''] \<and>
     count_list (page_ids demo_page) ''tokens-today'' = 1"
proof -
  have k: "distinct (map ID demo_keys)" "lifetime_key 200 \<in> set demo_keys"
    by (simp_all add: lifetime_key_def sample_key_def demo_keys_def)
  obtain html patch where r: "render html_runtime (the (Page demo_page)) [] = Inr html"
    "render html_runtime (TokensToday ''150'') [] = Inr patch" using html_renders by blast
  have "Itoa 150 = ''150''" by code_simp
  then have "TotalFrame ''150'' \<in> set (PoolFrame None # snapshot_frames Itoa (lifetime_key 200)
      \<lparr>othersToday = 50, peakToday = 0\<rparr> \<lparr>SN_KeyID = 1,
        SN_Report = \<lparr>R_Today = 100, R_ThisWeek = 0, R_ThisMonth = 0, R_PastMonth = 0, R_Before = 0\<rparr>, SN_At = 0\<rparr>)"
    by (simp add: snapshot_frames_def totalLabel_def)
  from patches_find_their_element [OF html.templ_runtime_axioms k demo_page_built(1,2) r(1) this _ r(2)] r(2)
  show ?thesis by simp
qed

end
