(* ===== verification/Ragctl.thy ===== *)
theory Ragctl
  imports HttpApi Plan
begin

text \<open>
  The operator's command line (src/cmd/ragctl/main.go): issuing, retuning and revoking keys.
  A command's action takes what the flag parser and the outside world deliver and returns
  its error or its output data with the database it leaves, and what is printed of them is a text.
  The list command and the commands as a whole are in Console.
\<close>

section \<open>Flags\<close>

text \<open>None is a flag the operator did not pass (\<open>IsSet\<close> is false).\<close>

record limit_flags =
  F_batch :: "int option"
  F_rate :: "int option"
  F_budget :: "int option"
  F_period :: "string option"
  F_priority :: "int option"

definition applyFlags :: "limit_flags \<Rightarrow> limits \<Rightarrow> limits" where
  "applyFlags c l =
     (let l1 = (case F_batch c of Some v \<Rightarrow> l\<lparr>L_BatchMax := v\<rparr> | None \<Rightarrow> l);
          l2 = (case F_rate c of Some v \<Rightarrow> l1\<lparr>L_RatePerMin := v\<rparr> | None \<Rightarrow> l1);
          l3 = (case F_budget c of Some v \<Rightarrow> l2\<lparr>L_TokenBudget := v\<rparr> | None \<Rightarrow> l2);
          l4 = (case F_period c of Some v \<Rightarrow> l3\<lparr>L_BudgetPeriod := v\<rparr> | None \<Rightarrow> l3)
      in (case F_priority c of Some v \<Rightarrow> l4\<lparr>L_Priority := v\<rparr> | None \<Rightarrow> l4))"

section \<open>The commands\<close>

datatype cli_error = LimitError limit_error | KeyError key_error | StoreError repo_error | NothingToChange

text \<open>\<open>rand\<close> is what crypto/rand delivers, \<open>created\<close> the row's creation time.\<close>

definition create_action ::
    "(string \<Rightarrow> string) \<Rightarrow> 'db driver \<Rightarrow> config \<Rightarrow> string \<Rightarrow> limit_flags \<Rightarrow> string option \<Rightarrow> instant \<Rightarrow> 'db \<Rightarrow>
     (cli_error + apikey \<times> string) \<times> 'db" where
  "create_action sha256 g cfg name c rand created db =
     (let l = applyFlags c (default_limits cfg)
      in case Validate l of
           Some e \<Rightarrow> (Inl (LimitError e), db)
         | None \<Rightarrow>
             (case GenerateKey rand of
                Inl e \<Rightarrow> (Inl (KeyError e), db)
              | Inr plaintext \<Rightarrow>
                  (let k0 = \<lparr>ID = 0, Name = name, KeyHash = HashKey sha256 plaintext, BatchMax = 0,
                             RatePerMin = 0, TokenBudget = 0, BudgetPeriod = '''', Priority = 0,
                             RevokedAt = None, CreatedAt = created\<rparr>
                   in case ApplyLimits k0 l of
                        (Some e, _) \<Rightarrow> (Inl (LimitError e), db)
                      | (None, k) \<Rightarrow>
                          (case Create g db k of
                             (Inl e, db') \<Rightarrow> (Inl (StoreError e), db')
                           | (Inr k', db') \<Rightarrow> (Inr (k', plaintext), db')))))"

definition update_action ::
    "'db driver \<Rightarrow> uint \<Rightarrow> limit_flags \<Rightarrow> 'db \<Rightarrow> (cli_error + apikey \<times> limits \<times> limits) \<times> 'db" where
  "update_action g i c db =
     (case ByID g db i of
        Inl e \<Rightarrow> (Inl (StoreError e), db)
      | Inr k \<Rightarrow>
          (let before = Limits k; after = applyFlags c before
           in if after = before then (Inl NothingToChange, db)
              else case Validate after of
                Some e \<Rightarrow> (Inl (LimitError e), db)
              | None \<Rightarrow>
                  (case UpdateLimits g db i after of
                     (Some e, db') \<Rightarrow> (Inl (StoreError e), db')
                   | (None, db') \<Rightarrow> (Inr (k, before, after), db'))))"

definition revoke_action :: "'db driver \<Rightarrow> instant \<Rightarrow> uint \<Rightarrow> 'db \<Rightarrow> cli_error option \<times> 'db" where
  "revoke_action g now i db =
     (case Revoke g db now i of
        (Some e, db') \<Rightarrow> (Some (StoreError e), db')
      | (None, db') \<Rightarrow> (None, db'))"

section \<open>Printing\<close>

definition dash :: "string \<Rightarrow> string" where
  "dash s = (if s = '''' then ''-'' else s)"

definition status_label :: "apikey \<Rightarrow> string" where
  "status_label k = (if IsRevoked k then ''revoked'' else ''active'')"

text \<open>\<open>comma\<close> is \<open>humanize.Comma\<close>.\<close>

definition budgetString :: "(int \<Rightarrow> string) \<Rightarrow> int \<Rightarrow> string" where
  "budgetString comma budget = (if budget = Unlimited then ''unlimited'' else comma budget)"

definition priorityString :: "int \<Rightarrow> string" where
  "priorityString p = (if p = NormalPriority then ''0'' else Itoa p @ lt '' ~6'')"

definition printCreated :: "(int \<Rightarrow> string) \<Rightarrow> apikey \<Rightarrow> string \<Rightarrow> string" where
  "printCreated comma k plaintext =
     lt ''API key created ~m copy it now, it will NOT be shown again:~n'' @ lt ''~n'' @
     ''    '' @ plaintext @ lt ''~n'' @ lt ''~n'' @
     ''  id:      '' @ Itoa (int (ID k)) @ lt ''~n'' @
     ''  name:    '' @ dash (Name k) @ lt ''~n'' @
     ''  batch:   '' @ Itoa (BatchMax k) @ lt '' inputs/request~n'' @
     ''  rate:    '' @ Itoa (RatePerMin k) @ lt '' requests/min~n'' @
     ''  budget:  '' @ budgetString comma (TokenBudget k) @ '' ('' @ BudgetPeriod k @ lt '')~n'' @
     ''  prio:    '' @ priorityString (Priority k) @ lt ''~n''"

definition change_line :: "string \<Rightarrow> string \<Rightarrow> string \<Rightarrow> string \<Rightarrow> string" where
  "change_line field_name before after unit = ''  '' @ field_name @ before @ lt '' ~7 '' @ after @ unit @ lt ''~n''"

definition printChanges :: "(int \<Rightarrow> string) \<Rightarrow> limits \<Rightarrow> limits \<Rightarrow> string" where
  "printChanges comma before after =
     (if L_BatchMax before \<noteq> L_BatchMax after
      then change_line ''batch:    '' (Itoa (L_BatchMax before)) (Itoa (L_BatchMax after)) '' inputs/request'' else []) @
     (if L_RatePerMin before \<noteq> L_RatePerMin after
      then change_line ''rate:     '' (Itoa (L_RatePerMin before)) (Itoa (L_RatePerMin after)) '' requests/min'' else []) @
     (if L_TokenBudget before \<noteq> L_TokenBudget after
      then change_line ''budget:   '' (budgetString comma (L_TokenBudget before)) (budgetString comma (L_TokenBudget after)) '' tokens''
      else []) @
     (if L_BudgetPeriod before \<noteq> L_BudgetPeriod after
      then change_line ''period:   '' (L_BudgetPeriod before) (L_BudgetPeriod after) [] else []) @
     (if L_Priority before \<noteq> L_Priority after
      then change_line ''priority: '' (priorityString (L_Priority before)) (priorityString (L_Priority after)) [] else [])"

section \<open>Tokens survive the header\<close>

lemma bits_value_bound: "bits_value bs acc < (acc + 1) * 2 ^ length bs"
proof (induction bs arbitrary: acc)
  case (Cons b bs)
  have "bits_value bs (2 * acc + (if b then 1 else 0)) < (2 * acc + (if b then 1 else 0) + 1) * 2 ^ length bs"
    by (rule Cons.IH)
  also have "\<dots> \<le> (2 * acc + 2) * 2 ^ length bs" by (intro mult_right_mono) auto
  finally show ?case by (simp add: algebra_simps)
qed simp

lemma base32_alphabet_bits: "length bs = 5 \<Longrightarrow> base32_alphabet ! bits_value bs 0 \<in> set base32_alphabet"
  using bits_value_bound [of bs 0] by (intro nth_mem) (simp add: base32_alphabet_def)

lemma base32_chunks_alphabet: "set (base32_chunks bs) \<subseteq> set base32_alphabet"
proof (induction bs rule: base32_chunks.induct)
  case (1 a b c d e bs)
  then show ?case using base32_alphabet_bits [of "[a, b, c, d, e]"] by (simp add: base32_chunks.simps del: bits_value.simps)
qed (simp_all add: base32_chunks.simps base32_alphabet_bits del: bits_value.simps)

lemma alphabet_no_space: "c \<in> set (keyPrefix @ base32_alphabet) \<Longrightarrow> \<not> is_space c"
proof -
  have "list_all (\<lambda>c. \<not> is_space c) (keyPrefix @ base32_alphabet)" by code_simp
  then show "c \<in> set (keyPrefix @ base32_alphabet) \<Longrightarrow> \<not> is_space c" by (simp add: list_all_iff)
qed

lemma dropWhile_id: "\<forall>c \<in> set s. \<not> P c \<Longrightarrow> dropWhile P s = s"
  by (cases s) simp_all

lemma TrimSpace_id: "\<forall>c \<in> set s. \<not> is_space c \<Longrightarrow> TrimSpace s = s"
  by (simp add: TrimSpace_def dropWhile_id)

lemma bearerToken_generated:
  assumes "GenerateKey rand = Inr plaintext"
  shows "bearerToken (''Bearer '' @ plaintext) = plaintext" "plaintext \<noteq> ''''"
proof -
  obtain buf where p: "plaintext = keyPrefix @ base32_nopad buf"
    using assms by (auto simp: GenerateKey_def split: option.splits)
  have "set plaintext \<subseteq> set (keyPrefix @ base32_alphabet)"
    using base32_chunks_alphabet by (auto simp: p base32_nopad_def)
  then have "\<forall>c \<in> set plaintext. \<not> is_space c" using alphabet_no_space by blast
  then have "TrimSpace plaintext = plaintext" by (rule TrimSpace_id)
  moreover have "map fold_char ''Bearer '' = map fold_char bearer_prefix" "length bearer_prefix = 7" by code_simp+
  ultimately show "bearerToken (''Bearer '' @ plaintext) = plaintext" by (simp add: bearerToken_def)
  show "plaintext \<noteq> ''''" by (simp add: p keyPrefix_def)
qed

section \<open>Properties\<close>

text \<open>C33: the printed key works. After a successful create over any lawful database, presenting
  the printed plaintext as a bearer credential authenticates exactly the created key, with
  the defaults overlaid by the operator's flags as its limits; once that key is revoked, the
  same credential is refused with the reply an unknown key gets.\<close>

theorem issued_key_lifecycle:
  assumes "sql_driver g K E"
    and "create_action sha256 g cfg name c rand created db = (Inr (k, plaintext), db1)"
    and "ByHash g db1 (HashKey sha256 plaintext) = Inr k1"
    and "revoke_action g now (ID k) db1 = (None, db2)"
    and "ByHash g db2 (HashKey sha256 plaintext) = Inr k2"
  shows "BearerAuth sha256 (ByHash g db1) (''Bearer '' @ plaintext) = Passed k \<and>
    Limits k = applyFlags c (default_limits cfg) \<and> Validate (Limits k) = None \<and>
    BearerAuth sha256 (ByHash g db2) (''Bearer '' @ plaintext) =
      Rejected (WriteError [] 401 ''invalid_request_error'' ''invalid API key'')"
proof -
  let ?l = "applyFlags c (default_limits cfg)"
  let ?k0 = "\<lparr>ID = 0, Name = name, KeyHash = HashKey sha256 plaintext, BatchMax = L_BatchMax ?l,
    RatePerMin = L_RatePerMin ?l, TokenBudget = L_TokenBudget ?l, BudgetPeriod = L_BudgetPeriod ?l,
    Priority = L_Priority ?l, RevokedAt = None, CreatedAt = created\<rparr>"
  have gen: "GenerateKey rand = Inr plaintext" "Validate ?l = None" "Create g db ?k0 = (Inr k, db1)"
    using assms(2)
    by (auto simp: create_action_def Let_def ApplyLimits_def split: option.splits sum.splits prod.splits)
  note tok = bearerToken_generated [OF gen(1)]
  have created: "K db1 = K db @ [k]" "Limits k = ?l" "KeyHash k = HashKey sha256 plaintext" "RevokedAt k = None"
    "KeyHash k \<notin> KeyHash ` set (K db)"
    using sql_driver.Create_ok [OF assms(1) gen(3)] by (auto simp: Limits_def)
  have only: "x = k" if "x \<in> set (K db1)" "KeyHash x = HashKey sha256 plaintext" for x
    using that created(1,3,5) by (auto simp: image_iff)
  have k1: "k1 = k"
    using sql_driver.ByHash_Inr [OF assms(1,3)] by (intro only) (auto simp: find_Some_iff)
  have rev: "Revoke g db1 now (ID k) = (None, db2)"
    using assms(4) by (auto simp: revoke_action_def split: prod.splits option.splits)
  have "k2 \<in> set (K db2)" "KeyHash k2 = HashKey sha256 plaintext"
    using sql_driver.ByHash_Inr [OF assms(1,5)] by (auto simp: find_Some_iff)
  moreover have "K db2 = map (\<lambda>x. if ID x = ID k then x\<lparr>RevokedAt := Some now\<rparr> else x) (K db1)"
    using sql_driver.Revoke_ok [OF assms(1) rev] by simp
  ultimately obtain x where x: "x \<in> set (K db1)" "k2 = (if ID x = ID k then x\<lparr>RevokedAt := Some now\<rparr> else x)"
    by auto
  then have "KeyHash x = HashKey sha256 plaintext"
    using \<open>KeyHash k2 = HashKey sha256 plaintext\<close> by (auto split: if_splits)
  with x only have "IsRevoked k2" by (simp add: IsRevoked_def)
  then show ?thesis
    using assms(3,5) k1 tok created(2,4) gen(2) by (simp add: BearerAuth_def IsRevoked_def)
qed

definition no_flags :: limit_flags where
  "no_flags = \<lparr>F_batch = None, F_rate = None, F_budget = None, F_period = None, F_priority = None\<rparr>"

definition demo_issue :: "(cli_error + apikey \<times> string) \<times> mem_db" where
  "demo_issue = create_action id mem_driver (read_config (\<lambda>_. None) (\<lambda>_. '''')) ''acme''
     (no_flags\<lparr>F_rate := Some 60\<rparr>) (Some (replicate 24 CHR ''x'')) 5 sample_db"

definition issued_key :: apikey where
  "issued_key = fst (projr (fst demo_issue))"

definition issued_token :: string where
  "issued_token = snd (projr (fst demo_issue))"

definition after_revoke :: mem_db where
  "after_revoke = snd (revoke_action mem_driver 9 (ID issued_key) (snd demo_issue))"

theorem issued_key_lifecycle_witness:
  "BearerAuth id (ByHash mem_driver (snd demo_issue)) (''Bearer '' @ issued_token) = Passed issued_key \<and>
   RatePerMin issued_key = 60 \<and> length issued_token = 46 \<and>
   BearerAuth id (ByHash mem_driver after_revoke) (''Bearer '' @ issued_token) =
     Rejected (WriteError [] 401 ''invalid_request_error'' ''invalid API key'')"
proof -
  let ?isr = "case_sum (\<lambda>_. False) (\<lambda>_. True)"
  have "?isr (fst demo_issue)" by code_simp
  then have c: "create_action id mem_driver (read_config (\<lambda>_. None) (\<lambda>_. '''')) ''acme''
     (no_flags\<lparr>F_rate := Some 60\<rparr>) (Some (replicate 24 CHR ''x'')) 5 sample_db =
       (Inr (issued_key, issued_token), snd demo_issue)"
    unfolding issued_key_def issued_token_def demo_issue_def [symmetric]
    by (auto split: sum.splits intro: prod_eqI)
  have "fst (revoke_action mem_driver 9 (ID issued_key) (snd demo_issue)) = None" by code_simp
  then have r: "revoke_action mem_driver 9 (ID issued_key) (snd demo_issue) = (None, after_revoke)"
    unfolding after_revoke_def by (metis prod.collapse)
  have "?isr (ByHash mem_driver (snd demo_issue) (HashKey id issued_token))"
    "?isr (ByHash mem_driver after_revoke (HashKey id issued_token))" by code_simp+
  then obtain k1 k2 where b: "ByHash mem_driver (snd demo_issue) (HashKey id issued_token) = Inr k1"
    "ByHash mem_driver after_revoke (HashKey id issued_token) = Inr k2" by (auto split: sum.splits)
  have "RatePerMin issued_key = 60" "length issued_token = 46" by code_simp+
  with issued_key_lifecycle [OF mem.sql_driver_axioms c b(1) r b(2)] show ?thesis by blast
qed

text \<open>Update is honest and safe. Only the flags that were passed move, the changes printed
  are those that were stored, an unknown id, an empty change or invalid limits leave the
  database as it was, and nothing but the one key's limits ever changes.\<close>

theorem update_action_safe:
  assumes "sql_driver g K E" and "update_action g i c db = (r, db')"
  shows "map key_identity (K db') = map key_identity (K db) \<and> E db' = E db \<and>
    filter (\<lambda>k. ID k \<noteq> i) (K db') = filter (\<lambda>k. ID k \<noteq> i) (K db) \<and>
    (case r of
       Inl e \<Rightarrow> K db' = K db
     | Inr (k, before, after) \<Rightarrow> before = Limits k \<and> after = applyFlags c before \<and> after \<noteq> before \<and> Validate after = None \<and>
         printChanges comma before after \<noteq> [] \<and>
         (\<forall>k \<in> set (K db'). ID k = i \<longrightarrow> Limits k = after))"
proof -
  have other: "filter (\<lambda>k. ID k \<noteq> i) (map (\<lambda>k. if ID k = i then set_limit_columns l k else k) ks)
      = filter (\<lambda>k. ID k \<noteq> i) ks" for ks l
    by (induction ks) auto
  have ident: "map key_identity (map (\<lambda>k. if ID k = i then set_limit_columns l k else k) ks) = map key_identity ks" for ks l
    by simp
  show ?thesis
  proof (cases r)
    case (Inl e)
    then have "db' = db \<or> (\<exists>l e'. UpdateLimits g db i l = (Some e', db'))"
      using assms(2) by (auto simp: update_action_def Let_def split: sum.splits if_splits option.splits prod.splits)
    then have "K db' = K db \<and> E db' = E db" using sql_driver.UpdateLimits_failed [OF assms(1)] by blast
    then show ?thesis by (simp add: Inl)
  next
    case (Inr ba)
    obtain k before after where ba: "ba = (k, before, after)" by (cases ba)
    have u: "before = Limits k" "after = applyFlags c before" "after \<noteq> before" "Validate after = None"
      "UpdateLimits g db i after = (None, db')"
      using assms(2) Inr ba
      by (auto simp: update_action_def Let_def split: sum.splits if_splits option.splits prod.splits)
    note ok = sql_driver.UpdateLimits_ok [OF assms(1) u(5)]
    have "printChanges comma before after \<noteq> []" using u(3) by (cases before; cases after) (auto simp: printChanges_def change_line_def)
    with ok u(1-4) show ?thesis by (auto simp: Inr ba other)
  qed
qed

theorem update_action_safe_witness:
  "let (r, db') = update_action mem_driver 2 (no_flags\<lparr>F_batch := Some 7\<rparr>) sample_db
   in map BatchMax (mem_keys db') = [25, 7] \<and> map key_identity (mem_keys db') = map key_identity (mem_keys sample_db)"
proof -
  let ?u = "update_action mem_driver 2 (no_flags\<lparr>F_batch := Some 7\<rparr>) sample_db"
  have "?u = (fst ?u, snd ?u)" by simp
  from update_action_safe [OF mem.sql_driver_axioms this]
  have "map key_identity (mem_keys (snd ?u)) = map key_identity (mem_keys sample_db)" by blast
  moreover have "map BatchMax (mem_keys (snd ?u)) = [25, 7]" by code_simp
  ultimately show ?thesis by (simp add: split_beta)
qed

end
