(* ===== verification/Database.thy ===== *)
theory Database
  imports Config
begin

text \<open>
  Opening the database (src/internal/platform/database/database.go). What gorm and goose do is an
  argument; the state of the database is what they leave. The migrations themselves are SQL.
\<close>

datatype database_error = OpenError string string | HandleError string | DialectError string | UpError string

record 'db sqlite =
  gorm_open :: "string \<Rightarrow> string + 'db"
  sql_handle :: "'db \<Rightarrow> string option"
  goose_dialect :: "string \<Rightarrow> string option"
  goose_up :: "string \<Rightarrow> 'db \<Rightarrow> string option \<times> 'db"

definition Open :: "'db sqlite \<Rightarrow> string \<Rightarrow> database_error + 'db" where
  "Open sq dbPath =
     (case gorm_open sq dbPath of Inl e \<Rightarrow> Inl (OpenError dbPath e) | Inr db \<Rightarrow> Inr db)"

definition Migrate :: "'db sqlite \<Rightarrow> 'db \<Rightarrow> database_error option \<times> 'db" where
  "Migrate sq db =
     (case sql_handle sq db of
        Some e \<Rightarrow> (Some (HandleError e), db)
      | None \<Rightarrow>
          (case goose_dialect sq ''sqlite3'' of
             Some e \<Rightarrow> (Some (DialectError e), db)
           | None \<Rightarrow>
               (case goose_up sq ''.'' db of
                  (Some e, db') \<Rightarrow> (Some (UpError e), db')
                | (None, db') \<Rightarrow> (None, db'))))"

text \<open>Configuration and migrated database: what every program of the repository starts with.\<close>

datatype start_error = ConfigFailed config_error | DatabaseFailed database_error

definition open_database :: "config_error + config \<Rightarrow> 'db sqlite \<Rightarrow> start_error + config \<times> 'db" where
  "open_database loaded sq =
     (case loaded of
        Inl e \<Rightarrow> Inl (ConfigFailed e)
      | Inr cfg \<Rightarrow>
          (case Open sq (DBPath cfg) of
             Inl e \<Rightarrow> Inl (DatabaseFailed e)
           | Inr db \<Rightarrow>
               (case Migrate sq db of
                  (Some e, _) \<Rightarrow> Inl (DatabaseFailed e)
                | (None, db') \<Rightarrow> Inr (cfg, db'))))"

lemma open_database_Inr:
  "open_database loaded sq = Inr (cfg, db) \<longleftrightarrow>
     loaded = Inr cfg \<and> (\<exists>db0. Open sq (DBPath cfg) = Inr db0 \<and> Migrate sq db0 = (None, db))"
  by (auto simp: open_database_def split: sum.splits prod.splits option.splits)

lemma Migrate_None:
  "Migrate sq db0 = (None, db) \<Longrightarrow> sql_handle sq db0 = None \<and> goose_dialect sq ''sqlite3'' = None \<and> goose_up sq ''.'' db0 = (None, db)"
  by (auto simp: Migrate_def split: option.splits prod.splits)

text \<open>A library that opens an empty file and whose migrations leave the state as it is.\<close>

definition memory_sqlite :: "'db \<Rightarrow> 'db sqlite" where
  "memory_sqlite db =
     \<lparr>gorm_open = \<lambda>_. Inr db, sql_handle = \<lambda>_. None, goose_dialect = \<lambda>_. None, goose_up = \<lambda>_ d. (None, d)\<rparr>"

lemma open_memory: "open_database (Inr cfg) (memory_sqlite db) = Inr (cfg, db)"
  by (simp add: open_database_def Open_def Migrate_def memory_sqlite_def)

end
