(* ===== verification/Console.thy ===== *)
theory Console
  imports Ragctl Database Budget
begin

text \<open>
  The commands of src/cmd/ragctl/main.go as a whole: opening the stores, the action, what is printed
  and the exit status; and the list command with the figures it shows, laid out in columns the way
  \<open>text/tabwriter\<close> does with the settings of the program.
\<close>

section \<open>Columns\<close>

fun split_on :: "char \<Rightarrow> string \<Rightarrow> string list" where
  "split_on c [] = [[]]"
| "split_on c (x # xs) =
     (if x = c then [] # split_on c xs
      else (case split_on c xs of [] \<Rightarrow> [[x]] | w # ws \<Rightarrow> (x # w) # ws))"

text \<open>\<open>utf8.RuneCount\<close>: a byte that starts no rune counts as one.\<close>

function rune_count :: "string \<Rightarrow> nat" where
  "rune_count s = (if s = [] then 0 else Suc (rune_count (drop (max 1 (utf8_width s)) s)))"
  by pat_completeness auto
termination
  by (relation "measure length") auto

declare rune_count.simps [simp del]

text \<open>A cell belongs to a column when a tab ends it. A column is as wide as the widest of its cells in
  neighbouring lines that all have it, and two blanks.\<close>

definition has_column :: "nat \<Rightarrow> string list \<Rightarrow> bool" where
  "has_column j line \<longleftrightarrow> j + 1 < length line"

definition column_width :: "string list list \<Rightarrow> nat \<Rightarrow> nat \<Rightarrow> nat" where
  "column_width ls i j =
     (let block = takeWhile (has_column j) (rev (take i ls)) @ takeWhile (has_column j) (drop i ls)
      in foldr (\<lambda>line w. max (rune_count (line ! j) + 2) w) block 0)"

definition padded :: "nat \<Rightarrow> string \<Rightarrow> string" where
  "padded w s = s @ replicate (w - rune_count s) CHR '' ''"

definition layout_line :: "string list list \<Rightarrow> nat \<Rightarrow> string" where
  "layout_line ls i =
     concat (map (\<lambda>j. padded (column_width ls i j) (ls ! i ! j)) [0..<length (ls ! i) - 1]) @ last (ls ! i)"

fun lines_text :: "string list \<Rightarrow> string" where
  "lines_text [] = []"
| "lines_text [l] = l"
| "lines_text (l # l' # ls) = l @ CHR 0x0A # lines_text (l' # ls)"

definition tabulate :: "string \<Rightarrow> string" where
  "tabulate s =
     (let ls = map (split_on CHR 0x09) (split_on CHR 0x0A s)
      in lines_text (map (layout_line ls) [0..<length ls]))"

section \<open>The list command\<close>

type_synonym listed = "apikey \<times> int \<times> int"

fun list_rows :: "(uint \<Rightarrow> instant \<Rightarrow> instant \<Rightarrow> 'e + int) \<Rightarrow> windows \<Rightarrow> instant \<Rightarrow> apikey list \<Rightarrow> 'e + listed list" where
  "list_rows sumf w now [] = Inr []"
| "list_rows sumf w now (k # ks) =
     (case sumf (ID k) (From (ThisMonth w)) now of
        Inl e \<Rightarrow> Inl e
      | Inr monthly \<Rightarrow>
          (case sumf (ID k) 0 now of
             Inl e \<Rightarrow> Inl e
           | Inr life \<Rightarrow>
               (case list_rows sumf w now ks of Inl e \<Rightarrow> Inl e | Inr rows \<Rightarrow> Inr ((k, monthly, life) # rows))))"

fun row_line :: "(int \<Rightarrow> string) \<Rightarrow> listed \<Rightarrow> string" where
  "row_line comma (k, monthly, life) =
     Itoa (int (ID k)) @ lt ''~t'' @ dash (Name k) @ lt ''~t'' @ status_label k @ lt ''~t'' @
     priorityString (Priority k) @ lt ''~t'' @ Itoa (BatchMax k) @ lt ''~t'' @ Itoa (RatePerMin k) @ lt ''~t'' @
     budgetString comma (TokenBudget k) @ lt ''~t'' @ BudgetPeriod k @ lt ''~t'' @
     comma monthly @ lt ''~t'' @ comma life @ lt ''~n''"

definition list_header :: string where
  "list_header = lt ''ID~tNAME~tSTATUS~tPRIO~tBATCH~tRATE/min~tBUDGET~tPERIOD~tTOKENS(month)~tTOKENS(life)~n''"

text \<open>The table is held back until every figure is known.\<close>

definition list_action ::
    "(int \<Rightarrow> string) \<Rightarrow> 'db driver \<Rightarrow> zone \<Rightarrow> instant \<Rightarrow> 'db \<Rightarrow> cli_error + string" where
  "list_action comma g loc now db =
     (case ListKeys g db of
        Inl e \<Rightarrow> Inl (StoreError e)
      | Inr keys \<Rightarrow>
          if keys = [] then Inr (lt ''no API keys yet ~m create one with: ragctl create --name <label>~n'')
          else (case list_rows (SumTokens g db) (ReportWindows loc now) now keys of
                  Inl e \<Rightarrow> Inl (StoreError e)
                | Inr rows \<Rightarrow> Inr (tabulate (list_header @ concat (map (row_line comma) rows)))))"

section \<open>The commands\<close>

datatype command_error = StartFailed start_error | ActionFailed cli_error

text \<open>Each opens the stores first. The result is an error or the text printed, and the database left
  behind if one was opened.\<close>

type_synonym 'db result = "(command_error + string) \<times> 'db option"

definition opened :: "config_error + config \<Rightarrow> 'db sqlite \<Rightarrow> (config \<Rightarrow> 'db \<Rightarrow> (cli_error + string) \<times> 'db) \<Rightarrow> 'db result" where
  "opened loaded sq act =
     (case open_database loaded sq of
        Inl e \<Rightarrow> (Inl (StartFailed e), None)
      | Inr (cfg, db) \<Rightarrow> map_prod (map_sum ActionFailed id) Some (act cfg db))"

definition create_command ::
    "(string \<Rightarrow> string) \<Rightarrow> (int \<Rightarrow> string) \<Rightarrow> 'db driver \<Rightarrow> config_error + config \<Rightarrow> 'db sqlite \<Rightarrow>
     string \<Rightarrow> limit_flags \<Rightarrow> string option \<Rightarrow> instant \<Rightarrow> 'db result" where
  "create_command sha256 comma g loaded sq name flags rand created =
     opened loaded sq (\<lambda>cfg db.
       case create_action sha256 g cfg name flags rand created db of
         (Inl e, db') \<Rightarrow> (Inl e, db')
       | (Inr (k, plaintext), db') \<Rightarrow> (Inr (printCreated comma k plaintext), db'))"

definition list_command ::
    "(int \<Rightarrow> string) \<Rightarrow> zone \<Rightarrow> 'db driver \<Rightarrow> config_error + config \<Rightarrow> 'db sqlite \<Rightarrow> instant \<Rightarrow> 'db result" where
  "list_command comma loc g loaded sq now = opened loaded sq (\<lambda>cfg db. (list_action comma g loc now db, db))"

definition update_command ::
    "(int \<Rightarrow> string) \<Rightarrow> 'db driver \<Rightarrow> config_error + config \<Rightarrow> 'db sqlite \<Rightarrow> uint \<Rightarrow> limit_flags \<Rightarrow> 'db result" where
  "update_command comma g loaded sq i flags =
     opened loaded sq (\<lambda>cfg db.
       case update_action g i flags db of
         (Inl e, db') \<Rightarrow> (Inl e, db')
       | (Inr (k, before, after), db') \<Rightarrow>
           (Inr (''key '' @ Itoa (int i) @ '' ('' @ dash (Name k) @ lt '') updated:~n'' @ printChanges comma before after), db'))"

definition revoke_command ::
    "'db driver \<Rightarrow> config_error + config \<Rightarrow> 'db sqlite \<Rightarrow> uint \<Rightarrow> instant \<Rightarrow> 'db result" where
  "revoke_command g loaded sq i now =
     opened loaded sq (\<lambda>cfg db.
       case revoke_action g now i db of
         (Some e, db') \<Rightarrow> (Inl e, db')
       | (None, db') \<Rightarrow> (Inr (''key '' @ Itoa (int i) @ lt '' revoked~n''), db'))"

text \<open>\<open>main\<close>: the exit status and the standard output; errors go to the other one.\<close>

definition ragctl_main :: "'db result \<Rightarrow> int \<times> string" where
  "ragctl_main r = (case fst r of Inl e \<Rightarrow> (1, []) | Inr out \<Rightarrow> (0, out))"

lemma tabulate_sample:
  "tabulate (lt ''ID~tNAME~tLIFE~n7~t-~t1~n11~tacme~t20~n'') = lt ''ID  NAME  LIFE~n7   -     1~n11  acme  20~n''"
  by code_simp

section \<open>Properties\<close>

lemma list_rows_Inr:
  "list_rows sumf w now ks = Inr rows \<Longrightarrow> map fst rows = ks \<and>
     (\<forall>(k, mon, life) \<in> set rows. sumf (ID k) (From (ThisMonth w)) now = Inr mon \<and> sumf (ID k) 0 now = Inr life)"
  by (induction ks arbitrary: rows) (auto split: sum.splits)

lemma list_action_rows:
  "list_action comma g loc now db = Inr out \<Longrightarrow> ListKeys g db = Inr ks \<Longrightarrow> ks \<noteq> [] \<Longrightarrow>
   \<exists>rows. list_rows (SumTokens g db) (ReportWindows loc now) now ks = Inr rows \<and>
     out = tabulate (list_header @ concat (map (row_line comma) rows))"
  by (auto simp: list_action_def split: sum.splits)

text \<open>C34: the list shows what the gateway acts on. When the command prints a table, it has one row for
  every key of the database, with what the key spent this month and ever; and for a key with a
  budget, the figure of its own period has reached the budget exactly when the gateway, asked at
  that moment, refuses its requests.\<close>

theorem list_matches_enforcement:
  assumes "sql_driver g K E" and "list_action comma g loc now db = Inr out" and "K db \<noteq> []"
  shows "\<exists>rows. out = tabulate (list_header @ concat (map (row_line comma) rows)) \<and>
    fst ` set rows = set (K db) \<and> length rows = length (K db) \<and>
    (\<forall>k mon life. (k, mon, life) \<in> set rows \<longrightarrow>
       mon = spent_in (E db) (ID k) (\<lambda>t. From (ThisMonth (ReportWindows loc now)) \<le> t \<and> t < now) \<and>
       life = spent_in (E db) (ID k) (\<lambda>t. 0 \<le> t \<and> t < now) \<and>
       (\<not> IsUnlimited k \<longrightarrow> (\<exists>st. Status (SumTokens g db) loc now k = Inr st \<and>
          (Exhausted st \<longleftrightarrow> TokenBudget k \<le> (if BudgetPeriod k = Monthly then mon else life)))))"
proof -
  obtain ks where l: "ListKeys g db = Inr ks" using assms(2) by (auto simp: list_action_def split: sum.splits)
  then have ks: "set ks = set (K db)" "length ks = length (K db)"
    using sql_driver.find_keys_ok [OF assms(1)] by (auto simp: ListKeys_def split: sum.splits)
  then have "ks \<noteq> []" using assms(3) by auto
  then obtain rows where rows: "list_rows (SumTokens g db) (ReportWindows loc now) now ks = Inr rows"
    "out = tabulate (list_header @ concat (map (row_line comma) rows))"
    using list_action_rows [OF assms(2) l] by blast
  note r = list_rows_Inr [OF rows(1)]
  have exact: "n = spent_in (E db) i (\<lambda>t. a \<le> t \<and> t < b)" if "SumTokens g db i a b = Inr n" for i a b n
    using sql_driver.SumTokens_exact [OF assms(1) that] by (simp add: spent_in_def conj_assoc)
  have "fst ` set rows = set ks" "length rows = length ks" using r by (metis list.set_map, metis length_map)
  moreover have "mon = spent_in (E db) (ID k) (\<lambda>t. From (ThisMonth (ReportWindows loc now)) \<le> t \<and> t < now) \<and>
       life = spent_in (E db) (ID k) (\<lambda>t. 0 \<le> t \<and> t < now) \<and>
       (\<not> IsUnlimited k \<longrightarrow> (\<exists>st. Status (SumTokens g db) loc now k = Inr st \<and>
          (Exhausted st \<longleftrightarrow> TokenBudget k \<le> (if BudgetPeriod k = Monthly then mon else life))))"
    if "(k, mon, life) \<in> set rows" for k mon life
  proof -
    have s: "SumTokens g db (ID k) (From (ThisMonth (ReportWindows loc now))) now = Inr mon"
      "SumTokens g db (ID k) 0 now = Inr life" using r that by auto
    then show ?thesis using exact by (auto simp: Status_limited period_start_def)
  qed
  ultimately show ?thesis using rows(2) ks by (intro exI [of _ rows]) simp
qed


definition listed_db :: mem_db where
  "listed_db = july_db\<lparr>mem_keys := [lifetime_key 200]\<rparr>"

theorem list_matches_enforcement_witness:
  "case list_action Itoa mem_driver (fixed_zone 0) july_now listed_db of
     Inl _ \<Rightarrow> False
   | Inr out \<Rightarrow> \<exists>k mon life. out = tabulate (list_header @ row_line Itoa (k, mon, life)) \<and> k = lifetime_key 200 \<and> life = 200"
proof -
  let ?r = "list_action Itoa mem_driver (fixed_zone 0) july_now listed_db"
  have sums: "SumTokens mem_driver listed_db 1 0 july_now = Inr 200"
    "SumTokens mem_driver listed_db 1 (From (ThisMonth (ReportWindows (fixed_zone 0) july_now))) july_now = Inr 150"
    by code_simp+
  have keys: "ListKeys mem_driver listed_db = Inr [lifetime_key 200]"
    unfolding listed_db_def by code_simp
  have "ID (lifetime_key 200) = 1" by (simp add: lifetime_key_def sample_key_def)
  then have "\<exists>out. ?r = Inr out" by (simp add: list_action_def keys sums del: One_nat_def)
  then obtain out where out: "?r = Inr out" by blast
  have db: "mem_keys listed_db = [lifetime_key 200]" by (simp add: listed_db_def)
  obtain rows where rows: "out = tabulate (list_header @ concat (map (row_line Itoa) rows))"
    "fst ` set rows = {lifetime_key 200}" "length rows = 1"
    "\<And>k mon life. (k, mon, life) \<in> set rows \<Longrightarrow> life = spent_in (mem_events listed_db) (ID k) (\<lambda>t. 0 \<le> t \<and> t < july_now)"
    using list_matches_enforcement [OF mem.sql_driver_axioms out] unfolding db by force
  then obtain k mon life where row: "rows = [(k, mon, life)]" by (cases rows) auto
  with rows have "k = lifetime_key 200" "life = spent_in (mem_events listed_db) 1 (\<lambda>t. 0 \<le> t \<and> t < july_now)"
    by (auto simp: lifetime_key_def sample_key_def)
  moreover have "spent_in (mem_events listed_db) 1 (\<lambda>t. 0 \<le> t \<and> t < july_now) = 200"
    using mem.SumTokens_exact [OF sums(1)] by (simp add: spent_in_def conj_assoc)
  ultimately show ?thesis using rows(1) by (auto simp: out row)
qed

end
