(* ===== verification/Wire.thy ===== *)
theory Wire
  imports JsonText HttpApi
begin

text \<open>
  What crosses the wire (src/internal/proxy/embeddings.go and handler.go with the library's JSON
  text): the bytes of the error envelope, the bodies clients marshal, and the upstream's answers.
  The gateway of this theory reads bodies with \<open>json_parse\<close>.
\<close>

section \<open>The error envelope\<close>

definition apiError :: "string \<Rightarrow> string \<Rightarrow> json" where
  "apiError errType message =
     JObj [(''error'', JObj [(''message'', JStr message), (''type'', JStr errType)])]"

text \<open>\<open>json.Encoder.Encode\<close> ends with a newline.\<close>

definition Encode :: "json \<Rightarrow> string" where
  "Encode v = Marshal v @ [CHR 0x0A]"

definition body_bytes :: "reply_body \<Rightarrow> string" where
  "body_bytes b = (case b of ErrorBody t m \<Rightarrow> Encode (apiError t m) | Relayed bytes \<Rightarrow> bytes)"

definition reading_text :: "gateway_config \<Rightarrow> gateway_config" where
  "reading_text h = h\<lparr>g_parse := json_parse\<rparr>"

section \<open>The gateway's own errors\<close>

text \<open>The type an error of each status carries.\<close>

definition error_type :: "int \<Rightarrow> string" where
  "error_type st =
     (if st \<in> {400, 401, 413} then ''invalid_request_error''
      else if st = 402 then ''insufficient_quota''
      else if st = 429 then ''rate_limit_exceeded''
      else if st = 502 then ''upstream_error''
      else if st = 503 then ''service_unavailable''
      else ''internal_error'')"

text \<open>An error in ASCII, with the type of its status, sent as JSON.\<close>

definition own_error :: "reply \<Rightarrow> bool" where
  "own_error rp \<longleftrightarrow>
     (case rp_body rp of
        Relayed b \<Rightarrow> True
      | ErrorBody t m \<Rightarrow> ascii t \<and> ascii m \<and> t = error_type (rp_status rp) \<and>
          (''Content-Type'', ''application/json'') \<in> set (rp_headers rp))"

lemma own_WriteError [simp]: "own_error (WriteError hs st t m) \<longleftrightarrow> ascii t \<and> ascii m \<and> t = error_type st"
  by (simp add: WriteError_def own_error_def)

lemma own_relay [simp]: "own_error (relay hs up)"
  by (simp add: relay_def own_error_def)

lemma own_check_request: "check_request maxBody parse r = Inl rp \<Longrightarrow> own_error rp"
  by (auto simp: check_request_def input_message_def error_type_def split: option.splits sum.splits if_splits input_error.splits)

lemma own_check_rate: "check_rate lim now key = (Some rp, lim') \<Longrightarrow> own_error rp"
  by (auto simp: check_rate_def error_type_def split: prod.splits if_splits)

lemma own_check_budget: "check_budget sumf loc now key = Inl rp \<Longrightarrow> own_error rp"
  by (auto simp: check_budget_def error_type_def split: sum.splits if_splits)

lemma own_Embeddings: "own_error (fst (Embeddings h rec w r))"
  by (auto simp: Embeddings_def Let_def error_type_def split: sum.split prod.split option.split
      dest: own_check_request own_check_rate own_check_budget)

lemma own_BearerAuth: "BearerAuth sha256 lookup header = Rejected rp \<Longrightarrow> own_error rp \<and> (\<exists>t m. rp_body rp = ErrorBody t m)"
  by (auto simp: BearerAuth_def Let_def WriteError_def own_error_def error_type_def split: if_splits sum.splits repo_error.splits)

lemma envelope_read_back:
  assumes "ascii t" "ascii m"
  shows "json_parse (body_bytes (ErrorBody t m)) =
    Some (JObj [(''error'', JObj [(''message'', JStr m), (''type'', JStr t)])])"
proof -
  let ?doc = "JObj [(''error'', JObj [(''message'', JStr m), (''type'', JStr t)])]"
  have "wf_json ?doc" using assms ascii_valid by auto
  moreover have "depth ?doc \<le> maxNestingDepth" by (simp add: maxNestingDepth_def)
  ultimately show ?thesis
    unfolding body_bytes_def Encode_def reply_body.case apiError_def
    by (rule json_parse_Marshal) (simp_all add: ends_def is_digit_def skip_ws_def is_ws_def)
qed

text \<open>What a client makes of an error reply.\<close>

definition client_reads :: "reply \<Rightarrow> string \<Rightarrow> string \<Rightarrow> bool" where
  "client_reads rp t m \<longleftrightarrow>
     json_parse (body_bytes (rp_body rp)) =
       Some (JObj [(''error'', JObj [(''message'', JStr m), (''type'', JStr t)])]) \<and>
     t = error_type (rp_status rp) \<and> (''Content-Type'', ''application/json'') \<in> set (rp_headers rp)"

lemma own_client_reads: "own_error rp \<Longrightarrow> rp_body rp = ErrorBody t m \<Longrightarrow> client_reads rp t m"
  using envelope_read_back [of t m] by (auto simp: own_error_def client_reads_def)

section \<open>Numbers in decimal\<close>

lemma decimal_digits: "list_all is_digit (decimal n)"
proof (induction n rule: decimal.induct)
  case (1 n)
  have "is_digit (digit_char k)" if "k < 10" for k
    using that by (simp add: is_digit_def digit_char_def)
  with 1 show ?case by (subst decimal.simps) auto
qed

lemma decimal_lead: "0 < n \<Longrightarrow> hd (decimal n) \<noteq> CHR ''0''"
proof (induction n rule: decimal.induct)
  case (1 n)
  have "digit_char k \<noteq> CHR ''0''" if "0 < k" "k < 10" for k
    using that by (auto simp: digit_char_def dest: arg_cong [of _ _ code])
  with 1 show ?case by (subst decimal.simps) (auto simp: hd_append)
qed

lemma lex_number_Itoa: "0 \<le> n \<Longrightarrow> lex_number (Itoa n) = Some (Itoa n, [])"
proof -
  assume n: "0 \<le> n"
  obtain c cs where d: "decimal (nat n) = c # cs" by (cases "decimal (nat n)") auto
  have dig: "is_digit c" "list_all is_digit cs" using decimal_digits [of "nat n"] by (simp_all add: d)
  have "c = CHR ''0'' \<Longrightarrow> cs = []"
    using decimal_lead [of "nat n"] d by (cases "0 < nat n") (auto simp: decimal.simps [of 0])
  with dig have "lex_int (c # cs) = Some (c # cs, [])" by (auto simp: lex_int_def)
  moreover have "c \<noteq> CHR ''-''" using dig(1) by (auto simp: is_digit_def)
  ultimately show ?thesis using n by (simp add: Itoa_def d lex_number_def lex_unsigned_def lex_frac_def lex_exp_def)
qed

section \<open>Properties\<close>

text \<open>C19: the errors of the embeddings endpoint can be read by the client. Whatever the request, the
  world and the parser, a reply of the proxy handler that is not the upstream's, and every rejection
  of the Bearer authentication, is sent as JSON and parses to an object with the one field
  \<open>error\<close>, whose \<open>message\<close> is the reply's message and whose \<open>type\<close> is the one of its status.\<close>

theorem error_replies_readable:
  "(case rp_body (fst (Embeddings h rec w r)) of
      Relayed b \<Rightarrow> True
    | ErrorBody t m \<Rightarrow> client_reads (fst (Embeddings h rec w r)) t m) \<and>
   (case BearerAuth sha256 lookup header of
      Passed k \<Rightarrow> True
    | Rejected rp \<Rightarrow> (\<exists>t m. rp_body rp = ErrorBody t m \<and> client_reads rp t m))"
proof (rule conjI)
  show "case rp_body (fst (Embeddings h rec w r)) of
      Relayed b \<Rightarrow> True
    | ErrorBody t m \<Rightarrow> client_reads (fst (Embeddings h rec w r)) t m"
    using own_client_reads [OF own_Embeddings [of h rec w r]] by (simp split: reply_body.split)
next
  show "case BearerAuth sha256 lookup header of
      Passed k \<Rightarrow> True
    | Rejected rp \<Rightarrow> (\<exists>t m. rp_body rp = ErrorBody t m \<and> client_reads rp t m)"
    using own_BearerAuth [of sha256 lookup header] own_client_reads by (simp split: auth_result.split) blast
qed

lemma find_skip: "\<forall>x \<in> set xs. \<not> P x \<Longrightarrow> P y \<Longrightarrow> find P (xs @ y # ys) = Some y"
  by (induction xs) auto

lemma unmarshal_input:
  assumes "wf_json doc" "depth doc \<le> maxNestingDepth" "doc = JObj (pre @ (''input'', v) # post)"
    "\<forall>f \<in> set post. \<not> names (fst f) ''input''"
  shows "unmarshal_request (json_parse (Marshal doc)) = Inr (Some v)"
proof -
  have "json_parse (Marshal doc) = Some doc"
    using json_parse_Marshal [OF assms(1,2), of "[]"] by (simp add: ends_def skip_ws_def)
  moreover have "find (\<lambda>f. names (fst f) ''input'') (rev post @ (''input'', v) # rev pre) = Some (''input'', v)"
    using assms(4) by (intro find_skip) (auto simp: names_def)
  ultimately show ?thesis by (simp add: assms(3) unmarshal_request_def)
qed

text \<open>C17: what a client library marshals is counted as what it meant. A body that is the text of an
  object with an \<open>input\<close> field, wherever it stands and whatever else is in the object, passes
  the request checks exactly when the input's OpenAI count is between one and the key's batch
  limit and, where the input is an array, it has at most 100000 elements; and that count is the batch
  size.\<close>

theorem client_text_counted:
  assumes "wf_json doc" and "depth doc \<le> maxNestingDepth" and "doc = JObj (pre @ (''input'', v) # post)"
    and "\<forall>f \<in> set post. \<not> names (fst f) ''input''"
    and "req_body r = Marshal doc" and "req_key r = Some key" and "\<not> req_broken r"
    and "int (length (req_body r)) \<le> maxBody"
  shows "check_request maxBody json_parse r = Inr (key, n) \<longleftrightarrow>
    input_count v = Some n \<and> 1 \<le> n \<and> n \<le> BatchMax key \<and>
    (\<forall>xs. v = JArr xs \<longrightarrow> int (length xs) \<le> maxInputArrayElements)"
proof -
  let ?h = "\<lparr>g_maxBody = maxBody, g_model = [], g_baseURL = [], g_parse = json_parse\<rparr>"
  have "check_request maxBody json_parse r = Inr (key, n) \<longleftrightarrow> well_formed ?h r key n"
    using check_request_Inr [of ?h r key n] by simp
  then show ?thesis
    using unmarshal_input [OF assms(1-4)] assms(5-8) by (simp add: well_formed_def)
qed

lemma depth_JObj_le: "depth (JObj fs) \<le> Suc d \<longleftrightarrow> (\<forall>f \<in> set fs. depth (snd f) \<le> d)"
  by (simp add: max_fold_le)

theorem client_text_counted_witness:
  "let doc = JObj [(''model'', JStr ''bge-m3''), (''input'', JArr [JStr ''a'', JStr ''b'']), (''user'', JNull)] in
   check_request 1000 json_parse \<lparr>req_key = Some (lifetime_key 7), req_path = [], req_body = Marshal doc, req_broken = False\<rparr> =
     Inr (lifetime_key 7, 2)"
proof -
  let ?v = "JArr [JStr ''a'', JStr ''b'']"
  let ?pre = "[(''model'', JStr ''bge-m3'')]" and ?post = "[(''user'', JNull)]"
  let ?doc = "JObj (?pre @ (''input'', ?v) # ?post)"
  let ?r = "\<lparr>req_key = Some (lifetime_key 7), req_path = [], req_body = Marshal ?doc, req_broken = False\<rparr>"
  have wf: "wf_json ?doc" by (simp add: ascii_valid)
  have depth: "depth ?doc \<le> maxNestingDepth" by (simp add: maxNestingDepth_def)
  have post: "\<forall>f \<in> set ?post. \<not> names (fst f) ''input''" by (simp add: names_def fold_char_def)
  have len: "int (length (Marshal ?doc)) \<le> 1000" by code_simp
  show ?thesis
    using client_text_counted [OF wf depth refl post, of ?r "lifetime_key 7" 1000 2] len
    by (simp add: lifetime_key_def sample_key_def maxInputArrayElements_def Let_def)
qed

text \<open>C18: the upstream's answer is billed as it was written. Read back from the bytes of either API's
  answer, with the count anywhere in the object and among any other fields, a positive \<open>int64\<close>
  count comes out as it is; whatever the bytes, the result is an \<open>int64\<close>.\<close>

theorem answer_text_billed:
  assumes "0 < n" and "n \<le> max_i64"
    and "\<forall>f \<in> set xs \<union> set ys. \<not> names (fst f) ''usage'' \<and> \<not> names (fst f) ''prompt_eval_count''"
    and "\<forall>f \<in> set us \<union> set vs. \<not> names (fst f) ''prompt_tokens''"
    and "wf_json (JObj (xs @ ys))" and "wf_json (JObj (us @ vs))"
    and "depth (JObj (xs @ ys)) \<le> maxNestingDepth" and "depth (JObj (us @ vs)) < maxNestingDepth"
  shows "parsePromptTokens (json_parse (Encode (JObj (xs @
      (''usage'', JObj (us @ (''prompt_tokens'', JNum (Itoa n)) # vs)) # ys)))) = n \<and>
    parsePromptTokens (json_parse (Encode (JObj (xs @ (''prompt_eval_count'', JNum (Itoa n)) # ys)))) = n \<and>
    in_i64 (parsePromptTokens (json_parse bytes))"
proof -
  let ?d1 = "JObj (xs @ (''usage'', JObj (us @ (''prompt_tokens'', JNum (Itoa n)) # vs)) # ys)"
  let ?d2 = "JObj (xs @ (''prompt_eval_count'', JNum (Itoa n)) # ys)"
  have lit: "lex_number (Itoa n) = Some (Itoa n, [])" using assms(1) by (simp add: lex_number_Itoa)
  have keys: "valid_utf8 ''usage''" "valid_utf8 ''prompt_tokens''" "valid_utf8 ''prompt_eval_count''"
    by (simp_all add: ascii_valid)
  have wf: "wf_json ?d1" "wf_json ?d2" using assms(5,6) lit keys by simp_all
  have mx: "maxNestingDepth = Suc 9999" by (simp add: maxNestingDepth_def)
  have "depth (JObj (us @ vs)) \<le> Suc 9998" using assms(8) by (simp add: mx del: depth.simps)
  then have inner: "depth (JObj (us @ (''prompt_tokens'', JNum (Itoa n)) # vs)) \<le> Suc 9998"
    unfolding depth_JObj_le by auto
  have le: "depth ?d1 \<le> maxNestingDepth" "depth ?d2 \<le> maxNestingDepth"
    using assms(7) inner [THEN order_trans, of 9999] unfolding mx
    by (simp_all only: depth_JObj_le) (auto simp del: depth.simps(2))
  have nl: "ends [CHR 0x0A]" "skip_ws [CHR 0x0A] = []" by (simp_all add: ends_def is_digit_def skip_ws_def is_ws_def)
  show ?thesis
    unfolding Encode_def json_parse_Marshal [OF wf(1) le(1) nl] json_parse_Marshal [OF wf(2) le(2) nl]
    using prompt_tokens_billed [OF assms(1-4)] by blast
qed

theorem answer_text_billed_witness:
  "parsePromptTokens (json_parse (Encode (JObj [(''object'', JStr ''list''),
     (''usage'', JObj [(''prompt_tokens'', JNum (Itoa 7)), (''total_tokens'', JNum (Itoa 7))])]))) = 7"
proof -
  have nm: "\<not> names ''object'' ''usage''" "\<not> names ''object'' ''prompt_eval_count''"
    "\<not> names ''total_tokens'' ''prompt_tokens''" by (simp_all add: names_def fold_char_def)
  have wf: "wf_json (JObj [(''object'', JStr ''list'')])" "wf_json (JObj [(''total_tokens'', JNum (Itoa 7))])"
    by (simp_all add: ascii_valid lex_number_Itoa)
  show ?thesis
    using answer_text_billed [of 7 "[(''object'', JStr ''list'')]" "[]" "[]" "[(''total_tokens'', JNum (Itoa 7))]"] nm wf
    by (simp add: maxNestingDepth_def)
qed

end
