(* ===== verification/Public.thy ===== *)
theory Public
  imports Plan Wire "HOL-Library.List_Lexorder" "HOL-Library.Char_ord"
begin

text \<open>
  The public site (src/internal/web/landing.go, article.go and discovery.go): the landing page and
  the article as view models, their structured data as JSON, and the files crawlers ask for.
  Turning a view model into HTML is the templates' work, in PublicTemplates.
\<close>

section \<open>The site\<close>

record landing_server =
  L_model :: string
  L_batchMax :: int
  L_ratePerMin :: int
  L_tokenBudget :: int
  L_plan :: plan
  L_contact :: contact

definition NewLanding :: "string \<Rightarrow> int \<Rightarrow> int \<Rightarrow> int \<Rightarrow> plan \<Rightarrow> contact \<Rightarrow> landing_server" where
  "NewLanding model batchMax ratePerMin tokenBudget p c =
     \<lparr>L_model = model, L_batchMax = batchMax, L_ratePerMin = ratePerMin, L_tokenBudget = tokenBudget,
      L_plan = p, L_contact = c\<rparr>"

text \<open>What the pages read of a request: whether it came over TLS, the forwarded protocol, the host.\<close>

record page_request =
  pr_tls :: bool
  pr_forwarded_proto :: string
  pr_host :: string

definition baseURL :: "page_request \<Rightarrow> string" where
  "baseURL r =
     (let scheme = (if pr_tls r then ''https'' else ''http'');
          scheme = (if pr_forwarded_proto r = ''https'' then ''https'' else scheme)
      in scheme @ ''://'' @ pr_host r)"

definition articlePath :: string where
  "articlePath = ''/kada-reikia-embeddingu-api''"

datatype page_id = LandingPage | ArticlePage | RobotsTxt | SitemapXml | LLMsTxt | AssetFile

definition Landing_Handler :: "(path_pattern \<times> page_id) list" where
  "Landing_Handler =
     [(Exact ''/'', LandingPage), (Exact articlePath, ArticlePage), (Exact ''/robots.txt'', RobotsTxt),
      (Exact ''/sitemap.xml'', SitemapXml), (Exact ''/llms.txt'', LLMsTxt), (Under ''/assets/'', AssetFile)]"

fun path_param :: "path_pattern \<Rightarrow> string \<Rightarrow> string" where
  "path_param (Param a b) path = take (length path - length a - length b) (drop (length a) path)"
| "path_param _ path = []"

fun matches :: "path_pattern \<Rightarrow> string \<Rightarrow> bool" where
  "matches (Exact p) path = (path = p)"
| "matches (Under p) path = HasPrefix path p"
| "matches (Param a b) path =
     (let v = path_param (Param a b) path in CHR ''/'' \<notin> set v \<and> path = a @ v @ b)"

section \<open>Structured data\<close>

text \<open>\<open>encoding/json\<close> writes a map in the order of its keys and a struct in the order of its fields.\<close>

definition JMap :: "(string \<times> json) list \<Rightarrow> json" where
  "JMap fs = JObj (sort_key fst fs)"

abbreviation JInt :: "int \<Rightarrow> json" where
  "JInt n \<equiv> JNum (Itoa n)"

definition organizationJSONLD :: "contact \<Rightarrow> json" where
  "organizationJSONLD c =
     JMap [(''@type'', JStr ''Organization''), (''name'', JStr (C_CompanyName c)),
       (''url'', JStr (C_CompanyURL c)), (''email'', JStr (C_Email c)),
       (''contactPoint'',
         JMap [(''@type'', JStr ''ContactPoint''), (''contactType'', JStr ''sales''),
           (''telephone'', JStr (C_Phone c)), (''email'', JStr (C_Email c)),
           (''availableLanguage'', JArr [JStr ''lt'', JStr ''en''])])]"

section \<open>The landing page\<close>

record status_vm =
  S_Code :: string
  S_Meaning :: string
  S_Action :: string
  S_Tone :: string

record landing_vm =
  LV_Model :: string
  LV_BaseURL :: string
  LV_BatchMax :: string
  LV_RatePerMin :: string
  LV_TokenBudget :: string
  LV_RatePhrase :: string
  LV_BatchPhrase :: string
  LV_AdminPath :: string
  LV_Contact :: contact
  LV_Plan :: plan
  LV_Statuses :: "status_vm list"
  LV_JSONLD :: string

definition landing_statuses :: "status_vm list" where
  "landing_statuses =
     [\<lparr>S_Code = ''200'', S_Meaning = lt ''Vektoriai gr~a~zinti'',
       S_Action = lt ''~m'', S_Tone = ''ok''\<rparr>,
      \<lparr>S_Code = ''400'', S_Meaning = lt ''Netaisyklingas JSON arba per daug tekst~u viename pakete'',
       S_Action = lt ''Pataisykite u~zklaus~a'', S_Tone = ''bad''\<rparr>,
      \<lparr>S_Code = ''401'', S_Meaning = lt ''Rakto n~hra, jis neteisingas arba at~sauktas'',
       S_Action = lt ''Patikrinkite rakt~a'', S_Tone = ''bad''\<rparr>,
      \<lparr>S_Code = ''402'', S_Meaning = lt ''Token~u biud~zetas i~snaudotas'',
       S_Action = lt ''Palaukite m~hnesio atnaujinimo arba papra~sykite papildyti'', S_Tone = ''warn''\<rparr>,
      \<lparr>S_Code = ''429'', S_Meaning = lt ''Per daug u~zklaus~u per minut~e'',
       S_Action = lt ''Kartokite po Retry-After antra~st~hje nurodyto laiko'', S_Tone = ''warn''\<rparr>,
      \<lparr>S_Code = ''502'', S_Meaning = lt ''Embedding~u serveris nepasiekiamas'',
       S_Action = ''Pakartokite netrukus'', S_Tone = ''bad''\<rparr>,
      \<lparr>S_Code = ''503'', S_Meaning = lt ''U~zklausa nutraukta belaukiant eil~hje'',
       S_Action = ''Pakartokite'', S_Tone = ''warn''\<rparr>]"

definition priceSpec :: "plan \<Rightarrow> json" where
  "priceSpec p =
     JMap [(''@type'', JStr ''UnitPriceSpecification''), (''price'', JInt (PL_PriceEUR p)),
       (''priceCurrency'', JStr ''EUR''), (''valueAddedTaxIncluded'', JBool False),
       (''referenceQuantity'',
         JMap [(''@type'', JStr ''QuantitativeValue''), (''value'', JInt 1), (''unitCode'', JStr ''MON'')])]"

definition landing_graph :: "landing_vm \<Rightarrow> json" where
  "landing_graph vm =
     (let provider = organizationJSONLD (LV_Contact vm);
          service = JMap [(''@type'', JStr ''Service''), (''name'', JStr ''ragembed''),
            (''serviceType'', JStr (lt ''Embedding~u (vektorizavimo) API'')), (''url'', JStr (LV_BaseURL vm @ ''/'')),
            (''provider'', provider),
            (''areaServed'', JMap [(''@type'', JStr ''Country''), (''name'', JStr ''Lietuva'')]),
            (''description'', JStr (lt ''Su OpenAI suderinamas embedding~u API, paremtas '' @ LV_Model vm @
              lt '' modeliu ir veikiantis operatoriaus infrastrukt~wroje.'')),
            (''offers'',
              JMap [(''@type'', JStr ''Offer''), (''price'', JInt (PL_PriceEUR (LV_Plan vm))),
                (''priceCurrency'', JStr ''EUR''), (''url'', JStr (LV_BaseURL vm @ ''/#kaina'')),
                (''availability'', JStr ''https://schema.org/InStock''), (''priceSpecification'', priceSpec (LV_Plan vm))])]
      in JMap [(''@context'', JStr ''https://schema.org''), (''@graph'', JArr [service, provider])])"

definition landingJSONLD :: "landing_vm \<Rightarrow> string" where
  "landingJSONLD vm = Marshal (landing_graph vm)"

definition build :: "(int \<Rightarrow> string) \<Rightarrow> landing_server \<Rightarrow> page_request \<Rightarrow> landing_vm" where
  "build comma s r =
     (let vm = \<lparr>LV_Model = L_model s, LV_BaseURL = baseURL r, LV_BatchMax = Itoa (L_batchMax s),
                LV_RatePerMin = Itoa (L_ratePerMin s), LV_TokenBudget = tokenBudgetLabel comma (L_tokenBudget s),
                LV_RatePhrase = ratePhrase (L_ratePerMin s), LV_BatchPhrase = batchPhrase (L_batchMax s),
                LV_AdminPath = BasePath, LV_Contact = L_contact s, LV_Plan = L_plan s,
                LV_Statuses = landing_statuses, LV_JSONLD = ''''\<rparr>
      in vm\<lparr>LV_JSONLD := landingJSONLD vm\<rparr>)"

section \<open>The article\<close>

definition articleHeadline :: string where
  "articleHeadline = lt ''Kada j~ws~u ~imonei reikia embedding~u API (ir kada nereikia)''"

record faq_item =
  FQ_Q :: string
  FQ_A :: string

record article_vm =
  AV_Model :: string
  AV_BaseURL :: string
  AV_CanonicalURL :: string
  AV_Contact :: contact
  AV_BatchMax :: string
  AV_Plan :: plan
  AV_FAQ :: "faq_item list"
  AV_JSONLD :: string

definition articleFAQ :: "string \<Rightarrow> plan \<Rightarrow> faq_item list" where
  "articleFAQ model plan =
     [\<lparr>FQ_Q = lt ''Kas yra embeddingai paprastais ~zod~ziais?'',
       FQ_A = lt ''Embeddingas yra teksto reik~sm~hs atvaizdavimas skai~ci~u eilute. Pana~sios reik~sm~hs '' @
              lt ''tekstai gauna pana~sias eilutes, tod~hl kompiuteris gali surasti ~lapie t~a pat~i~r '' @
              lt ''para~sytus dokumentus net tada, kai juose n~hra n~h vieno bendro ~zod~zio.''\<rparr>,
      \<lparr>FQ_Q = lt ''Kuo embedding~u paie~ska skiriasi nuo ~iprastos paie~skos pagal rakta~zod~zius?'',
       FQ_A = lt ''Rakta~zod~zi~u paie~ska ie~sko sutampan~ci~u simboli~u eilu~ci~u: ne~ira~sius teisingo ~zod~zio, '' @
              lt ''dokumentas nerandamas. Embedding~u paie~ska lygina reik~sm~e, tod~hl ~lkiek kainuoja '' @
              lt ''pristatymas~r randa dokument~a, kuriame para~syta ~lsiuntimo ~ikainiai~r. Praktikoje '' @
              ''geriausiai veikia abu metodai kartu.''\<rparr>,
      \<lparr>FQ_Q = lt ''Ar galiu si~usti ~imon~hs dokumentus ~i OpenAI ar kit~a debesijos paslaug~a?'',
       FQ_A = lt ''Teisi~skai tai duomen~u perdavimas tre~ciajai ~saliai, tod~hl reikia teisinio pagrindo, '' @
              lt ''sutarties su tvarkytoju ir ai~skumo, kur duomenys apdorojami. Jei dokumentuose yra '' @
              lt ''asmens ar komercin~hs paslapties duomen~u, papras~ciausias sprendimas da~znai yra '' @
              lt ''nei~sleisti j~u i~s savo infrastrukt~wros: tada perdavimo klausimo apskritai nelieka.''\<rparr>,
      \<lparr>FQ_Q = lt ''Ar embeddingai veikia su lietuvi~u kalba?'',
       FQ_A = model @
              lt '' yra daugiakalbis modelis ir lietuvi~skus tekstus apdoroja tiesiogiai, be '' @
              lt ''vertimo ~i angl~u kalb~a. Tai svarbu, nes vertimas prie~s vektorizavim~a praranda '' @
              lt ''dal~i reik~sm~hs ir prideda dar vien~a klaid~u ~saltin~i.''\<rparr>,
      \<lparr>FQ_Q = ''Kiek kainuoja embeddingai?'',
       FQ_A = lt ''Debesijos paslaugos ima mokest~i u~z kiekvien~a apdorot~a token~a, tod~hl kaina auga kartu '' @
              lt ''su duomen~u kiekiu ir su kiekvienu pakartotiniu indeksavimu. Savame serveryje '' @
              lt ''mokate u~z technik~a ir jos prie~zi~wr~a, o u~zklaus~u kiekis kainos nekei~cia. L~w~zio '' @
              lt ''ta~skas priklauso nuo to, kiek ir kaip da~znai perindeksuojate. ~Sios paslaugos '' @
              ''kaina yra '' @
              priceSentence plan @
              lt '', be mokes~cio u~z token~a.''\<rparr>,
      \<lparr>FQ_Q = lt ''Kada embedding~u nereikia?'',
       FQ_A = lt ''Kai dokument~u nedaug ir jie gerai randami pagal pavadinim~a ar rakta~zod~i; kai '' @
              lt ''reikia tikslaus atitikmens (s~askaitos numeris, asmens kodas); ir kai problema i~s '' @
              lt ''tikr~uj~u yra netvarkingi duomenys, o ne paie~ska. Tokiais atvejais embeddingai '' @
              lt ''prideda sud~htingumo, bet neduoda naudos.''\<rparr>,
      \<lparr>FQ_Q = lt ''K~a rei~skia RAG?'',
       FQ_A = lt ''RAG (retrieval-augmented generation) yra b~wdas kalbos modeliui atsakyti remiantis '' @
              lt ''j~ws~u dokumentais: pirma embedding~u pagalba surandamos tinkamos teksto atkarpos, '' @
              lt ''paskui jos paduodamos modeliui kaip kontekstas. Embeddingai yra pirmoji ~sios '' @
              lt ''grandin~hs dalis ir da~zniausiai nuo j~u priklauso, ar atsakymas bus teisingas.''\<rparr>]"

definition thing :: "string \<Rightarrow> json" where
  "thing name = JObj [(''@type'', JStr ''Thing''), (''name'', JStr name)]"

definition question :: "faq_item \<Rightarrow> json" where
  "question item =
     JObj [(''@type'', JStr ''Question''), (''name'', JStr (FQ_Q item)),
       (''acceptedAnswer'', JObj [(''@type'', JStr ''Answer''), (''text'', JStr (FQ_A item))])]"

definition article_graph :: "article_vm \<Rightarrow> json" where
  "article_graph vm =
     (let publisher = organizationJSONLD (AV_Contact vm);
          article = JMap [(''@type'', JStr ''TechArticle''), (''publisher'', publisher),
            (''headline'', JStr articleHeadline), (''inLanguage'', JStr ''lt''),
            (''mainEntityOfPage'', JStr (AV_CanonicalURL vm)),
            (''description'', JStr (lt ''Kas yra embeddingai, kada j~u verta imtis, kada ne, k~a daryti su '' @
              ''asmens duomenimis pagal BDAR ir kiek tai kainuoja.'')),
            (''about'', JArr [thing ''Embeddingai'', thing (lt ''Semantin~h paie~ska''), thing ''RAG''])];
          faq = JMap [(''@type'', JStr ''FAQPage''), (''inLanguage'', JStr ''lt''),
            (''mainEntity'', JArr (map question (AV_FAQ vm)))]
      in JMap [(''@context'', JStr ''https://schema.org''), (''@graph'', JArr [article, faq, publisher])])"

definition articleJSONLD :: "article_vm \<Rightarrow> string" where
  "articleJSONLD vm = Marshal (article_graph vm)"

definition buildArticle :: "landing_server \<Rightarrow> page_request \<Rightarrow> article_vm" where
  "buildArticle s r =
     (let base = baseURL r;
          vm = \<lparr>AV_Model = L_model s, AV_BaseURL = base, AV_CanonicalURL = base @ articlePath,
                AV_Contact = L_contact s, AV_BatchMax = Itoa (L_batchMax s), AV_Plan = L_plan s,
                AV_FAQ = articleFAQ (L_model s) (L_plan s), AV_JSONLD = ''''\<rparr>
      in vm\<lparr>AV_JSONLD := articleJSONLD vm\<rparr>)"

section \<open>The crawlers' files\<close>

definition plain_text :: string where
  "plain_text = ''text/plain; charset=utf-8''"

definition text_page :: "string \<Rightarrow> string \<Rightarrow> text_reply" where
  "text_page ct body = \<lparr>tr_status = 200, tr_headers = [(''Content-Type'', ct)], tr_text = body\<rparr>"

definition handleRobots :: "page_request \<Rightarrow> text_reply" where
  "handleRobots r =
     text_page plain_text (lt ''User-agent: *~nAllow: /$~nAllow: '' @ articlePath @ lt ''~nDisallow: '' @ BasePath @
       lt ''~nDisallow: /v1/~nDisallow: /api/~n~nSitemap: '' @ baseURL r @ lt ''/sitemap.xml~n'')"

definition handleSitemap :: "page_request \<Rightarrow> text_reply" where
  "handleSitemap r =
     text_page ''application/xml; charset=utf-8''
       (lt ''<?xml version=~q1.0~q encoding=~qUTF-8~q?>~n'' @
        lt ''<urlset xmlns=~qhttp://www.sitemaps.org/schemas/sitemap/0.9~q>~n'' @
        lt ''  <url>~n    <loc>'' @ baseURL r @ lt ''/</loc>~n    <changefreq>monthly</changefreq>~n'' @
        lt ''    <priority>1.0</priority>~n  </url>~n'' @
        lt ''  <url>~n    <loc>'' @ baseURL r @ articlePath @ lt ''</loc>~n    <changefreq>yearly</changefreq>~n'' @
        lt ''    <priority>0.8</priority>~n  </url>~n</urlset>~n'')"

definition handleLLMs :: "(int \<Rightarrow> string) \<Rightarrow> landing_server \<Rightarrow> page_request \<Rightarrow> text_reply" where
  "handleLLMs comma s r =
     (let base = baseURL r in text_page plain_text (
      lt ''# ragembed~n~n'' @
      lt ''> Su OpenAI suderinamas embedding~u (vektorizavimo) API, paremtas '' @
      L_model s @
      lt '' modeliu ir veikiantis operatoriaus infrastrukt~wroje. Skirtas semantinei paie~skai ir RAG '' @
      lt ''sprendimams, kuriuose tekstai neturi i~seiti pas tre~ci~asias ~salis.~n~n'' @
      lt ''## K~a daro~n~n'' @
      lt ''- Priima tekst~a per `POST /v1/embeddings` (OpenAI formatas) arba `POST /api/embed` (Ollama formatas).~n'' @
      lt ''- Vienoje u~zklausoje apdoroja iki '' @
      Itoa (L_batchMax s) @
      lt '' tekst~u; vektoriai gr~a~zinami ta pa~cia tvarka.~n'' @
      lt ''- Daugiakalbis modelis: lietuvi~u kalba apdorojama tiesiogiai, be vertimo.~n'' @
      lt ''- Kiekvienas raktas turi savo paketo, da~znio ir token~u biud~zeto limitus.~n'' @
      lt ''- U~zklausos esant apkrovai rikiuojamos ~i prioritetin~e eil~e, o ne atmetamos.~n~n'' @
      lt ''## Kiek kainuoja~n~n'' @
      ''- Vienas planas: '' @
      priceSentence (L_plan s) @
      lt ''.~n'' @
      lt ''- Mokes~cio u~z apdorot~a token~a n~hra; perindeksavimas s~askaitos nekei~cia.~n'' @
      lt ''- ~I kain~a ~ieina: tokenai ~m '' @
      tokenBudgetLabel comma (L_tokenBudget s) @
      '', '' @
      ratePhrase (L_ratePerMin s) @
      '', '' @
      batchPhrase (L_batchMax s) @
      lt ''.~n~n'' @
      lt ''## Ko nedaro~n~n'' @
      lt ''- Negeneruoja teksto ir neatsakin~hja ~i klausimus ~m tik ver~cia tekst~a ~i vektorius.~n'' @
      lt ''- Nesaugo j~ws~u tekst~u: apskaitomi tik token~u kiekiai pagal rakt~a.~n'' @
      lt ''- N~hra savitarnos registracijos; raktus i~sduoda operatorius.~n~n'' @
      lt ''## Nuorodos~n~n'' @
      lt ''- [Technin~h dokumentacija]('' @
      base @
      lt ''/): adresai, curl pavyzd~ziai, atsakym~u kodai, limitai.~n'' @
      lt ''- [Kada reikia embedding~u API]('' @
      base @
      articlePath @
      lt ''): kada ~sis sprendimas tinka, kada ne, BDAR ir kaina.~n'' @
      lt ''- Kontaktas d~hl rakto: '' @
      C_Email (L_contact s) @
      '', '' @
      C_PhoneLabel (L_contact s) @
      lt ''~n'' @
      ''- Operatorius: '' @
      C_CompanyName (L_contact s) @
      '' ('' @
      C_CompanyURL (L_contact s) @
      lt '')~n''))"

section \<open>Nothing closes the script element\<close>

definition inert :: "string \<Rightarrow> bool" where
  "inert = list_all (\<lambda>c. c \<noteq> CHR ''<'' \<and> c \<noteq> CHR ''>'' \<and> c \<noteq> CHR ''&'')"

lemma inert_simps [simp]:
  "inert []" "inert (c # s) \<longleftrightarrow> c \<noteq> CHR ''<'' \<and> c \<noteq> CHR ''>'' \<and> c \<noteq> CHR ''&'' \<and> inert s"
  "inert (s @ t) \<longleftrightarrow> inert s \<and> inert t"
  by (auto simp: inert_def)

lemma inert_high: "\<forall>c \<in> set s. 0x80 \<le> code c \<Longrightarrow> inert s"
  by (auto simp: inert_def list_all_iff)

lemma hex_char_inert: "n < 16 \<Longrightarrow> inert [hex_char n]"
proof -
  assume "n < 16"
  then have "code (hex_char n) = (if n < 10 then 48 + n else 87 + n)" by (auto simp: hex_char_def)
  with \<open>n < 16\<close> show ?thesis by (auto split: if_splits)
qed

lemma escape_ascii_inert: "code c < 0x80 \<Longrightarrow> inert (escape_ascii c)"
  using hex_char_inert [of "code c div 16"] hex_char_inert [of "code c mod 16"]
  by (auto simp: escape_ascii_def)

lemma rune_high: "rune b \<Longrightarrow> length b \<noteq> 1 \<Longrightarrow> \<forall>c \<in> set b. 0x80 \<le> code c"
proof -
  assume r: "rune b" "length b \<noteq> 1"
  then obtain c u where b: "b = c # u" by (cases b) (auto simp: rune_def)
  with r have k: "lead_width (code c) = length b" "\<not> length b \<le> 1" "list_all continuation (take (length b - 1) u)"
    by (auto simp: rune_def utf8_width_def Let_def split: if_splits)
  then have "0x80 \<le> code c" by (auto simp: lead_width_def b split: if_splits)
  with k(3) show ?thesis by (auto simp: b list_all_iff between_def)
qed

lemma escape_rune_inert: "rune b \<Longrightarrow> inert (escape_rune b)"
proof (cases "length b = 1")
  case True
  assume "rune b"
  with True have "code (hd b) < 0x80" by (cases b) (auto simp: rune_def utf8_width_def lead_width_def Let_def split: if_splits)
  with True show ?thesis by (simp add: escape_rune_def escape_ascii_inert)
next
  case False
  assume "rune b"
  with False show ?thesis using inert_high [OF rune_high] by (simp add: escape_rune_def)
qed

lemma escape_inert: "inert (escape s)"
proof (induction s rule: escape.induct)
  case (1 s)
  show ?case
  proof (cases s)
    case (Cons c r)
    show ?thesis
    proof (cases "utf8_width s = 0")
      case True
      with 1(1) [OF Cons] show ?thesis by (subst escape.simps) (simp add: Cons)
    next
      case False
      have "escape s = escape_rune (take (utf8_width s) s) @ escape (drop (utf8_width s) s)"
        using False by (subst escape.simps) (simp add: Cons)
      with 1(2) [OF Cons False] escape_rune_inert [OF rune_prefix] False show ?thesis by simp
    qed
  qed (simp add: escape.simps)
qed

fun plain_numbers :: "json \<Rightarrow> bool" where
  "plain_numbers (JNum l) = inert l"
| "plain_numbers (JArr vs) = list_all plain_numbers vs"
| "plain_numbers (JObj fs) = list_all (\<lambda>f. plain_numbers (snd f)) fs"
| "plain_numbers _ = True"

lemma commas_inert: "list_all inert xs \<Longrightarrow> inert (commas xs)"
  by (induction xs rule: commas.induct) auto

lemma quote_inert: "inert (quote s)"
  by (simp add: quote_def escape_inert)

lemma Marshal_inert: "plain_numbers v \<Longrightarrow> inert (Marshal v)"
proof (induction v rule: Marshal.induct)
  case (5 vs)
  then show ?case by (auto simp: list_all_iff intro!: commas_inert)
next
  case (6 fs)
  then show ?case by (auto simp: list_all_iff quote_inert intro!: commas_inert)
qed (auto simp: quote_inert)

lemma Itoa_inert: "inert (Itoa n)"
proof -
  have "inert (decimal m)" for m
    using decimal_chars [of m] by (auto simp: inert_def list_all_iff is_digit_def)
  then show ?thesis by (simp add: Itoa_def)
qed

lemma plain_JMap [simp]: "plain_numbers (JMap fs) \<longleftrightarrow> list_all (\<lambda>f. plain_numbers (snd f)) fs"
  by (simp add: JMap_def list_all_iff)

lemma page_json_inert:
  "inert (landingJSONLD vm)" "inert (articleJSONLD avm)"
proof -
  have org: "plain_numbers (organizationJSONLD c)" for c by (simp add: organizationJSONLD_def)
  have "plain_numbers (landing_graph vm)"
    by (simp add: landing_graph_def priceSpec_def Let_def org Itoa_inert)
  moreover have "plain_numbers (article_graph avm)"
    by (simp add: article_graph_def thing_def question_def Let_def org list_all_iff)
  ultimately show "inert (landingJSONLD vm)" "inert (articleJSONLD avm)"
    by (simp_all add: landingJSONLD_def articleJSONLD_def Marshal_inert)
qed

text \<open>Structured data cannot break out of the page. Whatever host a visitor sends, whatever the
  model and the contact details are, neither page's JSON contains an angle bracket or an
  ampersand, so that no value can close the script element it stands in.\<close>

theorem structured_data_inert:
  "set (LV_JSONLD (build comma s r)) \<inter> {CHR ''<'', CHR ''>'', CHR ''&''} = {} \<and>
   set (AV_JSONLD (buildArticle s r)) \<inter> {CHR ''<'', CHR ''>'', CHR ''&''} = {}"
proof -
  have "inert (LV_JSONLD (build comma s r))" "inert (AV_JSONLD (buildArticle s r))"
    by (simp_all add: build_def buildArticle_def Let_def page_json_inert)
  then show ?thesis by (auto simp: inert_def list_all_iff)
qed

section \<open>What the structured data says\<close>

lemma wf_JMap [simp]: "wf_json (JMap fs) \<longleftrightarrow> list_all (\<lambda>f. valid_utf8 (fst f) \<and> wf_json (snd f)) fs"
  by (simp add: JMap_def list_all_iff)

lemma depth_JMap: "depth (JMap fs) \<le> Suc d \<longleftrightarrow> list_all (\<lambda>f. depth (snd f) \<le> d) fs"
  by (simp add: JMap_def max_fold_le list_all_iff)

lemma depth_JArr: "depth (JArr vs) \<le> Suc d \<longleftrightarrow> list_all (\<lambda>v. depth v \<le> d) vs"
  by (simp add: max_fold_le list_all_iff)

lemma map_of_insort: "map_of (insort_key fst f fs) k = (if fst f = k then Some (snd f) else map_of fs k)"
  by (induction fs) (auto simp: map_of_Cons_code)

lemma map_of_sort_key: "map_of (sort_key fst fs) k = map_of fs k"
  by (induction fs) (auto simp: map_of_insort)

text \<open>Reading a document the way a consumer of the structured data does.\<close>

fun field :: "string \<Rightarrow> json \<Rightarrow> json option" where
  "field k (JObj fs) = map_of fs k"
| "field k _ = None"

fun item :: "nat \<Rightarrow> json \<Rightarrow> json option" where
  "item n (JArr vs) = (if n < length vs then Some (vs ! n) else None)"
| "item n _ = None"

lemma field_JMap [simp]: "field k (JMap fs) = map_of fs k"
  by (simp add: JMap_def map_of_sort_key)

definition offer :: "json \<Rightarrow> json option" where
  "offer doc = Option.bind (field ''@graph'' doc) (\<lambda>g. Option.bind (item 0 g) (field ''offers''))"

definition valid_contact :: "contact \<Rightarrow> bool" where
  "valid_contact c \<longleftrightarrow> valid_utf8 (C_Email c) \<and> valid_utf8 (C_Phone c) \<and> valid_utf8 (C_CompanyURL c) \<and>
     valid_utf8 (C_CompanyName c)"

lemma landing_graph_wf:
  assumes "valid_utf8 (LV_Model vm)" "valid_utf8 (LV_BaseURL vm)" "valid_contact (LV_Contact vm)"
    "0 \<le> PL_PriceEUR (LV_Plan vm)"
  shows "wf_json (landing_graph vm)" "depth (landing_graph vm) \<le> maxNestingDepth"
proof -
  have org: "wf_json (organizationJSONLD (LV_Contact vm))"
    using assms(3) by (simp add: organizationJSONLD_def valid_contact_def ascii_valid)
  have price: "wf_json (priceSpec (LV_Plan vm))"
    using assms(4) by (simp add: priceSpec_def ascii_valid lex_number_Itoa)
  show "wf_json (landing_graph vm)"
    using assms org price
    by (simp add: landing_graph_def Let_def ascii_valid valid_append valid_lt lex_number_Itoa del: lt.simps)
  have mono: "depth v \<le> n \<Longrightarrow> depth v \<le> Suc n" for v n by simp
  have o: "depth (organizationJSONLD (LV_Contact vm)) \<le> Suc (Suc (Suc 0))"
    by (simp add: organizationJSONLD_def depth_JMap)
  have p: "depth (priceSpec (LV_Plan vm)) \<le> Suc (Suc 0)" by (simp add: priceSpec_def depth_JMap)
  have "depth (landing_graph vm) \<le> Suc (Suc (Suc (Suc (Suc (Suc 0)))))"
    unfolding landing_graph_def Let_def using o p mono [OF o]
    by (simp only: depth_JMap depth_JArr list.pred_inject snd_conv)
      (simp add: depth_JMap)?
  then show "depth (landing_graph vm) \<le> maxNestingDepth" by (simp add: maxNestingDepth_def)
qed

lemma map_of_simp: "map_of ((k, v) # fs) k' = (if k = k' then Some v else map_of fs k')"
  by simp

text \<open>What the landing page's structured data parses to.\<close>

lemma landing_json_read:
  assumes "L_plan s = NewPlan price vat" "0 \<le> price" "valid_utf8 (L_model s)"
    "valid_contact (L_contact s)" "valid_utf8 (pr_host r)" "vm = build comma s r"
  shows "json_parse (LV_JSONLD vm) = Some (landing_graph vm)"
proof -
  have json: "LV_JSONLD vm = Marshal (landing_graph vm)"
    by (simp add: assms(6) build_def Let_def landingJSONLD_def landing_graph_def)
  have "valid_utf8 (baseURL r)" using assms(5) by (simp add: baseURL_def Let_def valid_ascii_Cons)
  then have "valid_utf8 (LV_Model vm)" "valid_utf8 (LV_BaseURL vm)" "valid_contact (LV_Contact vm)" "0 \<le> PL_PriceEUR (LV_Plan vm)"
    using assms(1-4) by (simp_all add: assms(6) build_def Let_def NewPlan_def)
  note wf = landing_graph_wf [OF this]
  show ?thesis using json_parse_Marshal [OF wf, of "[]"] by (simp add: json ends_def skip_ws_def)
qed

definition demo_site :: landing_server where
  "demo_site = NewLanding ''bge-m3'' 25 100 (-1) (NewPlan 50 21)
     (NewContact (\<lambda>u. Some (''https'', ''www.letas.lt'')) ''info@ituoga.lt'' ''+37063594444'' ''https://letas.lt'')"

lemma demo_site_valid:
  "L_plan demo_site = NewPlan 50 21" "valid_utf8 (L_model demo_site)" "valid_contact (L_contact demo_site)"
  by (simp_all add: demo_site_def NewLanding_def NewContact_def valid_contact_def hostOf_def groupPhone_def
      HasPrefix_def TrimPrefix_def ascii_valid)

section \<open>The published contract\<close>

lemma check_request_status: "check_request maxBody parse r = Inl rp \<Longrightarrow> rp_status rp \<in> {400, 401, 413}"
  by (auto simp: check_request_def WriteError_def split: option.splits sum.splits if_splits)

lemma check_rate_status: "check_rate lim now key = (Some rp, lim') \<Longrightarrow> rp_status rp = 429"
  by (auto simp: check_rate_def WriteError_def split: prod.splits if_splits)

lemma check_budget_status: "check_budget sumf loc now key = Inl rp \<Longrightarrow> rp_status rp \<in> {500, 402}"
  by (auto simp: check_budget_def WriteError_def split: sum.splits if_splits)

lemma Embeddings_status:
  "case rp_body (fst (Embeddings h rec w r)) of
     Relayed b \<Rightarrow> True
   | ErrorBody t m \<Rightarrow> rp_status (fst (Embeddings h rec w r)) \<in> {400, 401, 402, 413, 429, 500, 502, 503}"
  by (auto simp: Embeddings_def Let_def WriteError_def relay_def split: sum.split prod.split option.split reply_body.split
      dest!: check_request_status check_rate_status check_budget_status)

lemma BearerAuth_status: "BearerAuth sha256 lookup header = Rejected rp \<Longrightarrow> rp_status rp \<in> {401, 500}"
  by (auto simp: BearerAuth_def Let_def WriteError_def split: if_splits sum.splits repo_error.splits)

text \<open>The statuses of the errors the proxy handler answers itself, with some configuration, world and
  request, and of the rejections of the Bearer authentication in front of it.\<close>

definition handler_errors :: "('db \<Rightarrow> event \<Rightarrow> repo_error option \<times> 'db) \<Rightarrow> int set" where
  "handler_errors rec =
     {st. \<exists>h w r t m. rp_body (fst (Embeddings h rec w r)) = ErrorBody t m \<and> rp_status (fst (Embeddings h rec w r)) = st}"

definition bearer_errors :: "int set" where
  "bearer_errors = {st. \<exists>sha256 lookup header rp. BearerAuth sha256 lookup header = Rejected rp \<and> rp_status rp = st}"

lemma handler_errors_among: "handler_errors rec \<subseteq> {400, 401, 402, 413, 429, 500, 502, 503}"
proof
  fix st assume "st \<in> handler_errors rec"
  then obtain h w r t m where "rp_body (fst (Embeddings h rec w r)) = ErrorBody t m"
    "rp_status (fst (Embeddings h rec w r)) = st" unfolding handler_errors_def by blast
  with Embeddings_status [of h rec w r] show "st \<in> {400, 401, 402, 413, 429, 500, 502, 503}" by simp
qed

lemma bearer_errors_among: "bearer_errors \<subseteq> {401, 500}"
  unfolding bearer_errors_def using BearerAuth_status by blast

text \<open>A world whose backend is down, and a key; each error status occurs in a variation of them.\<close>

definition backend_down :: "'db world" where
  "backend_down = \<lparr>w_limiter = Map.empty, w_allow_now = 200, w_sum = (\<lambda>k a b. Inr 10), w_zone = UTC,
     w_status_now = 200, w_admitted = True, w_client = (\<lambda>url body. Inl UpstreamCall), w_event_now = 200,
     w_db = undefined\<rparr>"

lemma handler_errors_occur: "{400, 401, 402, 413, 429, 500, 502, 503} \<subseteq> handler_errors rec"
proof -
  let ?k = "lifetime_key 100" and ?e = "\<lambda>w r. fst (Embeddings demo_gateway rec w r)"
  have occurs: "case rp_body (?e w r) of ErrorBody t m \<Rightarrow> rp_status (?e w r) = st | Relayed b \<Rightarrow> False \<Longrightarrow>
      st \<in> handler_errors rec" for w r st
    unfolding handler_errors_def by (cases "rp_body (?e w r)") (simp_all, blast)
  have s400: "400 \<in> handler_errors rec" by (rule occurs [of "backend_down" "(demo_request ?k)\<lparr>req_body := ''''\<rparr>"]) code_simp
  have s401: "401 \<in> handler_errors rec" by (rule occurs [of "backend_down" "(demo_request ?k)\<lparr>req_key := None\<rparr>"]) code_simp
  have s402: "402 \<in> handler_errors rec" by (rule occurs [of "backend_down\<lparr>w_sum := \<lambda>k a b. Inr 100\<rparr>" "demo_request ?k"]) code_simp
  have s413: "413 \<in> handler_errors rec" by (rule occurs [of "backend_down" "(demo_request ?k)\<lparr>req_broken := True\<rparr>"]) code_simp
  have s429: "429 \<in> handler_errors rec" by (rule occurs [of "backend_down" "demo_request (?k\<lparr>RatePerMin := 0\<rparr>)"]) code_simp
  have s500: "500 \<in> handler_errors rec" by (rule occurs [of "backend_down\<lparr>w_sum := \<lambda>k a b. Inl ErrNotFound\<rparr>" "demo_request ?k"]) code_simp
  have s502: "502 \<in> handler_errors rec" by (rule occurs [of "backend_down" "demo_request ?k"]) code_simp
  have s503: "503 \<in> handler_errors rec" by (rule occurs [of "backend_down\<lparr>w_admitted := False\<rparr>" "demo_request ?k"]) code_simp
  show ?thesis using s400 s401 s402 s413 s429 s500 s502 s503 by simp
qed

lemma bearer_errors_occur: "{401, 500} \<subseteq> bearer_errors"
proof -
  have "case BearerAuth id (\<lambda>hash. Inl ErrNotFound) '''' of Rejected rp \<Rightarrow> rp_status rp = 401 | Passed k \<Rightarrow> False"
    "case BearerAuth id (\<lambda>hash. Inl (RepoError ''find'' (DriverError ''down''))) ''Bearer sk'' of Rejected rp \<Rightarrow> rp_status rp = 500 | Passed k \<Rightarrow> False"
    by code_simp+
  then show ?thesis unfolding bearer_errors_def by (auto split: auth_result.splits)
qed

definition documented :: "int \<Rightarrow> bool" where
  "documented st \<longleftrightarrow> Itoa st \<in> set (map S_Code landing_statuses)"

lemma codes: "map S_Code landing_statuses = [''200'', ''400'', ''401'', ''402'', ''429'', ''502'', ''503'']"
  by (simp add: landing_statuses_def)

lemma printed: "Itoa 200 = ''200''" "Itoa 400 = ''400''" "Itoa 401 = ''401''" "Itoa 402 = ''402''" "Itoa 413 = ''413''"
  "Itoa 429 = ''429''" "Itoa 500 = ''500''" "Itoa 502 = ''502''" "Itoa 503 = ''503''"
  by code_simp+

lemma documented_table:
  "documented 200" "documented 400" "documented 401" "documented 402" "\<not> documented 413" "documented 429"
  "\<not> documented 500" "documented 502" "documented 503"
  unfolding documented_def codes printed by simp_all

lemma documented_codes: "documented st \<longleftrightarrow> st \<in> {200, 400, 401, 402, 429, 502, 503}"
proof
  assume "documented st"
  then have "Itoa st \<in> {Itoa 200, Itoa 400, Itoa 401, Itoa 402, Itoa 429, Itoa 502, Itoa 503}"
    unfolding documented_def codes printed by simp
  then show "st \<in> {200, 400, 401, 402, 429, 502, 503}" by (simp add: Itoa_inj)
qed (auto simp: documented_table)

text \<open>C40: the published contract against the code. The errors the embeddings handler answers itself
  have exactly the error statuses of the landing page's table and two more, and each of them does
  occur; the rejections of the Bearer authentication have the statuses 401 and 500. The table leaves
  out the two: 413 for a body too large, and 500 when a key or its spend cannot be read.\<close>

theorem published_statuses:
  "handler_errors rec = {st. documented st \<and> st \<noteq> 200} \<union> {413, 500} \<and> bearer_errors = {401, 500} \<and>
   documented 401 \<and> \<not> documented 413 \<and> \<not> documented 500"
proof -
  have "handler_errors rec = {400, 401, 402, 413, 429, 500, 502, 503}"
    by (rule subset_antisym [OF handler_errors_among handler_errors_occur])
  also have "\<dots> = {st. documented st \<and> st \<noteq> 200} \<union> {413, 500}" unfolding documented_codes by auto
  finally show ?thesis
    using subset_antisym [OF bearer_errors_among bearer_errors_occur] documented_table by simp
qed

section \<open>The public routes\<close>

text \<open>Every route the gateway hands to the landing handler is one of its pages, and every page of
  its own is handed to it.\<close>

theorem public_routes_served:
  "list_all (\<lambda>rt. rt_guards rt = [] \<and> rt_method rt = Some ''GET'' \<and>
       (case rt_path rt of Exact p \<Rightarrow> find (\<lambda>(pat, page). matches pat p) Landing_Handler \<noteq> None | _ \<Rightarrow> False))
     (filter (\<lambda>rt. rt_target rt = LandingSite) (Router_Handler R)) \<and>
   list_all (\<lambda>(pat, page). case pat of Exact p \<Rightarrow> p \<in> set PublicPaths | Under p \<Rightarrow> p = ''/assets/'' | _ \<Rightarrow> False) Landing_Handler"
  by (simp add: Router_Handler_def PublicPaths_def Landing_Handler_def articlePath_def HasPrefix_def split: option.split)

end
