(* ===== verification/Gateway.thy ===== *)
theory Gateway
  imports Handler Admission
begin

text \<open>
  The gateway at work (src/internal/proxy/handler.go over src/internal/queue/queue.go,
  src/internal/ratelimit/ratelimit.go and the repositories): many requests at once, each at its
  own place in \<open>Handler.Embeddings\<close>, sharing one limiter, one database and one admission queue.
  A step takes one request across one access to the shared state; steps of different requests
  interleave freely.
\<close>

section \<open>Jobs\<close>

text \<open>Where a request stands: before each check, waiting in the queue, with its slot during the
  upstream call, before its first release, before the accounting, before the deferred release,
  answered.\<close>

datatype stage =
    S_Start
  | S_Rate apikey int
  | S_Budget apikey int
  | S_Admit apikey int status
  | S_Wait apikey int status
  | S_Call apikey int status
  | S_Free apikey int status "forward_error + upstream"
  | S_Account apikey int status upstream
  | S_Finish reply
  | S_Done reply

text \<open>\<open>j_world\<close> collects what the request has read so far, \<open>j_effects\<close> what it has done;
  \<open>j_slot\<close> is its position in the queue's \<open>phases\<close>, from the \<open>Acquire\<close> on.\<close>

record 'db job =
  j_req :: request
  j_world :: "'db world"
  j_stage :: stage
  j_effects :: "'db effect list"
  j_slot :: nat

record 'db gateway =
  pool :: sys
  gw_limiter :: limiter
  gw_db :: 'db
  jobs :: "'db job list"

definition fresh_world :: "'db \<Rightarrow> 'db world" where
  "fresh_world db =
     \<lparr>w_limiter = Map.empty, w_allow_now = 0, w_sum = (\<lambda>_ _ _. Inr 0), w_zone = UTC, w_status_now = 0,
      w_admitted = False, w_client = (\<lambda>_ _. Inl UpstreamCall), w_event_now = 0, w_db = db\<rparr>"

section \<open>Steps\<close>

datatype choice = Proceed | Client http_client | GiveUp

datatype gw_event = Submit request | Advance nat choice

text \<open>The pool's step; a panic or a step that is not possible is None.\<close>

definition pool_step :: "int list \<Rightarrow> instant \<Rightarrow> queue_event \<Rightarrow> sys \<Rightarrow> sys option" where
  "pool_step ord now e s = (case fire ord now e s of Next s' g \<Rightarrow> Some s' | _ \<Rightarrow> None)"

abbreviation set_job :: "nat \<Rightarrow> 'db job \<Rightarrow> 'db gateway \<Rightarrow> 'db gateway" where
  "set_job i j s \<equiv> s\<lparr>jobs := (jobs s)[i := j]\<rparr>"

text \<open>Once admitted.\<close>

definition admit :: "apikey \<Rightarrow> int \<Rightarrow> status \<Rightarrow> 'db job \<Rightarrow> 'db job" where
  "admit key n st j =
     j\<lparr>j_stage := S_Call key n st, j_world := (j_world j)\<lparr>w_admitted := True\<rparr>\<rparr>"

definition step_rate :: "instant \<Rightarrow> apikey \<Rightarrow> int \<Rightarrow> nat \<Rightarrow> 'db job \<Rightarrow> 'db gateway \<Rightarrow> 'db gateway" where
  "step_rate now key n i j s =
     (let (r, lim) = check_rate (gw_limiter s) now key
      in set_job i (j\<lparr>j_stage := (case r of Some rp \<Rightarrow> S_Done rp | None \<Rightarrow> S_Budget key n),
                     j_world := (j_world j)\<lparr>w_limiter := gw_limiter s, w_allow_now := now\<rparr>,
                     j_effects := j_effects j @ [SetLimiter lim]\<rparr>) (s\<lparr>gw_limiter := lim\<rparr>))"

definition step_budget ::
    "'db driver \<Rightarrow> zone \<Rightarrow> instant \<Rightarrow> apikey \<Rightarrow> int \<Rightarrow> nat \<Rightarrow> 'db job \<Rightarrow> 'db gateway \<Rightarrow> 'db gateway" where
  "step_budget g loc now key n i j s =
     set_job i (j\<lparr>j_stage := (case check_budget (SumTokens g (gw_db s)) loc now key of
                               Inl rp \<Rightarrow> S_Done rp | Inr st \<Rightarrow> S_Admit key n st),
                  j_world := (j_world j)\<lparr>w_sum := SumTokens g (gw_db s), w_zone := loc, w_status_now := now\<rparr>\<rparr>) s"

definition step_enter ::
    "int list \<Rightarrow> instant \<Rightarrow> apikey \<Rightarrow> int \<Rightarrow> status \<Rightarrow> nat \<Rightarrow> 'db job \<Rightarrow> 'db gateway \<Rightarrow> 'db gateway option" where
  "step_enter ord now key n st i j s =
     (case pool_step ord now (Arrive (Priority key)) (pool s) of
        None \<Rightarrow> None
      | Some p \<Rightarrow>
          (let slot = length (phases (pool s));
               j1 = j\<lparr>j_slot := slot, j_effects := j_effects j @ [Enter (Priority key)]\<rparr>
           in Some (set_job i (case phases p ! slot of
                                 Holding b \<Rightarrow> admit key n st j1
                               | _ \<Rightarrow> j1\<lparr>j_stage := S_Wait key n st\<rparr>) (s\<lparr>pool := p\<rparr>))))"

definition cancelled_reply :: reply where
  "cancelled_reply = WriteError [] 503 ''service_unavailable'' ''request cancelled while queued for the embedding pool''"

definition step_wait ::
    "int list \<Rightarrow> instant \<Rightarrow> choice \<Rightarrow> apikey \<Rightarrow> int \<Rightarrow> status \<Rightarrow> nat \<Rightarrow> 'db job \<Rightarrow> 'db gateway \<Rightarrow> 'db gateway option" where
  "step_wait ord now c key n st i j s =
     (case c of
        GiveUp \<Rightarrow> map_option (\<lambda>p. set_job i (j\<lparr>j_stage := S_Done cancelled_reply,
                      j_world := (j_world j)\<lparr>w_admitted := False\<rparr>\<rparr>) (s\<lparr>pool := p\<rparr>))
                    (pool_step ord now (Cancel (j_slot j)) (pool s))
      | _ \<Rightarrow> map_option (\<lambda>p. set_job i (admit key n st j) (s\<lparr>pool := p\<rparr>))
               (pool_step ord now (Resume (j_slot j)) (pool s)))"

definition step_call ::
    "gateway_config \<Rightarrow> http_client \<Rightarrow> apikey \<Rightarrow> int \<Rightarrow> status \<Rightarrow> nat \<Rightarrow> 'db job \<Rightarrow> 'db gateway \<Rightarrow> 'db gateway" where
  "step_call h client key n st i j s =
     set_job i (j\<lparr>j_stage := S_Free key n st (Forward (g_baseURL h) client (req_path (j_req j)) (req_body (j_req j))),
                  j_world := (j_world j)\<lparr>w_client := client\<rparr>,
                  j_effects := j_effects j @ [Send (req_path (j_req j)) (req_body (j_req j))]\<rparr>) s"

definition after_call :: "apikey \<Rightarrow> int \<Rightarrow> status \<Rightarrow> forward_error + upstream \<Rightarrow> stage" where
  "after_call key n st res =
     (case res of
        Inl _ \<Rightarrow> S_Finish (WriteError [] 502 ''upstream_error'' ''embedding backend unavailable'')
      | Inr up \<Rightarrow> if up_status up = 200 then S_Account key n st up else S_Finish (relay [] up))"

definition budget_header :: "status \<Rightarrow> (string \<times> string) list" where
  "budget_header st =
     (if RemainingTokens st \<noteq> Unlimited then [(''X-Token-Budget-Remaining'', Itoa (RemainingTokens st))] else [])"

definition step_account ::
    "gateway_config \<Rightarrow> 'db driver \<Rightarrow> instant \<Rightarrow> apikey \<Rightarrow> int \<Rightarrow> status \<Rightarrow> upstream \<Rightarrow> nat \<Rightarrow> 'db job \<Rightarrow> 'db gateway \<Rightarrow> 'db gateway" where
  "step_account h g now key n st up i j s =
     (let ev = usage_event_of (g_model h) now key (parsePromptTokens (g_parse h (up_body up))) n;
          db = snd (Record g (gw_db s) ev)
      in set_job i (j\<lparr>j_stage := S_Finish (relay (budget_header st) up),
                     j_world := (j_world j)\<lparr>w_event_now := now, w_db := gw_db s\<rparr>,
                     j_effects := j_effects j @ [Store ev db]\<rparr>) (s\<lparr>gw_db := db\<rparr>))"

text \<open>Either release: the explicit one after the call, and the deferred one.\<close>

definition step_release ::
    "int list \<Rightarrow> instant \<Rightarrow> stage \<Rightarrow> nat \<Rightarrow> 'db job \<Rightarrow> 'db gateway \<Rightarrow> 'db gateway option" where
  "step_release ord now next_stage i j s =
     map_option (\<lambda>p. set_job i (j\<lparr>j_stage := next_stage, j_effects := j_effects j @ [Free]\<rparr>) (s\<lparr>pool := p\<rparr>))
       (pool_step ord now (Finish (j_slot j)) (pool s))"

definition advance ::
    "gateway_config \<Rightarrow> 'db driver \<Rightarrow> zone \<Rightarrow> int list \<Rightarrow> instant \<Rightarrow> choice \<Rightarrow> nat \<Rightarrow> 'db gateway \<Rightarrow> 'db gateway option" where
  "advance h g loc ord now c i s =
     (let j = jobs s ! i
      in case j_stage j of
           S_Start \<Rightarrow> Some (set_job i (j\<lparr>j_stage :=
             (case check_request (g_maxBody h) (g_parse h) (j_req j) of
                Inl rp \<Rightarrow> S_Done rp | Inr (key, n) \<Rightarrow> S_Rate key n)\<rparr>) s)
         | S_Rate key n \<Rightarrow> Some (step_rate now key n i j s)
         | S_Budget key n \<Rightarrow> Some (step_budget g loc now key n i j s)
         | S_Admit key n st \<Rightarrow> step_enter ord now key n st i j s
         | S_Wait key n st \<Rightarrow> step_wait ord now c key n st i j s
         | S_Call key n st \<Rightarrow> (case c of Client client \<Rightarrow> Some (step_call h client key n st i j s) | _ \<Rightarrow> None)
         | S_Free key n st res \<Rightarrow> step_release ord now (after_call key n st res) i j s
         | S_Account key n st up \<Rightarrow> Some (step_account h g now key n st up i j s)
         | S_Finish rp \<Rightarrow> step_release ord now (S_Done rp) i j s
         | S_Done rp \<Rightarrow> None)"

definition submit :: "request \<Rightarrow> 'db gateway \<Rightarrow> 'db gateway" where
  "submit r s = s\<lparr>jobs := jobs s @ [\<lparr>j_req = r, j_world = fresh_world (gw_db s), j_stage = S_Start,
     j_effects = [], j_slot = 0\<rparr>]\<rparr>"

fun gw_fire ::
    "gateway_config \<Rightarrow> 'db driver \<Rightarrow> zone \<Rightarrow> int list \<Rightarrow> instant \<Rightarrow> gw_event \<Rightarrow> 'db gateway \<Rightarrow> 'db gateway option" where
  "gw_fire h g loc ord now (Submit r) s = Some (submit r s)"
| "gw_fire h g loc ord now (Advance i c) s = (if i < length (jobs s) then advance h g loc ord now c i s else None)"

definition gw_start :: "queue \<Rightarrow> instant \<Rightarrow> 'db \<Rightarrow> 'db gateway" where
  "gw_start q now db = \<lparr>pool = start_sys q now, gw_limiter = Map.empty, gw_db = db, jobs = []\<rparr>"

text \<open>The clock of a run never goes back.\<close>

inductive gw_reachable ::
    "gateway_config \<Rightarrow> 'db driver \<Rightarrow> zone \<Rightarrow> queue \<Rightarrow> 'db \<Rightarrow> instant \<Rightarrow> 'db gateway \<Rightarrow> bool"
  for h g loc q db where
  gw_first: "gw_reachable h g loc q db t0 (gw_start q t0 db)"
| gw_next: "gw_reachable h g loc q db t s \<Longrightarrow> t \<le> now \<Longrightarrow> key_order ord (que (pool s)) \<Longrightarrow>
     gw_fire h g loc ord now e s = Some s' \<Longrightarrow> gw_reachable h g loc q db now s'"

section \<open>A job computes the handler\<close>

text \<open>What a job's history says at each stage, in terms of the checks of the handler.\<close>

definition passed :: "gateway_config \<Rightarrow> request \<Rightarrow> 'db world \<Rightarrow> apikey \<Rightarrow> int \<Rightarrow> limiter \<Rightarrow> status \<Rightarrow> bool" where
  "passed h r w key n lim st \<longleftrightarrow>
     check_request (g_maxBody h) (g_parse h) r = Inr (key, n) \<and>
     check_rate (w_limiter w) (w_allow_now w) key = (None, lim) \<and>
     check_budget (w_sum w) (w_zone w) (w_status_now w) key = Inr st"

fun stage_ok :: "gateway_config \<Rightarrow> 'db driver \<Rightarrow> request \<Rightarrow> 'db world \<Rightarrow> 'db effect list \<Rightarrow> stage \<Rightarrow> bool" where
  "stage_ok h g r w eff S_Start \<longleftrightarrow> eff = []"
| "stage_ok h g r w eff (S_Rate key n) \<longleftrightarrow> eff = [] \<and> check_request (g_maxBody h) (g_parse h) r = Inr (key, n)"
| "stage_ok h g r w eff (S_Budget key n) \<longleftrightarrow> check_request (g_maxBody h) (g_parse h) r = Inr (key, n) \<and>
     (\<exists>lim. check_rate (w_limiter w) (w_allow_now w) key = (None, lim) \<and> eff = [SetLimiter lim])"
| "stage_ok h g r w eff (S_Admit key n st) \<longleftrightarrow> (\<exists>lim. passed h r w key n lim st \<and> eff = [SetLimiter lim])"
| "stage_ok h g r w eff (S_Wait key n st) \<longleftrightarrow> (\<exists>lim. passed h r w key n lim st \<and> eff = [SetLimiter lim, Enter (Priority key)])"
| "stage_ok h g r w eff (S_Call key n st) \<longleftrightarrow>
     (\<exists>lim. passed h r w key n lim st \<and> w_admitted w \<and> eff = [SetLimiter lim, Enter (Priority key)])"
| "stage_ok h g r w eff (S_Free key n st res) \<longleftrightarrow>
     (\<exists>lim. passed h r w key n lim st \<and> w_admitted w \<and>
        Forward (g_baseURL h) (w_client w) (req_path r) (req_body r) = res \<and>
        eff = [SetLimiter lim, Enter (Priority key), Send (req_path r) (req_body r)])"
| "stage_ok h g r w eff (S_Account key n st up) \<longleftrightarrow>
     (\<exists>lim. passed h r w key n lim st \<and> w_admitted w \<and>
        Forward (g_baseURL h) (w_client w) (req_path r) (req_body r) = Inr up \<and> up_status up = 200 \<and>
        eff = [SetLimiter lim, Enter (Priority key), Send (req_path r) (req_body r), Free])"
| "stage_ok h g r w eff (S_Finish rp) \<longleftrightarrow> Embeddings h (Record g) w r = (rp, eff @ [Free])"
| "stage_ok h g r w eff (S_Done rp) \<longleftrightarrow> Embeddings h (Record g) w r = (rp, eff)"

definition job_ok :: "gateway_config \<Rightarrow> 'db driver \<Rightarrow> 'db job \<Rightarrow> bool" where
  "job_ok h g j \<longleftrightarrow> stage_ok h g (j_req j) (j_world j) (j_effects j) (j_stage j)"

lemma passed_update [simp]:
  "passed h r (w\<lparr>w_admitted := b\<rparr>) key n lim st = passed h r w key n lim st"
  "passed h r (w\<lparr>w_client := c\<rparr>) key n lim st = passed h r w key n lim st"
  "passed h r (w\<lparr>w_event_now := t, w_db := db\<rparr>) key n lim st = passed h r w key n lim st"
  by (simp_all add: passed_def)

lemma Embeddings_not_admitted:
  "passed h r w key n lim st \<Longrightarrow> \<not> w_admitted w \<Longrightarrow> Embeddings h rec w r = (cancelled_reply, [SetLimiter lim, Enter (Priority key)])"
  by (simp add: passed_def Embeddings_def cancelled_reply_def)

lemma Embeddings_answered:
  "passed h r w key n lim st \<Longrightarrow> w_admitted w \<Longrightarrow>
   Forward (g_baseURL h) (w_client w) (req_path r) (req_body r) = res \<Longrightarrow>
     Embeddings h rec w r =
       (case after_call key n st res of
          S_Finish rp \<Rightarrow> (rp, [SetLimiter lim, Enter (Priority key), Send (req_path r) (req_body r), Free, Free])
        | S_Account _ _ _ up \<Rightarrow>
            (let ev = usage_event_of (g_model h) (w_event_now w) key (parsePromptTokens (g_parse h (up_body up))) n
             in (relay (budget_header st) up,
                 [SetLimiter lim, Enter (Priority key), Send (req_path r) (req_body r), Free, Store ev (snd (rec (w_db w) ev)), Free])))"
  by (auto simp: passed_def Embeddings_def after_call_def budget_header_def Let_def split: sum.split)

lemma after_call_cases:
  "(\<exists>rp. after_call key n st res = S_Finish rp) \<or>
   (\<exists>up. after_call key n st res = S_Account key n st up \<and> res = Inr up \<and> up_status up = 200)"
  by (auto simp: after_call_def split: sum.split)

text \<open>A step changes one job, and keeps it in order.\<close>

lemma job_advance:
  assumes "advance h g loc ord now c i s = Some s'" "i < length (jobs s)" "job_ok h g (jobs s ! i)"
  shows "\<exists>j'. jobs s' = (jobs s)[i := j'] \<and> job_ok h g j' \<and> j_req j' = j_req (jobs s ! i)"
proof (cases "j_stage (jobs s ! i)")
  case S_Start
  with assms show ?thesis
    by (auto simp: advance_def Let_def job_ok_def Embeddings_def split: sum.splits)
next
  case (S_Rate key n)
  with assms show ?thesis
    by (auto simp: advance_def Let_def job_ok_def Embeddings_def step_rate_def split: prod.splits option.splits)
next
  case (S_Budget key n)
  with assms show ?thesis
    by (auto simp: advance_def Let_def job_ok_def Embeddings_def step_budget_def passed_def split: sum.splits)
next
  case (S_Admit key n st)
  with assms show ?thesis
    by (auto simp: advance_def Let_def job_ok_def step_enter_def admit_def split: option.splits phase.splits)
next
  case (S_Wait key n st)
  with assms show ?thesis
    by (auto simp: advance_def Let_def job_ok_def step_wait_def admit_def Embeddings_not_admitted split: option.splits choice.splits)
next
  case (S_Call key n st)
  with assms show ?thesis
    by (auto simp: advance_def Let_def job_ok_def step_call_def split: choice.splits)
next
  case (S_Free key n st res)
  from after_call_cases [of key n st res] S_Free assms show ?thesis
    by (auto simp: advance_def Let_def job_ok_def step_release_def Embeddings_answered)
next
  case (S_Account key n st up)
  with assms show ?thesis
    by (auto simp: advance_def Let_def job_ok_def step_account_def Embeddings_answered after_call_def)
next
  case (S_Finish rp)
  with assms show ?thesis
    by (auto simp: advance_def Let_def job_ok_def step_release_def)
next
  case (S_Done rp)
  with assms show ?thesis by (simp add: advance_def)
qed

lemma jobs_ok_reachable:
  "gw_reachable h g loc q db t s \<Longrightarrow> i < length (jobs s) \<Longrightarrow> job_ok h g (jobs s ! i)"
proof (induction arbitrary: i rule: gw_reachable.induct)
  case (gw_first now)
  then show ?case by (simp add: gw_start_def)
next
  case (gw_next t s now ord e s')
  show ?case
  proof (cases e)
    case (Submit r)
    with gw_next show ?thesis by (auto simp: submit_def nth_append job_ok_def less_Suc_eq)
  next
    case (Advance k c)
    with gw_next.hyps have k: "k < length (jobs s)" "advance h g loc ord now c k s = Some s'"
      by (auto split: if_splits)
    from job_advance [OF k(2,1) gw_next.IH [OF k(1)]] obtain j' where
      "jobs s' = (jobs s)[k := j']" "job_ok h g j'" by blast
    with gw_next.IH gw_next.prems show ?thesis by (simp add: nth_update_at)
  qed
qed

section \<open>Jobs and their slots\<close>

fun subject :: "queue_event \<Rightarrow> nat option" where
  "subject (Arrive p) = None"
| "subject (Resume i) = Some i"
| "subject (Cancel i) = Some i"
| "subject (Finish i) = Some i"

text \<open>A step of the pool moves its own request, appends one, or grants a parked one.\<close>

definition kept :: "phase \<Rightarrow> phase \<Rightarrow> bool" where
  "kept ph ph' \<longleftrightarrow> ph' = ph \<or> (\<exists>w w'. ph = Parked w \<and> ph' = Granted w')"

lemma close_ready_kept:
  assumes "sys_ok s" "clock s \<le> now" "key_order ord (que s)" "fire ord now e s = Next s' g"
    and "phases s' = close_ready g ((phases s)[i := ph])" "\<not> parked (phases s ! i)" "i < length (phases s)"
  shows "phases s' ! i = ph" and "j < length (phases s) \<Longrightarrow> j \<noteq> i \<Longrightarrow> kept (phases s ! j) (phases s' ! j)"
proof -
  have "\<exists>w. wid w' = wid w \<and> phases s ! wid w = Parked w \<and> wid w < length (phases s)" if "g = Some w'" for w'
  proof -
    obtain w where w: "w \<in> members (que s)" "w' = w\<lparr>granted := True, promoted := promoted w'\<rparr>"
      using fire_members [OF assms(1-4)] \<open>g = Some w'\<close> by auto
    then have "wid w' = wid w" by (metis waiter.select_convs(1) waiter.surjective waiter.update_convs(4,5))
    then show ?thesis using w(1) tracked_members [OF sys_okD(2) [OF assms(1)]] by auto
  qed
  note g = this
  show "phases s' ! i = ph"
    using assms(5-7) g by (cases g) (fastforce simp: nth_list_update)+
  show "kept (phases s ! j) (phases s' ! j)" if "j < length (phases s)" "j \<noteq> i"
    using assms(5,7) g that by (cases g) (auto simp: nth_update_at kept_def)
qed

text \<open>A queued waiter that gives up hands nothing over.\<close>

lemma quit_phases:
  assumes "sys_ok s" "i < length (phases s)" "phases s ! i = Parked w"
    and "Acquire_cancel ord now w (que s) = Some (g, que s')"
    and "s' = \<lparr>que = que s', phases = close_ready g ((phases s)[i := Abandoned]), clock = now\<rparr>"
  shows "phases s' = (phases s)[i := Abandoned]"
proof -
  have "w \<in> members (que s)"
    using sys_okD(2) [OF assms(1)] nth_mem [OF assms(2)] assms(3) by (simp add: tracked_def)
  then have "\<not> granted w" using sys_okD(1) [OF assms(1)] by (simp add: member_fields)
  with assms(4) have "g = None" by (simp add: Acquire_cancel_def Let_def)
  with assms(5) show ?thesis by (metis close_ready.simps(1) sys.select_convs(2))
qed

lemma fire_phases:
  assumes "sys_ok s" "clock s \<le> now" "key_order ord (que s)" "fire ord now e s = Next s' g"
  shows "j < length (phases s) \<Longrightarrow> subject e \<noteq> Some j \<Longrightarrow> kept (phases s ! j) (phases s' ! j)"
    and "e = Arrive p \<Longrightarrow> length (phases s') = Suc (length (phases s)) \<and>
      (phases s' ! length (phases s) = Holding False \<or> parked (phases s' ! length (phases s)))"
    and "e = Resume i \<Longrightarrow> \<exists>b. phases s' ! i = Holding b"
    and "e = Finish i \<Longrightarrow> \<exists>b. phases s' ! i = Released b"
    and "length (phases s) \<le> length (phases s')"
    and "e = Cancel i \<Longrightarrow> phases s' ! i = Abandoned"
proof -
  show "j < length (phases s) \<Longrightarrow> subject e \<noteq> Some j \<Longrightarrow> kept (phases s ! j) (phases s' ! j)"
    using assms(4)
  proof (cases rule: fire_cases)
    case (arrive p)
    then show "j < length (phases s) \<Longrightarrow> subject e \<noteq> Some j \<Longrightarrow> ?thesis"
      using assms(4) by (auto simp: kept_def nth_append split: prod.splits option.splits)
  next
    case (quit i w)
    from quit_phases [OF assms(1) quit(2-5)]
    show "j < length (phases s) \<Longrightarrow> subject e \<noteq> Some j \<Longrightarrow> ?thesis"
      using quit(1) by (auto simp: kept_def)
  next
    case (raced i w)
    then have "phases s' = close_ready g ((phases s)[i := Abandoned])" by (metis sys.select_convs(2))
    from close_ready_kept(2) [OF assms this _ raced(2)] raced(1,3)
    show "j < length (phases s) \<Longrightarrow> subject e \<noteq> Some j \<Longrightarrow> ?thesis" by auto
  next
    case (finish i b)
    then have "phases s' = close_ready g ((phases s)[i := Released b])" by (metis sys.select_convs(2))
    from close_ready_kept(2) [OF assms this _ finish(2)] finish(1,3)
    show "j < length (phases s) \<Longrightarrow> subject e \<noteq> Some j \<Longrightarrow> ?thesis" by auto
  qed (auto simp: kept_def)
  show "e = Arrive p \<Longrightarrow> length (phases s') = Suc (length (phases s)) \<and>
      (phases s' ! length (phases s) = Holding False \<or> parked (phases s' ! length (phases s)))"
    using assms(4) by (auto simp: nth_append split: prod.splits option.splits)
  show "e = Resume i \<Longrightarrow> \<exists>b. phases s' ! i = Holding b"
    using assms(4) by (auto split: if_splits phase.splits)
  show "\<exists>b. phases s' ! i = Released b" if "e = Finish i"
    using assms(4)
  proof (cases rule: fire_cases)
    case (finish k b)
    then have "phases s' = close_ready g ((phases s)[k := Released b])" by (metis sys.select_convs(2))
    from close_ready_kept(1) [OF assms this _ finish(2)] finish that show ?thesis by auto
  qed (use that in auto)
  show "length (phases s) \<le> length (phases s')"
    using fire_members [OF assms] by blast
  show "phases s' ! i = Abandoned" if "e = Cancel i"
    using assms(4)
  proof (cases rule: fire_cases)
    case (quit k w)
    from quit_phases [OF assms(1) quit(2-5)] quit(1,2) that show ?thesis by simp
  next
    case (raced k w)
    then have "phases s' = close_ready g ((phases s)[k := Abandoned])" by (metis sys.select_convs(2))
    from close_ready_kept(1) [OF assms this _ raced(2)] raced that show ?thesis by auto
  qed (use that in auto)
qed

lemma frame_length:
  assumes "sys_ok s" "clock s \<le> now" "key_order ord (que s)" "fire ord now e s = Next s' g"
  shows "length (phases s') = (if subject e = None then Suc (length (phases s)) else length (phases s))"
  using assms(4)
proof (cases rule: fire_cases)
  case (arrive p)
  with fire_phases(2) [OF assms arrive] show ?thesis by simp
next
  case (quit i w)
  then have "phases s' = close_ready g ((phases s)[i := Abandoned])" by (metis sys.select_convs(2))
  with quit(1) show ?thesis by (cases g) simp_all
next
  case (raced i w)
  then have "phases s' = close_ready g ((phases s)[i := Abandoned])" by (metis sys.select_convs(2))
  with raced(1) show ?thesis by (cases g) simp_all
next
  case (finish i b)
  then have "phases s' = close_ready g ((phases s)[i := Released b])" by (metis sys.select_convs(2))
  with finish(1) show ?thesis by (cases g) simp_all
qed simp_all

section \<open>The composed invariant\<close>

fun slot_ok :: "phase list \<Rightarrow> nat \<Rightarrow> stage \<Rightarrow> bool" where
  "slot_ok ps k (S_Call key n st) \<longleftrightarrow> k < length ps \<and> (\<exists>b. ps ! k = Holding b)"
| "slot_ok ps k (S_Free key n st res) \<longleftrightarrow> k < length ps \<and> (\<exists>b. ps ! k = Holding b)"
| "slot_ok ps k (S_Wait key n st) \<longleftrightarrow> k < length ps \<and> (parked (ps ! k) \<or> (\<exists>w. ps ! k = Granted w))"
| "slot_ok ps k (S_Account key n st up) \<longleftrightarrow> k < length ps \<and> (\<exists>b. ps ! k = Released b)"
| "slot_ok ps k (S_Finish rp) \<longleftrightarrow> k < length ps \<and> (\<exists>b. ps ! k = Released b)"
| "slot_ok ps k _ \<longleftrightarrow> True"

fun in_pool :: "stage \<Rightarrow> bool" where
  "in_pool (S_Call key n st) = True"
| "in_pool (S_Free key n st res) = True"
| "in_pool (S_Wait key n st) = True"
| "in_pool (S_Account key n st up) = True"
| "in_pool (S_Finish rp) = True"
| "in_pool _ = False"

definition slots_ok :: "phase list \<Rightarrow> 'db job list \<Rightarrow> bool" where
  "slots_ok ps js \<longleftrightarrow>
     (\<forall>i < length js. slot_ok ps (j_slot (js ! i)) (j_stage (js ! i))) \<and>
     (\<forall>i < length js. \<forall>k < length js. i \<noteq> k \<and> in_pool (j_stage (js ! i)) \<and> in_pool (j_stage (js ! k)) \<longrightarrow>
        j_slot (js ! i) \<noteq> j_slot (js ! k))"

text \<open>Nobody but a job owns a slot or waits for one.\<close>

definition owned :: "phase list \<Rightarrow> 'db job list \<Rightarrow> bool" where
  "owned ps js \<longleftrightarrow> (\<forall>m < length ps. busy (ps ! m) \<or> parked (ps ! m) \<longrightarrow>
     (\<exists>i < length js. in_pool (j_stage (js ! i)) \<and> j_slot (js ! i) = m))"

definition gw_ok :: "int \<Rightarrow> instant \<Rightarrow> 'db gateway \<Rightarrow> bool" where
  "gw_ok cap t s \<longleftrightarrow> sys_ok (pool s) \<and> clock (pool s) \<le> t \<and> capacity (que (pool s)) = cap \<and>
     slots_ok (phases (pool s)) (jobs s) \<and> owned (phases (pool s)) (jobs s)"

lemma owned_update:
  assumes "owned ps js" "i < length js"
    and "\<And>m. m < length ps' \<Longrightarrow> busy (ps' ! m) \<or> parked (ps' ! m) \<Longrightarrow>
      in_pool (j_stage j') \<and> j_slot j' = m \<or>
      m < length ps \<and> (busy (ps ! m) \<or> parked (ps ! m)) \<and> \<not> (in_pool (j_stage (js ! i)) \<and> j_slot (js ! i) = m)"
  shows "owned ps' (js[i := j'])"
proof -
  have "\<exists>k < length js. in_pool (j_stage (js[i := j'] ! k)) \<and> j_slot (js[i := j'] ! k) = m"
    if m: "m < length ps'" "busy (ps' ! m) \<or> parked (ps' ! m)" for m
  proof (cases "in_pool (j_stage j') \<and> j_slot j' = m")
    case True
    with assms(2) show ?thesis by (intro exI [of _ i]) simp
  next
    case False
    with assms(3) [OF m] have "m < length ps" "busy (ps ! m) \<or> parked (ps ! m)"
      and other: "\<not> (in_pool (j_stage (js ! i)) \<and> j_slot (js ! i) = m)" by auto
    with assms(1) obtain k where "k < length js" "in_pool (j_stage (js ! k))" "j_slot (js ! k) = m"
      unfolding owned_def by blast
    with other show ?thesis by (intro exI [of _ k]) (auto simp: nth_update_at)
  qed
  then show ?thesis by (simp add: owned_def)
qed

lemma slot_ok_range: "slot_ok ps k stg \<Longrightarrow> in_pool stg \<Longrightarrow> k < length ps"
  by (cases stg) auto

lemma slot_ok_kept: "slot_ok ps k stg \<Longrightarrow> in_pool stg \<Longrightarrow> length ps \<le> length ps' \<Longrightarrow> kept (ps ! k) (ps' ! k) \<Longrightarrow> slot_ok ps' k stg"
  by (cases stg) (auto simp: kept_def)

lemma slot_ok_out: "\<not> in_pool stg \<Longrightarrow> slot_ok ps k stg"
  by (cases stg) auto

text \<open>One job moves on, the pool with it or not.\<close>

lemma slots_ok_update:
  assumes "slots_ok ps js" "i < length js" "length ps \<le> length ps'"
    and "slot_ok ps' (j_slot j') (j_stage j')"
    and "\<And>k. k < length js \<Longrightarrow> k \<noteq> i \<Longrightarrow> in_pool (j_stage (js ! k)) \<Longrightarrow>
      kept (ps ! j_slot (js ! k)) (ps' ! j_slot (js ! k)) \<and> (in_pool (j_stage j') \<longrightarrow> j_slot (js ! k) \<noteq> j_slot j')"
  shows "slots_ok ps' (js[i := j'])"
proof -
  have "slot_ok ps' (j_slot (js ! k)) (j_stage (js ! k))" if "k < length js" "k \<noteq> i" for k
    using assms(1,3,5) that slot_ok_kept slot_ok_out by (cases "in_pool (j_stage (js ! k))") (auto simp: slots_ok_def)
  with assms(4) have "\<forall>k < length js. slot_ok ps' (j_slot (js[i := j'] ! k)) (j_stage (js[i := j'] ! k))"
    by (simp add: nth_update_at)
  moreover have "j_slot (js[i := j'] ! k) \<noteq> j_slot (js[i := j'] ! l)"
    if "k < length js" "l < length js" "k \<noteq> l" "in_pool (j_stage (js[i := j'] ! k))" "in_pool (j_stage (js[i := j'] ! l))" for k l
    using that assms(1) assms(5) [of k] assms(5) [of l] by (auto simp: nth_update_at slots_ok_def split: if_splits)
  ultimately show ?thesis by (simp add: slots_ok_def)
qed

lemma slots_distinct:
  "slots_ok ps js \<Longrightarrow> k < length js \<Longrightarrow> i < length js \<Longrightarrow> k \<noteq> i \<Longrightarrow> in_pool (j_stage (js ! k)) \<Longrightarrow>
     in_pool (j_stage (js ! i)) \<Longrightarrow> j_slot (js ! k) \<noteq> j_slot (js ! i)"
  unfolding slots_ok_def by blast

text \<open>A step of one job beside the pool.\<close>

lemma gw_ok_job:
  assumes "gw_ok cap t s" "t \<le> now" "i < length (jobs s)" "pool s' = pool s" "jobs s' = (jobs s)[i := j']"
    and "slot_ok (phases (pool s)) (j_slot j') (j_stage j')"
    and "in_pool (j_stage j') \<longrightarrow> in_pool (j_stage (jobs s ! i)) \<and> j_slot j' = j_slot (jobs s ! i)"
    and "in_pool (j_stage (jobs s ! i)) \<longrightarrow> in_pool (j_stage j')"
  shows "gw_ok cap now s'"
proof -
  have ok: "slots_ok (phases (pool s)) (jobs s)" using assms(1) by (simp add: gw_ok_def)
  have "slots_ok (phases (pool s)) ((jobs s)[i := j'])"
  proof (rule slots_ok_update [OF ok assms(3) order.refl assms(6)])
    fix k assume k: "k < length (jobs s)" "k \<noteq> i" "in_pool (j_stage (jobs s ! k))"
    then have "in_pool (j_stage j') \<Longrightarrow> j_slot (jobs s ! k) \<noteq> j_slot j'"
      using slots_distinct [OF ok k(1) assms(3) k(2,3)] assms(7) by simp
    then show "kept (phases (pool s) ! j_slot (jobs s ! k)) (phases (pool s) ! j_slot (jobs s ! k)) \<and>
      (in_pool (j_stage j') \<longrightarrow> j_slot (jobs s ! k) \<noteq> j_slot j')" by (simp add: kept_def)
  qed
  moreover have "owned (phases (pool s)) ((jobs s)[i := j'])"
  proof (rule owned_update [of "phases (pool s)", OF _ assms(3)])
    show "owned (phases (pool s)) (jobs s)" using assms(1) by (simp add: gw_ok_def)
  qed (use assms(7,8) in auto)
  ultimately show ?thesis using assms(1,2,4,5) by (simp add: gw_ok_def)
qed

text \<open>A step of one job through the pool: on its own slot, or into a new one.\<close>

lemma gw_ok_pool:
  assumes "gw_ok cap t s" "t \<le> now" "key_order ord (que (pool s))" "fire ord now e (pool s) = Next p g"
    and "i < length (jobs s)" "pool s' = p" "jobs s' = (jobs s)[i := j']"
    and "slot_ok (phases p) (j_slot j') (j_stage j')"
    and "case subject e of None \<Rightarrow> j_slot j' = length (phases (pool s))
         | Some m \<Rightarrow> in_pool (j_stage (jobs s ! i)) \<and> j_slot (jobs s ! i) = m \<and> j_slot j' = m"
    and "subject e = None \<longrightarrow> \<not> in_pool (j_stage (jobs s ! i))"
    and "busy (phases p ! j_slot j') \<or> parked (phases p ! j_slot j') \<longrightarrow> in_pool (j_stage j')"
  shows "gw_ok cap now s'"
proof -
  have ok: "sys_ok (pool s)" "clock (pool s) \<le> now" "capacity (que (pool s)) = cap"
    and slots: "slots_ok (phases (pool s)) (jobs s)"
    using assms(1,2) by (auto simp: gw_ok_def)
  note frame = fire_phases [OF ok(1,2) assms(3,4)]
  have "slots_ok (phases p) ((jobs s)[i := j'])"
  proof (rule slots_ok_update [OF slots assms(5) frame(5) assms(8)])
    fix k assume k: "k < length (jobs s)" "k \<noteq> i" "in_pool (j_stage (jobs s ! k))"
    have range: "j_slot (jobs s ! k) < length (phases (pool s))"
      using slots k(1,3) slot_ok_range unfolding slots_ok_def by blast
    have "subject e \<noteq> Some (j_slot (jobs s ! k)) \<and> j_slot (jobs s ! k) \<noteq> j_slot j'"
    proof (cases "subject e")
      case None
      with assms(9) range show ?thesis by simp
    next
      case (Some m)
      with assms(9) slots_distinct [OF slots k(1) assms(5) k(2,3)] have "j_slot (jobs s ! k) \<noteq> m" by simp
      with Some assms(9) show ?thesis by simp
    qed
    with frame(1) [OF range] show "kept (phases (pool s) ! j_slot (jobs s ! k)) (phases p ! j_slot (jobs s ! k)) \<and>
      (in_pool (j_stage j') \<longrightarrow> j_slot (jobs s ! k) \<noteq> j_slot j')" by simp
  qed
  moreover have "owned (phases p) ((jobs s)[i := j'])"
  proof (rule owned_update [of "phases (pool s)", OF _ assms(5)])
    show "owned (phases (pool s)) (jobs s)" using assms(1) by (simp add: gw_ok_def)
  next
    fix m assume m: "m < length (phases p)" "busy (phases p ! m) \<or> parked (phases p ! m)"
    show "in_pool (j_stage j') \<and> j_slot j' = m \<or> m < length (phases (pool s)) \<and>
      (busy (phases (pool s) ! m) \<or> parked (phases (pool s) ! m)) \<and>
      \<not> (in_pool (j_stage (jobs s ! i)) \<and> j_slot (jobs s ! i) = m)"
    proof (cases "m = j_slot j'")
      case True
      with m assms(11) show ?thesis by simp
    next
      case False
      then have sub: "subject e \<noteq> Some m" using assms(9) by (auto split: option.splits)
      have old: "m < length (phases (pool s))"
        using m(1) False assms(4,9) frame_length [OF ok(1,2) assms(3,4)] by (auto split: option.splits)
      have "busy (phases (pool s) ! m) \<or> parked (phases (pool s) ! m)"
        using frame(1) [OF old sub] m(2) by (auto simp: kept_def)
      with old False assms(9,10) show ?thesis by (auto split: option.splits)
    qed
  qed
  moreover have "sys_ok p" using fire_ok [OF ok(1,2) assms(3,4)] .
  moreover have "capacity (que p) = cap" "clock p = now"
    using fire_members [OF ok(1,2) assms(3,4)] ok(3) by auto
  ultimately show ?thesis using assms(6,7) by (simp add: gw_ok_def)
qed

lemma pool_step_Some: "pool_step ord now e p = Some p' \<longleftrightarrow> (\<exists>g. fire ord now e p = Next p' g)"
  by (auto simp: pool_step_def split: outcome.splits)

lemma gw_ok_advance:
  assumes ok: "gw_ok cap t s" and now: "t \<le> now" and ord: "key_order ord (que (pool s))"
    and i: "i < length (jobs s)" and adv: "advance h g loc ord now c i s = Some s'"
  shows "gw_ok cap now s'"
proof -
  let ?j = "jobs s ! i"
  have slot: "slot_ok (phases (pool s)) (j_slot ?j) (j_stage ?j)" using ok i by (simp add: gw_ok_def slots_ok_def)
  have sys: "sys_ok (pool s)" "clock (pool s) \<le> now" using ok now by (auto simp: gw_ok_def)
  note beside = gw_ok_job [OF ok now i] and through = gw_ok_pool [OF ok now ord _ i]
  note frame = fire_phases [OF sys ord]
  show ?thesis
  proof (cases "j_stage ?j")
    case S_Start
    with adv show ?thesis by (intro beside [of s' "jobs s' ! i"]) (auto simp: advance_def Let_def i split: sum.splits prod.splits)
  next
    case (S_Rate key n)
    with adv show ?thesis
      by (intro beside [of s' "jobs s' ! i"]) (auto simp: advance_def Let_def i step_rate_def split: option.splits prod.splits)
  next
    case (S_Budget key n)
    with adv show ?thesis
      by (intro beside [of s' "jobs s' ! i"]) (auto simp: advance_def Let_def i step_budget_def split: sum.splits)
  next
    case (S_Admit key n st)
    with adv obtain p gr where p: "fire ord now (Arrive (Priority key)) (pool s) = Next p gr"
      and s': "s' = set_job i (case phases p ! length (phases (pool s)) of
                 Holding b \<Rightarrow> admit key n st (?j\<lparr>j_slot := length (phases (pool s)), j_effects := j_effects ?j @ [Enter (Priority key)]\<rparr>)
               | _ \<Rightarrow> ?j\<lparr>j_slot := length (phases (pool s)), j_effects := j_effects ?j @ [Enter (Priority key)],
                          j_stage := S_Wait key n st\<rparr>) (s\<lparr>pool := p\<rparr>)"
      by (auto simp: advance_def Let_def step_enter_def pool_step_Some split: option.splits)
    from frame(2) [OF p refl] S_Admit show ?thesis
      by (intro through [OF p, of s' "jobs s' ! i"]) (auto simp: s' i admit_def split: phase.splits)
  next
    case (S_Wait key n st)
    show ?thesis
    proof (cases "c = GiveUp")
      case True
      with adv S_Wait obtain p gr where p: "fire ord now (Cancel (j_slot ?j)) (pool s) = Next p gr"
        and s': "s' = set_job i (?j\<lparr>j_stage := S_Done cancelled_reply, j_world := (j_world ?j)\<lparr>w_admitted := False\<rparr>\<rparr>) (s\<lparr>pool := p\<rparr>)"
        by (auto simp: advance_def Let_def step_wait_def pool_step_Some)
      show ?thesis using S_Wait frame(6) [OF p refl] by (intro through [OF p, of s' "jobs s' ! i"]) (auto simp: s' i)
    next
      case False
      with adv S_Wait obtain p gr where p: "fire ord now (Resume (j_slot ?j)) (pool s) = Next p gr"
        and s': "s' = set_job i (admit key n st ?j) (s\<lparr>pool := p\<rparr>)"
        by (cases c) (auto simp: advance_def Let_def step_wait_def pool_step_Some)
      from frame(3) [OF p refl] frame(5) [OF p] slot S_Wait show ?thesis
        by (intro through [OF p, of s' "jobs s' ! i"]) (auto simp: s' i admit_def)
    qed
  next
    case (S_Call key n st)
    with adv slot show ?thesis
      by (intro beside [of s' "jobs s' ! i"]) (auto simp: advance_def Let_def i step_call_def split: choice.splits)
  next
    case (S_Free key n st res)
    with adv obtain p gr where p: "fire ord now (Finish (j_slot ?j)) (pool s) = Next p gr"
      and s': "s' = set_job i (?j\<lparr>j_stage := after_call key n st res, j_effects := j_effects ?j @ [Free]\<rparr>) (s\<lparr>pool := p\<rparr>)"
      by (auto simp: advance_def Let_def step_release_def pool_step_Some)
    from frame(4) [OF p refl] frame(5) [OF p] slot S_Free after_call_cases [of key n st res] show ?thesis
      by (intro through [OF p, of s' "jobs s' ! i"]) (auto simp: s' i)
  next
    case (S_Account key n st up)
    with adv slot show ?thesis
      by (intro beside [of s' "jobs s' ! i"]) (auto simp: advance_def Let_def i step_account_def)
  next
    case (S_Finish rp)
    with adv obtain p gr where p: "fire ord now (Finish (j_slot ?j)) (pool s) = Next p gr"
      and s': "s' = set_job i (?j\<lparr>j_stage := S_Done rp, j_effects := j_effects ?j @ [Free]\<rparr>) (s\<lparr>pool := p\<rparr>)"
      by (auto simp: advance_def Let_def step_release_def pool_step_Some)
    from frame(4) [OF p refl] S_Finish show ?thesis by (intro through [OF p, of s' "jobs s' ! i"]) (auto simp: s' i)
  next
    case (S_Done rp)
    with adv show ?thesis by (simp add: advance_def)
  qed
qed

lemma gw_ok_reachable:
  assumes "NewWithClock cap after = Inr q" "after \<le> max_i64"
  shows "gw_reachable h g loc q db t s \<Longrightarrow> gw_ok cap t s"
proof (induction rule: gw_reachable.induct)
  case (gw_first t0)
  have "capacity q = cap" using assms(1) by (auto simp: NewWithClock_def split: if_splits)
  with start_ok [OF assms, of t0] show ?case
    by (simp add: gw_ok_def gw_start_def slots_ok_def owned_def) (simp add: start_sys_def)
next
  case (gw_next t s now ord e s')
  show ?case
  proof (cases e)
    case (Submit r)
    have "slots_ok (phases (pool s)) (jobs s')"
      using gw_next.IH gw_next.hyps Submit
      by (auto simp: gw_ok_def slots_ok_def submit_def nth_append less_Suc_eq)
    moreover have "owned (phases (pool s)) (jobs s')"
      using gw_next.IH gw_next.hyps Submit
      by (fastforce simp: gw_ok_def owned_def submit_def nth_append)
    ultimately show ?thesis using gw_next Submit by (auto simp: gw_ok_def submit_def)
  next
    case (Advance i c)
    with gw_next gw_ok_advance [OF gw_next.IH gw_next.hyps(2,3)] show ?thesis
      by (auto split: if_splits)
  qed
qed

end
