(* ===== verification/GatewayRun.thy ===== *)
theory GatewayRun
  imports Gateway
begin

text \<open>
  What the gateway guarantees with many requests at once: every reply is the handler's, the
  backends never see more calls than slots, the service never deadlocks, and the budgets hold
  up to the requests already past their check.
\<close>

section \<open>Calls in flight\<close>

fun calling :: "stage \<Rightarrow> bool" where
  "calling (S_Call key n st) = True"
| "calling (S_Free key n st res) = True"
| "calling _ = False"

lemma calling_slot: "slot_ok ps k stg \<Longrightarrow> calling stg \<Longrightarrow> k < length ps \<and> busy (ps ! k) \<and> in_pool stg"
  by (cases stg) auto

lemma calling_bound:
  assumes "gw_ok cap t s"
  shows "int (card {i. i < length (jobs s) \<and> calling (j_stage (jobs s ! i))}) \<le> cap"
proof -
  let ?ps = "phases (pool s)" and ?C = "{i. i < length (jobs s) \<and> calling (j_stage (jobs s ! i))}"
  have slots: "slots_ok ?ps (jobs s)" and ok: "sys_ok (pool s)" and cap: "capacity (que (pool s)) = cap"
    using assms by (auto simp: gw_ok_def)
  have c: "j_slot (jobs s ! i) < length ?ps \<and> busy (?ps ! j_slot (jobs s ! i)) \<and> in_pool (j_stage (jobs s ! i))"
    if "i \<in> ?C" for i
    using slots that calling_slot unfolding slots_ok_def by blast
  have "inj_on (\<lambda>i. j_slot (jobs s ! i)) ?C"
  proof (rule inj_onI)
    fix x y assume xy: "x \<in> ?C" "y \<in> ?C" "j_slot (jobs s ! x) = j_slot (jobs s ! y)"
    show "x = y"
    proof (rule ccontr)
      assume "x \<noteq> y"
      with xy c slots_distinct [OF slots, of x y] show False by auto
    qed
  qed
  moreover have "(\<lambda>i. j_slot (jobs s ! i)) ` ?C \<subseteq> {m. m < length ?ps \<and> busy (?ps ! m)}"
    using c by auto
  ultimately have "card ?C \<le> card {m. m < length ?ps \<and> busy (?ps ! m)}"
    by (intro card_inj_on_le) auto
  also have "\<dots> = length (filter busy ?ps)" by (simp add: length_filter_conv_card)
  finally have "int (card ?C) \<le> count_phase busy (pool s)" by (simp add: count_phase_def)
  also have "\<dots> \<le> cap" using sys_okD(3) [OF ok] queue_okD(2) [OF sys_okD(1) [OF ok]] cap by simp
  finally show ?thesis .
qed

section \<open>Progress\<close>

lemma Arrive_goes: "\<exists>p' g. fire ord now (Arrive p) s = Next p' g"
  by (auto split: prod.splits option.splits)

lemma Finish_goes:
  assumes "sys_ok s" "key_order ord (que s)" "i < length (phases s)" "phases s ! i = Holding b \<or> phases s ! i = Released b"
  shows "\<exists>p' g. fire ord now (Finish i) s = Next p' g"
proof -
  have "fire ord now (Finish i) s \<noteq> Panic" by (rule fire_no_panic [OF assms(1,2)])
  with assms(3,4) show ?thesis by (auto simp: settle_def split: option.splits prod.splits)
qed

text \<open>Only a request whose waiter is still queued has to wait for another.\<close>

lemma job_goes:
  assumes ok: "gw_ok cap t s" and ord: "key_order ord (que (pool s))" and i: "i < length (jobs s)"
    and open_job: "\<And>rp. j_stage (jobs s ! i) \<noteq> S_Done rp"
    and queued: "\<And>key n st. j_stage (jobs s ! i) = S_Wait key n st \<Longrightarrow> \<not> parked (phases (pool s) ! j_slot (jobs s ! i))"
  shows "\<exists>c s'. c \<noteq> GiveUp \<and> gw_fire h g loc ord now (Advance i c) s = Some s'"
proof -
  let ?j = "jobs s ! i"
  have slot: "slot_ok (phases (pool s)) (j_slot ?j) (j_stage ?j)" and sys: "sys_ok (pool s)"
    using ok i by (auto simp: gw_ok_def slots_ok_def)
  show ?thesis
  proof (cases "j_stage ?j")
    case (S_Admit key n st)
    obtain p' gr where "fire ord now (Arrive (Priority key)) (pool s) = Next p' gr" using Arrive_goes by blast
    with S_Admit i show ?thesis
      by (intro exI [of _ Proceed]) (simp add: advance_def Let_def step_enter_def pool_step_def)
  next
    case (S_Wait key n st)
    with slot queued obtain w where "j_slot ?j < length (phases (pool s))" "phases (pool s) ! j_slot ?j = Granted w" by auto
    with S_Wait i show ?thesis
      by (intro exI [of _ Proceed]) (simp add: advance_def Let_def step_wait_def pool_step_def)
  next
    case (S_Call key n st)
    with i show ?thesis
      by (intro exI [of _ "Client (\<lambda>_ _. Inl UpstreamCall)"]) (simp add: advance_def)
  next
    case (S_Free key n st res)
    with slot Finish_goes [OF sys ord, of "j_slot ?j"] obtain p' gr where
      "fire ord now (Finish (j_slot ?j)) (pool s) = Next p' gr" by (metis slot_ok.simps(2))
    with S_Free i show ?thesis
      by (intro exI [of _ Proceed]) (simp add: advance_def Let_def step_release_def pool_step_def)
  next
    case (S_Finish rp)
    with slot Finish_goes [OF sys ord, of "j_slot ?j"] obtain p' gr where
      "fire ord now (Finish (j_slot ?j)) (pool s) = Next p' gr" by (metis slot_ok.simps(5))
    with S_Finish i show ?thesis
      by (intro exI [of _ Proceed]) (simp add: advance_def Let_def step_release_def pool_step_def)
  qed (use i open_job in \<open>auto simp: advance_def Let_def intro: exI [of _ Proceed]\<close>)
qed

text \<open>While somebody is queued, every slot is owned by a job that can go on.\<close>

lemma owner_exists:
  assumes ok: "gw_ok cap t s" and m: "m < length (phases (pool s))" "parked (phases (pool s) ! m)"
  shows "\<exists>k < length (jobs s). in_pool (j_stage (jobs s ! k)) \<and> busy (phases (pool s) ! j_slot (jobs s ! k))"
proof -
  have sys: "sys_ok (pool s)" and own: "owned (phases (pool s)) (jobs s)" using ok by (auto simp: gw_ok_def)
  obtain w where "phases (pool s) ! m = Parked w" using m(2) by (cases "phases (pool s) ! m") auto
  with m(1) have "w \<in> members (que (pool s))"
    using sys_okD(2) [OF sys] nth_mem [of m "phases (pool s)"] by (simp add: tracked_def)
  then have "free (que (pool s)) = 0"
    using queue_okD(2,9) [OF sys_okD(1) [OF sys]] by fastforce
  with sys_okD(3) [OF sys] queue_okD(1) [OF sys_okD(1) [OF sys]]
  have "filter busy (phases (pool s)) \<noteq> []" by (auto simp: count_phase_def)
  then obtain l where "l < length (phases (pool s))" "busy (phases (pool s) ! l)"
    by (auto simp: filter_empty_conv in_set_conv_nth)
  with own show ?thesis unfolding owned_def by blast
qed

section \<open>Budgets under concurrency\<close>

text \<open>The requests of key \<open>k\<close> that are past their budget check and not accounted yet.\<close>

fun past_check :: "uint \<Rightarrow> stage \<Rightarrow> bool" where
  "past_check k (S_Admit key n st) \<longleftrightarrow> ID key = k"
| "past_check k (S_Wait key n st) \<longleftrightarrow> ID key = k"
| "past_check k (S_Call key n st) \<longleftrightarrow> ID key = k"
| "past_check k (S_Free key n st res) \<longleftrightarrow> ID key = k"
| "past_check k (S_Account key n st up) \<longleftrightarrow> ID key = k"
| "past_check k _ \<longleftrightarrow> False"

definition outstanding :: "uint \<Rightarrow> 'db gateway \<Rightarrow> nat set" where
  "outstanding k s = {i. i < length (jobs s) \<and> past_check k (j_stage (jobs s ! i))}"

text \<open>Runs in which never more than \<open>C\<close> requests of the key are outstanding. Here the clock moves on
  with every step, so that a check sees what was recorded before it.\<close>

inductive gw_within ::
    "gateway_config \<Rightarrow> 'db driver \<Rightarrow> zone \<Rightarrow> queue \<Rightarrow> 'db \<Rightarrow> instant \<Rightarrow> uint \<Rightarrow> nat \<Rightarrow> instant \<Rightarrow> 'db gateway \<Rightarrow> bool"
  for h g loc q db t0 k C where
  within_first: "gw_within h g loc q db t0 k C t0 (gw_start q t0 db)"
| within_next: "gw_within h g loc q db t0 k C t s \<Longrightarrow> t < now \<Longrightarrow> key_order ord (que (pool s)) \<Longrightarrow>
     gw_fire h g loc ord now e s = Some s' \<Longrightarrow> card (outstanding k s') \<le> C \<Longrightarrow>
     gw_within h g loc q db t0 k C now s'"

lemma within_reachable: "gw_within h g loc q db t0 k C t s \<Longrightarrow> gw_reachable h g loc q db t s"
  by (induction rule: gw_within.induct) (auto intro: gw_reachable.intros less_imp_le)

definition flag :: "bool \<Rightarrow> int" where
  "flag b = (if b then 1 else 0)"

lemma card_outstanding:
  assumes "i < length (jobs s)" "jobs s' = (jobs s)[i := j']"
  shows "int (card (outstanding k s')) =
    int (card (outstanding k s)) - flag (past_check k (j_stage (jobs s ! i))) + flag (past_check k (j_stage j'))"
proof -
  have "outstanding k s = {i. i < length (jobs s) \<and> past_check k (map j_stage (jobs s) ! i)}" for s :: "'a gateway"
    by (auto simp: outstanding_def)
  then have c: "int (card (outstanding k s)) = int (length (filter (past_check k) (map j_stage (jobs s))))" for s :: "'a gateway"
    by (simp add: length_filter_conv_card)
  show ?thesis
    using filter_update [of i "map j_stage (jobs s)" "past_check k" "j_stage j'"] assms
    by (simp add: c map_update flag_def)
qed

text \<open>The three kinds of steps: passing the check, accounting, and all others.\<close>

lemma advance_budget:
  assumes "advance h g loc ord now c i s = Some s'" "i < length (jobs s)"
  obtains (check) key n st where "j_stage (jobs s ! i) = S_Budget key n" "gw_db s' = gw_db s" "ID key = k"
      "check_budget (SumTokens g (gw_db s)) loc now key = Inr st"
  | (account) key n st up where "j_stage (jobs s ! i) = S_Account key n st up"
      "gw_db s' = snd (Record g (gw_db s) (usage_event_of (g_model h) now key (parsePromptTokens (g_parse h (up_body up))) n))"
      "\<not> past_check k (j_stage (jobs s' ! i))"
  | (other) "gw_db s' = gw_db s" "past_check k (j_stage (jobs s' ! i)) \<longrightarrow> past_check k (j_stage (jobs s ! i))"
proof (cases "j_stage (jobs s ! i)")
  case S_Start
  with assms show ?thesis by (intro other) (auto simp: advance_def Let_def split: sum.splits)
next
  case (S_Rate key n)
  with assms show ?thesis
    by (intro other) (auto simp: advance_def Let_def step_rate_def split: prod.splits option.splits)
next
  case (S_Budget key n)
  show ?thesis
  proof (cases "check_budget (SumTokens g (gw_db s)) loc now key")
    case (Inl rp)
    with S_Budget assms show ?thesis by (intro other) (auto simp: advance_def Let_def step_budget_def)
  next
    case (Inr st)
    with S_Budget assms show ?thesis
      by (cases "ID key = k") (auto intro: check other simp: advance_def Let_def step_budget_def)
  qed
next
  case (S_Admit key n st)
  with assms show ?thesis
    by (intro other) (auto simp: advance_def Let_def step_enter_def admit_def split: option.splits phase.splits)
next
  case (S_Wait key n st)
  with assms show ?thesis
    by (intro other) (auto simp: advance_def Let_def step_wait_def admit_def split: choice.splits)
next
  case (S_Call key n st)
  with assms show ?thesis by (intro other) (auto simp: advance_def Let_def step_call_def split: choice.splits)
next
  case (S_Free key n st res)
  with assms after_call_cases [of key n st res] show ?thesis
    by (intro other) (auto simp: advance_def Let_def step_release_def)
next
  case (S_Account key n st up)
  with assms show ?thesis by (intro account) (auto simp: advance_def Let_def step_account_def)
next
  case (S_Finish rp)
  with assms show ?thesis by (intro other) (auto simp: advance_def Let_def step_release_def)
next
  case (S_Done rp)
  with assms show ?thesis by (simp add: advance_def)
qed

text \<open>What has been recorded for the key.\<close>

definition total_spent :: "event list \<Rightarrow> uint \<Rightarrow> int" where
  "total_spent es k = spent_in es k (\<lambda>t. True)"

lemma check_means_left:
  assumes "sql_driver g K E" "check_budget (SumTokens g db) loc now key = Inr st"
    and "\<not> IsUnlimited key" "BudgetPeriod key \<noteq> Monthly" "\<forall>e \<in> set (E db). 0 \<le> EventAt e \<and> EventAt e < now"
  shows "total_spent (E db) (ID key) < TokenBudget key"
proof -
  obtain used where used: "SumTokens g db (ID key) 0 now = Inr used" "used < TokenBudget key"
    using assms(2-4) by (auto simp: check_budget_def Status_limited period_start_def split: sum.splits if_splits)
  have "filter (\<lambda>e. APIKeyID e = ID key \<and> 0 \<le> EventAt e \<and> EventAt e < now) (E db) = filter (\<lambda>e. APIKeyID e = ID key) (E db)"
    by (rule filter_cong [OF refl]) (use assms(5) in auto)
  then have "used = total_spent (E db) (ID key)"
    using sql_driver.SumTokens_exact [OF assms(1) used(1)]
    by (simp add: total_spent_def spent_in_def tokens_where_def)
  with used(2) show ?thesis by simp
qed

lemma record_events:
  assumes "sql_driver g K E"
  shows "E (snd (Record g db e)) = E db \<or> (\<exists>i. E (snd (Record g db e)) = E db @ [e\<lparr>EventID := i\<rparr>])"
proof -
  obtain r db' where r: "Record g db e = (r, db')" by (cases "Record g db e")
  show ?thesis
  proof (cases r)
    case None
    with sql_driver.Record_ok [OF assms] r show ?thesis by auto
  next
    case (Some err)
    with sql_driver.Record_failed [OF assms] r show ?thesis by auto
  qed
qed

lemma total_spent_append: "total_spent (es @ [e]) k = total_spent es k + (if APIKeyID e = k then PromptTokens e else 0)"
  by (simp add: total_spent_def spent_in_def tokens_where_def)

definition lifetime_terms :: "uint \<Rightarrow> int \<Rightarrow> 'db gateway \<Rightarrow> bool" where
  "lifetime_terms k B s \<longleftrightarrow> (\<forall>i < length (jobs s). \<forall>key. req_key (j_req (jobs s ! i)) = Some key \<and> ID key = k \<longrightarrow>
     \<not> IsUnlimited key \<and> BudgetPeriod key \<noteq> Monthly \<and> TokenBudget key \<le> B)"

lemma requests_kept:
  assumes "gw_fire h g loc ord now e s = Some s'" "\<forall>i < length (jobs s). job_ok h g (jobs s ! i)"
  shows "length (jobs s) \<le> length (jobs s') \<and> (\<forall>i < length (jobs s). j_req (jobs s' ! i) = j_req (jobs s ! i))"
proof (cases e)
  case (Submit r)
  with assms(1) show ?thesis by (auto simp: submit_def nth_append)
next
  case (Advance i c)
  with assms obtain j' where "i < length (jobs s)" "jobs s' = (jobs s)[i := j']" "j_req j' = j_req (jobs s ! i)"
    using job_advance [of h g loc ord now c i s s'] by (auto split: if_splits)
  then show ?thesis by (simp add: nth_update_at)
qed

lemma lifetime_terms_back:
  assumes "gw_fire h g loc ord now e s = Some s'" "\<forall>i < length (jobs s). job_ok h g (jobs s ! i)" "lifetime_terms k B s'"
  shows "lifetime_terms k B s"
proof -
  note kept = requests_kept [OF assms(1,2)]
  show ?thesis
    unfolding lifetime_terms_def
  proof (intro allI impI)
    fix i key assume "i < length (jobs s)" "req_key (j_req (jobs s ! i)) = Some key \<and> ID key = k"
    with kept have "i < length (jobs s')" "req_key (j_req (jobs s' ! i)) = Some key \<and> ID key = k" by auto
    with assms(3) show "\<not> IsUnlimited key \<and> BudgetPeriod key \<noteq> Monthly \<and> TokenBudget key \<le> B"
      unfolding lifetime_terms_def by blast
  qed
qed

text \<open>No call of the key recorded after \<open>t0\<close> counts more than \<open>M\<close> tokens.\<close>

definition calls_at_most :: "int \<Rightarrow> uint \<Rightarrow> instant \<Rightarrow> event list \<Rightarrow> bool" where
  "calls_at_most M k t0 es \<longleftrightarrow> (\<forall>e \<in> set es. APIKeyID e = k \<and> t0 < EventAt e \<longrightarrow> PromptTokens e \<le> M)"

lemma events_kept:
  assumes "sql_driver g K E" "gw_fire h g loc ord now e s = Some s'"
  shows "set (E (gw_db s)) \<subseteq> set (E (gw_db s'))"
proof (cases e)
  case (Submit r)
  with assms(2) show ?thesis by (auto simp: submit_def)
next
  case (Advance i c)
  with assms(2) have "i < length (jobs s)" "advance h g loc ord now c i s = Some s'" by (auto split: if_splits)
  from this(2,1) show ?thesis
  proof (cases rule: advance_budget [where k = 0])
    case (account key n st up)
    with record_events [OF assms(1)] show ?thesis by (metis Un_upper1 order_refl set_append)
  qed auto
qed

lemma calls_at_most_back:
  "sql_driver g K E \<Longrightarrow> gw_fire h g loc ord now e s = Some s' \<Longrightarrow> calls_at_most M k t0 (E (gw_db s')) \<Longrightarrow>
   calls_at_most M k t0 (E (gw_db s))"
  using events_kept [of g K E h loc ord now e s s'] unfolding calls_at_most_def by blast

lemma recorded_at_most:
  assumes "sql_driver g K E" "0 \<le> M" "calls_at_most M k t0 (E (snd (Record g db e)))"
    and "APIKeyID e = kid" "t0 < EventAt e"
  shows "total_spent (E (snd (Record g db e))) k \<le> total_spent (E db) k + (if kid = k then M else 0)"
  using record_events [OF assms(1), of db e] assms(2-5) by (auto simp: total_spent_append calls_at_most_def)

lemma budget_invariant:
  assumes run: "gw_within h g loc q db t0 k C t s" and law: "sql_driver g K E"
    and M: "0 \<le> M"
    and db: "0 \<le> t0" "\<forall>e \<in> set (E db). 0 \<le> EventAt e \<and> EventAt e \<le> t0"
  shows "t0 \<le> t \<and> (\<forall>e \<in> set (E (gw_db s)). 0 \<le> EventAt e \<and> EventAt e \<le> t) \<and>
    (lifetime_terms k B s \<and> calls_at_most M k t0 (E (gw_db s)) \<longrightarrow>
       total_spent (E (gw_db s)) k + M * int (card (outstanding k s)) \<le> max (total_spent (E db) k) (B - 1) + M * int C)"
  using run
proof (induction rule: gw_within.induct)
  case within_first
  have "0 \<le> M * int C" using M by simp
  with db show ?case by (auto simp: gw_start_def outstanding_def)
next
  case (within_next t s now ord e s')
  note jobs_ok = jobs_ok_reachable [OF within_reachable [OF within_next.hyps(1)]]
  let ?X = "max (total_spent (E db) k) (B - 1) + M * int C"
  have bound: "M * int (card (outstanding k s')) \<le> M * int C"
    using within_next.hyps(5) M by (intro mult_left_mono) auto
  have IH: "total_spent (E (gw_db s)) k + M * int (card (outstanding k s)) \<le> ?X"
    if "lifetime_terms k B s'" "calls_at_most M k t0 (E (gw_db s'))"
    using within_next.IH lifetime_terms_back [OF within_next.hyps(4) _ that(1)] jobs_ok
      calls_at_most_back [OF law within_next.hyps(4) that(2)] by blast
  have times: "\<forall>e \<in> set (E (gw_db s)). 0 \<le> EventAt e \<and> EventAt e < now" and now: "0 \<le> now" "t0 \<le> now"
    using within_next.IH within_next.hyps(2) db(1) by fastforce+
  show ?case
  proof (cases e)
    case (Submit r)
    with within_next.hyps(4) have s': "s' = submit r s" by simp
    have "outstanding k s' = outstanding k s" unfolding s' outstanding_def submit_def
      by (auto simp: nth_append less_Suc_eq)
    with IH times now s' show ?thesis by (auto simp: submit_def)
  next
    case (Advance i c)
    with within_next.hyps(4) have i: "i < length (jobs s)" and adv: "advance h g loc ord now c i s = Some s'"
      by (auto split: if_splits)
    obtain j' where j': "jobs s' = (jobs s)[i := j']" using job_advance [OF adv i jobs_ok [OF i]] by blast
    have card: "int (card (outstanding k s')) = int (card (outstanding k s)) -
        flag (past_check k (j_stage (jobs s ! i))) + flag (past_check k (j_stage j'))"
      by (rule card_outstanding [OF i j'])
    from adv i show ?thesis
    proof (cases rule: advance_budget [where k = k])
      case (check key n st)
      have "req_key (j_req (jobs s ! i)) = Some key"
        using jobs_ok [OF i] check(1) by (auto simp: job_ok_def check_request_Inr well_formed_def)
      moreover have "j_req (jobs s' ! i) = j_req (jobs s ! i)" using job_advance [OF adv i jobs_ok [OF i]] i by auto
      ultimately have "lifetime_terms k B s' \<Longrightarrow> \<not> IsUnlimited key \<and> BudgetPeriod key \<noteq> Monthly \<and> TokenBudget key \<le> B"
        using check(3) i j' by (auto simp: lifetime_terms_def)
      then have "lifetime_terms k B s' \<Longrightarrow> total_spent (E (gw_db s)) k < B"
        using check_means_left [OF law check(4) _ _ times] check(3) by force
      with bound check(2) times now show ?thesis by fastforce
    next
      case (account key n st up)
      define ev where "ev = usage_event_of (g_model h) now key (parsePromptTokens (g_parse h (up_body up))) n"
      have spent: "total_spent (E (gw_db s')) k \<le> total_spent (E (gw_db s)) k + (if ID key = k then M else 0)"
        if "calls_at_most M k t0 (E (gw_db s'))"
      proof (rule recorded_at_most [OF law M that [unfolded account(2) ev_def [symmetric]], folded account(2) [folded ev_def]])
        show "APIKeyID ev = ID key" "t0 < EventAt ev"
          using within_next.hyps(2) within_next.IH by (auto simp: ev_def usage_event_of_def)
      qed
      have "M * int (card (outstanding k s')) + (if ID key = k then M else 0) \<le> M * int (card (outstanding k s))"
        using account(1,3) i j' by (simp add: card flag_def algebra_simps)
      with spent IH have "lifetime_terms k B s' \<and> calls_at_most M k t0 (E (gw_db s')) \<Longrightarrow>
          total_spent (E (gw_db s')) k + M * int (card (outstanding k s')) \<le> ?X"
        by fastforce
      moreover have "\<forall>e \<in> set (E (gw_db s')). 0 \<le> EventAt e \<and> EventAt e \<le> now"
        using record_events [OF law, of "gw_db s" ev] times now(1)
        by (auto simp: account(2) ev_def [symmetric]) (auto simp: ev_def usage_event_of_def less_imp_le)
      ultimately show ?thesis using now(2) by simp
    next
      case other
      have "M * int (card (outstanding k s')) \<le> M * int (card (outstanding k s))"
        using other(2) i j' M by (intro mult_left_mono) (auto simp: card flag_def)
      with IH other(1) times now show ?thesis by fastforce
    qed
  qed
qed

section \<open>Scripts\<close>

text \<open>A script of steps, each with its map order and clock reading, that keeps the outstanding
  requests of key \<open>k\<close> within \<open>C\<close>.\<close>

fun gw_play ::
    "gateway_config \<Rightarrow> 'db driver \<Rightarrow> zone \<Rightarrow> uint \<Rightarrow> nat \<Rightarrow> (int list \<times> instant \<times> gw_event) list \<Rightarrow>
     instant \<times> 'db gateway \<Rightarrow> (instant \<times> 'db gateway) option" where
  "gw_play h g loc k C [] ts = Some ts"
| "gw_play h g loc k C ((ord, now, e) # es) (t, s) =
     (if t < now \<and> order_check ord (que (pool s))
      then (case gw_fire h g loc ord now e s of
              None \<Rightarrow> None
            | Some s' \<Rightarrow>
                if length (filter (past_check k) (map j_stage (jobs s'))) \<le> C
                then gw_play h g loc k C es (now, s') else None)
      else None)"

lemma outstanding_card: "card (outstanding k s) = length (filter (past_check k) (map j_stage (jobs s)))"
proof -
  have "outstanding k s = {i. i < length (map j_stage (jobs s)) \<and> past_check k (map j_stage (jobs s) ! i)}"
    by (auto simp: outstanding_def)
  then show ?thesis by (simp only: length_filter_conv_card)
qed

lemma gw_play_within:
  assumes "NewWithClock cap after = Inr q" "after \<le> max_i64"
  shows "gw_within h g loc q db t0 k C t s \<Longrightarrow> gw_play h g loc k C es (t, s) = Some (t', s') \<Longrightarrow>
    gw_within h g loc q db t0 k C t' s'"
proof (induction es arbitrary: t s)
  case (Cons x es)
  obtain ord now e where x: "x = (ord, now, e)" by (cases x)
  obtain s1 where step: "t < now" "order_check ord (que (pool s))" "gw_fire h g loc ord now e s = Some s1"
    "card (outstanding k s1) \<le> C" "gw_play h g loc k C es (now, s1) = Some (t', s')"
    using Cons.prems(2) by (auto simp: x outstanding_card split: if_splits option.splits)
  have "sys_ok (pool s)"
    using gw_ok_reachable [OF assms within_reachable [OF Cons.prems(1)]] by (simp add: gw_ok_def)
  then have "key_order ord (que (pool s))" using order_check_key_order [OF sys_okD(1) step(2)] by simp
  from within_next [OF Cons.prems(1) step(1) this step(3,4)] Cons.IH step(5) show ?case by blast
qed simp

text \<open>Two requests of one key and one slot: the first calls the backend, the second waits; then
  both are answered.\<close>

definition two_requests :: "(int list \<times> instant \<times> gw_event) list" where
  "two_requests =
     (let r = demo_request (lifetime_key 1000)
      in [([], 201, Submit r), ([], 202, Submit r), ([], 203, Advance 0 Proceed), ([], 204, Advance 1 Proceed),
          ([], 205, Advance 0 Proceed), ([], 206, Advance 1 Proceed), ([], 207, Advance 0 Proceed),
          ([], 208, Advance 1 Proceed), ([], 209, Advance 0 Proceed), ([], 210, Advance 1 Proceed)])"

definition two_answers :: "(int list \<times> instant \<times> gw_event) list" where
  "two_answers =
     (let answer = Client (\<lambda>url body. Inr \<lparr>hr_status = 200, hr_content_type = ''application/json'',
                                            hr_stream = ''answer'', hr_broken = False\<rparr>)
      in [([0], 211, Advance 0 answer), ([0], 212, Advance 0 Proceed), ([], 213, Advance 0 Proceed),
          ([], 214, Advance 0 Proceed), ([], 215, Advance 1 Proceed), ([], 216, Advance 1 answer),
          ([], 217, Advance 1 Proceed), ([], 218, Advance 1 Proceed), ([], 219, Advance 1 Proceed)])"

abbreviation demo_gw_play :: "(int list \<times> instant \<times> gw_event) list \<Rightarrow> instant \<times> mem_db gateway \<Rightarrow> (instant \<times> mem_db gateway) option" where
  "demo_gw_play \<equiv> gw_play demo_gateway mem_driver UTC 1 2"

definition demo_busy :: "mem_db gateway" where
  "demo_busy = snd (the (demo_gw_play two_requests (200, gw_start demo_queue 200 spent_db)))"

definition demo_answered :: "mem_db gateway" where
  "demo_answered = snd (the (demo_gw_play (two_requests @ two_answers) (200, gw_start demo_queue 200 spent_db)))"

fun queued_behind :: "mem_db gateway \<Rightarrow> bool" where
  "queued_behind s \<longleftrightarrow> length (jobs s) = 2 \<and> calling (j_stage (jobs s ! 0)) \<and>
     (case j_stage (jobs s ! 1) of S_Wait key n st \<Rightarrow> parked (phases (pool s) ! j_slot (jobs s ! 1)) | _ \<Rightarrow> False) \<and>
     order_check [0] (que (pool s))"

fun both_answered :: "mem_db gateway \<Rightarrow> bool" where
  "both_answered s \<longleftrightarrow> length (jobs s) = 2 \<and>
     (case j_stage (jobs s ! 0) of S_Done rp \<Rightarrow> rp_status rp = 200 | _ \<Rightarrow> False) \<and>
     map (\<lambda>j. req_key (j_req j)) (jobs s) = [Some (lifetime_key 1000), Some (lifetime_key 1000)] \<and>
     total_spent (mem_events (gw_db s)) 1 = 418 \<and> calls_at_most 9 1 200 (mem_events (gw_db s))"

lemma the_play:
  "case r of None \<Rightarrow> False | Some (t, s) \<Rightarrow> t = now \<and> P s \<Longrightarrow> r = Some (now, snd (the r)) \<and> P (snd (the r))"
  by (cases r) auto

lemma demo_busy_run:
  "demo_gw_play two_requests (200, gw_start demo_queue 200 spent_db) = Some (210, demo_busy) \<and> queued_behind demo_busy"
  unfolding demo_busy_def by (rule the_play) code_simp

lemma demo_answered_run:
  "demo_gw_play (two_requests @ two_answers) (200, gw_start demo_queue 200 spent_db) = Some (219, demo_answered) \<and>
   both_answered demo_answered"
  unfolding demo_answered_def by (rule the_play) code_simp

lemma demo_queue_new: "NewWithClock 1 (5 * second) = Inr demo_queue"
  by (simp add: demo_queue_def NewWithClock_def)

lemma demo_within:
  "gw_within demo_gateway mem_driver UTC demo_queue spent_db 200 1 2 210 demo_busy"
  "gw_within demo_gateway mem_driver UTC demo_queue spent_db 200 1 2 219 demo_answered"
  by (rule gw_play_within [OF demo_queue_new five_seconds within_first conjunct1 [OF demo_busy_run]],
      rule gw_play_within [OF demo_queue_new five_seconds within_first conjunct1 [OF demo_answered_run]])

lemmas demo_reached = demo_within [THEN within_reachable]

section \<open>Properties of the composed gateway\<close>

text \<open>C2: the interleaved pipeline computes the handler. Whatever the other requests did in between,
  an answered request has the reply and the effects, in their order, that \<open>Embeddings\<close> gives
  in the world its own stages found.\<close>

theorem pipeline_refines_handler:
  assumes "gw_reachable h g loc q db t s" and "i < length (jobs s)"
    and "j_stage (jobs s ! i) = S_Done rp"
  shows "Embeddings h (Record g) (j_world (jobs s ! i)) (j_req (jobs s ! i)) = (rp, j_effects (jobs s ! i))"
  using jobs_ok_reachable [OF assms(1,2)] assms(3) by (simp add: job_ok_def)

theorem pipeline_refines_handler_witness:
  "\<exists>rp. rp_status rp = 200 \<and>
     Embeddings demo_gateway (Record mem_driver) (j_world (jobs demo_answered ! 0)) (j_req (jobs demo_answered ! 0)) =
       (rp, j_effects (jobs demo_answered ! 0))"
proof -
  obtain rp where "j_stage (jobs demo_answered ! 0) = S_Done rp" "rp_status rp = 200" "0 < length (jobs demo_answered)"
    using demo_answered_run by (cases "j_stage (jobs demo_answered ! 0)") auto
  with pipeline_refines_handler [OF demo_reached(2) this(3) this(1)] show ?thesis by blast
qed

text \<open>C3: the backends never see more concurrent calls than configured. At every moment at most
  \<open>capacity\<close> requests are between admission and the release after their upstream call.\<close>

theorem upstream_calls_bounded:
  assumes "NewWithClock cap after = Inr q" and "after \<le> max_i64" and "gw_reachable h g loc q db t s"
  shows "int (card {i. i < length (jobs s) \<and> calling (j_stage (jobs s ! i))}) \<le> cap"
  using calling_bound [OF gw_ok_reachable [OF assms]] .

theorem upstream_calls_bounded_witness:
  "int (card {i. i < length (jobs demo_busy) \<and> calling (j_stage (jobs demo_busy ! i))}) \<le> 1 \<and>
   calling (j_stage (jobs demo_busy ! 0)) \<and> length (jobs demo_busy) = 2"
  using upstream_calls_bounded [OF demo_queue_new five_seconds demo_reached(1)] demo_busy_run by simp

text \<open>The gateway never deadlocks. As long as a request is unanswered, some request can take its
  next step without anyone giving up.\<close>

lemma gateway_progress:
  assumes "NewWithClock cap after = Inr q" and "after \<le> max_i64" and "gw_reachable h g loc q db t s"
    and "i < length (jobs s)" and "\<forall>rp. j_stage (jobs s ! i) \<noteq> S_Done rp" and "key_order ord (que (pool s))"
  shows "\<exists>k c s'. c \<noteq> GiveUp \<and> gw_fire h g loc ord now (Advance k c) s = Some s'"
proof -
  note ok = gw_ok_reachable [OF assms(1-3)]
  show ?thesis
  proof (cases "\<exists>key n st. j_stage (jobs s ! i) = S_Wait key n st \<and> parked (phases (pool s) ! j_slot (jobs s ! i))")
    case False
    with job_goes [OF ok assms(6,4)] assms(5) show ?thesis by blast
  next
    case True
    then have "in_pool (j_stage (jobs s ! i))" by auto
    then have "j_slot (jobs s ! i) < length (phases (pool s))"
      using ok assms(4) slot_ok_range unfolding gw_ok_def slots_ok_def by blast
    with True owner_exists [OF ok] obtain k where k: "k < length (jobs s)" "in_pool (j_stage (jobs s ! k))"
      "busy (phases (pool s) ! j_slot (jobs s ! k))" by blast
    have "\<not> parked (phases (pool s) ! j_slot (jobs s ! k))" using k(3) by (cases "phases (pool s) ! j_slot (jobs s ! k)") auto
    moreover have "j_stage (jobs s ! k) \<noteq> S_Done rp" for rp using k(2) by auto
    ultimately show ?thesis using job_goes [OF ok assms(6) k(1)] by blast
  qed
qed

lemma gateway_progress_example:
  "parked (phases (pool demo_busy) ! j_slot (jobs demo_busy ! 1)) \<and>
   (\<exists>k c s'. c \<noteq> GiveUp \<and> gw_fire demo_gateway mem_driver UTC [0] 211 (Advance k c) demo_busy = Some s')"
proof -
  obtain key n st where w: "j_stage (jobs demo_busy ! 1) = S_Wait key n st" "1 < length (jobs demo_busy)"
    "parked (phases (pool demo_busy) ! j_slot (jobs demo_busy ! 1))" "order_check [0] (que (pool demo_busy))"
    using demo_busy_run by (cases "j_stage (jobs demo_busy ! 1)") auto
  have "sys_ok (pool demo_busy)"
    using gw_ok_reachable [OF demo_queue_new five_seconds demo_reached(1)] by (simp add: gw_ok_def)
  then have "key_order [0] (que (pool demo_busy))" using order_check_key_order [OF sys_okD(1) w(4)] by simp
  with gateway_progress [OF demo_queue_new five_seconds demo_reached(1) w(2)] w(1,3) show ?thesis by simp
qed

text \<open>C9: a lifetime budget is overshot by the concurrency only. In a run from time \<open>t0\<close> whose clock
  moves on with every step, in which never more than \<open>C\<close> requests of the key are past their check and
  not yet accounted, and in which no call recorded for the key since \<open>t0\<close> counts more than \<open>M\<close> tokens,
  what is recorded for the key exceeds the last token below the budget (or what was already recorded
  at \<open>t0\<close>, if that is more) by at most \<open>C\<close> such calls.\<close>

theorem budget_overshoot_bounded:
  assumes "gw_within h g loc q db t0 k C t s" and "sql_driver g K E"
    and "0 \<le> M" and "calls_at_most M k t0 (E (gw_db s))"
    and "0 \<le> t0" and "\<forall>e \<in> set (E db). 0 \<le> EventAt e \<and> EventAt e \<le> t0"
    and "lifetime_terms k B s"
  shows "total_spent (E (gw_db s)) k \<le> max (total_spent (E db) k) (B - 1) + M * int C"
proof -
  have "total_spent (E (gw_db s)) k + M * int (card (outstanding k s)) \<le> max (total_spent (E db) k) (B - 1) + M * int C"
    using budget_invariant [OF assms(1-3,5,6), of B] assms(4,7) by blast
  moreover have "0 \<le> M * int (card (outstanding k s))" using assms(3) by simp
  ultimately show ?thesis by linarith
qed

theorem budget_overshoot_bounded_witness:
  "total_spent (mem_events spent_db) 1 = 400 \<and> total_spent (mem_events (gw_db demo_answered)) 1 = 418 \<and>
   total_spent (mem_events (gw_db demo_answered)) 1 \<le> max 400 999 + 9 * 2"
proof -
  have db: "\<forall>e \<in> set (mem_events spent_db). 0 \<le> EventAt e \<and> EventAt e \<le> 200" "total_spent (mem_events spent_db) 1 = 400"
    by (simp_all add: spent_db_def total_spent_def spent_in_def tokens_where_def)
  have fin: "length (jobs demo_answered) = 2" "total_spent (mem_events (gw_db demo_answered)) 1 = 418"
    "map (\<lambda>j. req_key (j_req j)) (jobs demo_answered) = [Some (lifetime_key 1000), Some (lifetime_key 1000)]"
    "calls_at_most 9 1 200 (mem_events (gw_db demo_answered))"
    using demo_answered_run by simp_all
  have "req_key (j_req (jobs demo_answered ! i)) = Some (lifetime_key 1000)" if "i < 2" for i
    using fin(3) that nth_map [of i "jobs demo_answered" "\<lambda>j. req_key (j_req j)"] fin(1)
    by (cases i) auto
  then have "lifetime_terms 1 1000 demo_answered"
    by (auto simp: lifetime_terms_def fin(1) lifetime_key_def IsUnlimited_def Unlimited_def Lifetime_def Monthly_def)
  from budget_overshoot_bounded [OF demo_within(2) mem.sql_driver_axioms _ fin(4) _ db(1) this] fin(2) db(2)
  show ?thesis by simp
qed

section \<open>Requests come to an end\<close>

text \<open>How many steps a request has left at most.\<close>

fun steps_left :: "stage \<Rightarrow> nat" where
  "steps_left S_Start = 9"
| "steps_left (S_Rate key n) = 8"
| "steps_left (S_Budget key n) = 7"
| "steps_left (S_Admit key n st) = 6"
| "steps_left (S_Wait key n st) = 5"
| "steps_left (S_Call key n st) = 4"
| "steps_left (S_Free key n st res) = 3"
| "steps_left (S_Account key n st up) = 2"
| "steps_left (S_Finish rp) = 1"
| "steps_left (S_Done rp) = 0"

definition work_left :: "'db gateway \<Rightarrow> nat" where
  "work_left s = sum_list (map (steps_left \<circ> j_stage) (jobs s))"

lemma sum_list_update_less:
  "i < length xs \<Longrightarrow> f y < f (xs ! i) \<Longrightarrow> sum_list (map f (xs[i := y])) < sum_list (map f xs)" for f :: "'a \<Rightarrow> nat"
proof (induction xs arbitrary: i)
  case (Cons x xs)
  then show ?case by (cases i) auto
qed simp

lemma after_call_left: "steps_left (after_call key n st res) < 3"
  by (simp add: after_call_def split: sum.split)

lemma advance_less:
  assumes "advance h g loc ord now c i s = Some s'" "i < length (jobs s)"
  shows "work_left s' < work_left s"
proof -
  have less: "sum_list (map (steps_left \<circ> j_stage) ((jobs s)[i := j])) < sum_list (map (steps_left \<circ> j_stage) (jobs s))"
    if "steps_left (j_stage j) < steps_left (j_stage (jobs s ! i))" for j
    using that by (intro sum_list_update_less [OF assms(2)]) simp
  show ?thesis
    unfolding work_left_def using assms(1)
    by (cases "j_stage (jobs s ! i)")
      (auto simp: advance_def step_rate_def step_budget_def step_enter_def step_wait_def step_call_def step_release_def
        step_account_def admit_def Let_def after_call_left split: option.splits sum.splits prod.splits phase.splits choice.splits
        intro!: less)
qed

text \<open>Runs of \<open>n\<close> steps without a new request, and, with \<open>patient\<close>, without a client giving up.\<close>

inductive gw_drains ::
    "gateway_config \<Rightarrow> 'db driver \<Rightarrow> zone \<Rightarrow> bool \<Rightarrow> nat \<Rightarrow> instant \<Rightarrow> 'db gateway \<Rightarrow> instant \<Rightarrow> 'db gateway \<Rightarrow> bool"
  for h g loc patient where
  drain_none: "gw_drains h g loc patient 0 t s t s"
| drain_step: "t \<le> now \<Longrightarrow> key_order ord (que (pool s)) \<Longrightarrow> patient \<longrightarrow> c \<noteq> GiveUp \<Longrightarrow>
     gw_fire h g loc ord now (Advance i c) s = Some s1 \<Longrightarrow> gw_drains h g loc patient n now s1 t' s' \<Longrightarrow>
     gw_drains h g loc patient (Suc n) t s t' s'"

definition all_answered :: "'db gateway \<Rightarrow> bool" where
  "all_answered s \<longleftrightarrow> (\<forall>i < length (jobs s). \<exists>rp. j_stage (jobs s ! i) = S_Done rp)"

lemma fire_advance_less: "gw_fire h g loc ord now (Advance i c) s = Some s' \<Longrightarrow> work_left s' < work_left s"
  by (auto split: if_splits intro: advance_less)

lemma drains_bound: "gw_drains h g loc patient n t s t' s' \<Longrightarrow> n + work_left s' \<le> work_left s"
proof (induction rule: gw_drains.induct)
  case (drain_step t now ord s c i s1 n t' s')
  from fire_advance_less [OF drain_step(4)] drain_step.IH show ?case by simp
qed simp

lemma work_left_bound: "work_left s \<le> 9 * length (jobs s)"
proof -
  have "steps_left st \<le> 9" for st by (cases st) auto
  then have "work_left s \<le> sum_list (map (\<lambda>_. 9) (jobs s))" unfolding work_left_def by (intro sum_list_mono) simp
  then show ?thesis by (simp add: sum_list_triv mult.commute)
qed

lemma key_order_exists: "gw_ok cap t s \<Longrightarrow> \<exists>ord. key_order ord (que (pool s))"
  using finite_distinct_list [OF queue_okD(6) [OF sys_okD(1), of "pool s"]] by (auto simp: gw_ok_def)

lemma drains_to_end:
  assumes "NewWithClock cap after = Inr q" "after \<le> max_i64"
  shows "gw_reachable h g loc q db t s \<Longrightarrow> \<exists>n t' s'. gw_drains h g loc True n t s t' s' \<and> all_answered s'"
proof (induction "work_left s" arbitrary: t s rule: less_induct)
  case less
  show ?case
  proof (cases "all_answered s")
    case True
    then show ?thesis using drain_none by blast
  next
    case False
    then obtain i where i: "i < length (jobs s)" "\<forall>rp. j_stage (jobs s ! i) \<noteq> S_Done rp" by (auto simp: all_answered_def)
    obtain ord where ord: "key_order ord (que (pool s))"
      using key_order_exists [OF gw_ok_reachable [OF assms less.prems]] by blast
    obtain k c s1 where s1: "c \<noteq> GiveUp" "gw_fire h g loc ord (t + 1) (Advance k c) s = Some s1"
      using gateway_progress [OF assms less.prems i ord] by blast
    have "gw_reachable h g loc q db (t + 1) s1" using gw_next [OF less.prems _ ord s1(2)] by simp
    with less.hyps [OF fire_advance_less [OF s1(2)]] obtain n t' s' where
      "gw_drains h g loc True n (t + 1) s1 t' s'" "all_answered s'" by blast
    with drain_step [OF _ ord _ s1(2), of t True] s1(1) show ?thesis by fastforce
  qed
qed

text \<open>C4: every request comes to an end. From any reachable state, whatever the order of the steps, at
  most nine are left for each request as long as no new one arrives; until all are answered some
  request can go on without anybody giving up, so no schedule gets stuck; and there is an order in
  which nobody gives up and all are answered.\<close>

theorem requests_terminate:
  assumes "NewWithClock cap after = Inr q" and "after \<le> max_i64" and "gw_reachable h g loc q db t s"
  shows "(\<forall>patient n t' s'. gw_drains h g loc patient n t s t' s' \<longrightarrow> n \<le> 9 * length (jobs s)) \<and>
    (all_answered s \<or> (\<exists>ord now i c s'. t \<le> now \<and> key_order ord (que (pool s)) \<and> c \<noteq> GiveUp \<and>
       gw_fire h g loc ord now (Advance i c) s = Some s')) \<and>
    (\<exists>n t' s'. gw_drains h g loc True n t s t' s' \<and> all_answered s')"
proof (intro conjI)
  show "\<forall>patient n t' s'. gw_drains h g loc patient n t s t' s' \<longrightarrow> n \<le> 9 * length (jobs s)"
    using drains_bound work_left_bound [of s] by (metis add_leD1 order_trans)
  show end_reached: "\<exists>n t' s'. gw_drains h g loc True n t s t' s' \<and> all_answered s'" by (rule drains_to_end [OF assms])
  then obtain n t' s' where "gw_drains h g loc True n t s t' s'" "all_answered s'" by blast
  then show "all_answered s \<or> (\<exists>ord now i c s'. t \<le> now \<and> key_order ord (que (pool s)) \<and> c \<noteq> GiveUp \<and>
       gw_fire h g loc ord now (Advance i c) s = Some s')"
    by (cases rule: gw_drains.cases) blast+
qed

theorem requests_terminate_witness:
  "length (jobs demo_busy) = 2 \<and> \<not> all_answered demo_busy \<and>
   (\<exists>n t' s'. n \<le> 18 \<and> gw_drains demo_gateway mem_driver UTC True n 210 demo_busy t' s' \<and> all_answered s')"
proof -
  have busy: "length (jobs demo_busy) = 2" "calling (j_stage (jobs demo_busy ! 0))" using demo_busy_run by auto
  then have "\<not> all_answered demo_busy" by (auto simp: all_answered_def intro!: exI [of _ 0])
  with requests_terminate [OF demo_queue_new five_seconds demo_reached(1)] busy(1) show ?thesis by fastforce
qed

end
