(* ===== verification/Boot.thy ===== *)
theory Boot
  imports Database Public GatewayRun Live
begin

text \<open>
  The composition root (src/cmd/gateway/main.go): what \<open>run\<close> builds from a configuration, in which
  order it starts, and how it ends. The library's listener and its shutdown are events.
\<close>

section \<open>What is built\<close>

definition upstreamTimeout :: duration where
  "upstreamTimeout = 60 * second"

record http_server =
  srv_Addr :: string
  srv_routes :: "route list"
  ReadHeaderTimeout :: duration
  ReadTimeout :: duration
  WriteTimeout :: duration
  IdleTimeout :: duration

record 'db booted =
  bt_config :: config
  bt_db :: 'db
  bt_hub :: hub
  bt_pool :: queue
  bt_handler :: gateway_config
  bt_timeout :: duration
  bt_landing :: landing_server
  bt_server :: http_server

definition NewHandler :: "string \<Rightarrow> string \<Rightarrow> gateway_config" where
  "NewHandler upstream_url model =
     \<lparr>g_maxBody = defaultMaxBodyBytes, g_model = model, g_baseURL = upstream_url, g_parse = json_parse\<rparr>"

definition wire :: "(string \<Rightarrow> (string \<times> string) option) \<Rightarrow> config \<Rightarrow> 'db \<Rightarrow> queue_panic + 'db booted" where
  "wire parse_url cfg db =
     (case NewWithClock (MaxConcurrent (ConfigQueue cfg)) (QPromoteAfter (ConfigQueue cfg)) of
        Inl p \<Rightarrow> Inl p
      | Inr q \<Rightarrow>
          (let contact = NewContact parse_url (ContactEmail cfg) (ContactPhone cfg) (CompanyURL cfg);
               plan = NewPlan (PriceEUR (ConfigPlan cfg)) (VATPercent (ConfigPlan cfg));
               d = ConfigDefaults cfg
           in Inr \<lparr>bt_config = cfg, bt_db = db, bt_hub = NewHub, bt_pool = q,
                bt_handler = NewHandler (CaddyUpstreamURL cfg) (EmbedModel cfg), bt_timeout = upstreamTimeout,
                bt_landing = NewLanding (EmbedModel cfg) (D_BatchMax d) (D_RatePerMin d) (D_TokenBudget d) plan contact,
                bt_server =
                  \<lparr>srv_Addr = ListenAddr cfg, srv_routes = Router_Handler (wire_router cfg),
                   ReadHeaderTimeout = 10 * second, ReadTimeout = 30 * second,
                   WriteTimeout = upstreamTimeout + 15 * second, IdleTimeout = 120 * second\<rparr>\<rparr>))"

section \<open>Start and end\<close>

text \<open>What happens to the listener first: it ends with an error, it was closed, or a signal arrives and
  \<open>Shutdown\<close> returns.\<close>

datatype serving = ListenEnded string | ServerClosed | Signalled "string option"

datatype exit = Clean | NotStarted start_error | ServeError string | ShutdownError string | Crashed queue_panic

definition serve :: "serving \<Rightarrow> exit" where
  "serve ev =
     (case ev of
        ListenEnded e \<Rightarrow> ServeError e
      | ServerClosed \<Rightarrow> Clean
      | Signalled None \<Rightarrow> Clean
      | Signalled (Some e) \<Rightarrow> ShutdownError e)"

text \<open>What was listening, if anything, and how the program ended.\<close>

definition run ::
    "(string \<Rightarrow> (string \<times> string) option) \<Rightarrow> config_error + config \<Rightarrow> 'db sqlite \<Rightarrow> serving \<Rightarrow>
     'db booted option \<times> exit" where
  "run parse_url loaded sq ev =
     (case open_database loaded sq of
        Inl e \<Rightarrow> (None, NotStarted e)
      | Inr (cfg, db) \<Rightarrow>
          (case wire parse_url cfg db of
             Inl p \<Rightarrow> (None, Crashed p)
           | Inr b \<Rightarrow> (Some b, serve ev)))"

text \<open>The status the process exits with; a panic ends it with the runtime's own.\<close>

definition gateway_main :: "exit \<Rightarrow> int" where
  "gateway_main ended = (case ended of Clean \<Rightarrow> 0 | Crashed p \<Rightarrow> 2 | _ \<Rightarrow> 1)"

section \<open>The liveness probe\<close>

definition healthz :: text_reply where
  "healthz = \<lparr>tr_status = 200, tr_headers = [(''Content-Type'', ''application/json'')],
     tr_text = lt ''{~qstatus~q:~qok~q}''\<rparr>"

lemma healthz_is_json: "json_parse (tr_text healthz) = Some (JObj [(''status'', JStr ''ok'')])"
  unfolding healthz_def by code_simp

section \<open>Properties\<close>

lemma wire_loaded:
  assumes "cfg_validate parse_url cfg = None"
  shows "\<exists>b. wire parse_url cfg db = Inr b \<and> bt_config b = cfg \<and> bt_db b = db \<and>
    NewWithClock (MaxConcurrent (ConfigQueue cfg)) (QPromoteAfter (ConfigQueue cfg)) = Inr (bt_pool b)"
proof -
  have "\<exists>q. NewWithClock (MaxConcurrent (ConfigQueue cfg)) (QPromoteAfter (ConfigQueue cfg)) = Inr q"
    using cfg_validate_None(8,9) [OF assms] by (simp add: NewWithClock_def)
  then obtain q where "NewWithClock (MaxConcurrent (ConfigQueue cfg)) (QPromoteAfter (ConfigQueue cfg)) = Inr q" by blast
  then show ?thesis by (simp add: wire_def Let_def)
qed

text \<open>A duration the parser returns fits into 64 bits.\<close>

lemma loaded_promote_after:
  assumes "Load parse_duration parse_url dotenv = Inr cfg" and "\<forall>s d. parse_duration s = Some d \<longrightarrow> d \<le> max_i64"
  shows "QPromoteAfter (ConfigQueue cfg) \<le> max_i64"
  using assms five_seconds
  by (auto simp: Load_def Let_def read_config_def envDuration_def split: option.splits if_splits)

text \<open>C35: what listens is what was configured. Whatever the configuration and the database do, the
  program never crashes while it starts, and it listens only with a validated configuration and a
  migrated database; and then, in every interleaving of the requests it serves, never more of
  them are in their upstream call than the configured number.\<close>

theorem booted_gateway_bounded:
  assumes "\<forall>s d. parse_duration s = Some d \<longrightarrow> d \<le> max_i64"
    and "run parse_url (Load parse_duration parse_url dotenv) sq ev = (listening, ended)"
    and "\<forall>b. listening = Some b \<longrightarrow> gw_reachable (bt_handler b) g loc (bt_pool b) (bt_db b) t s"
  shows "(\<forall>p. ended \<noteq> Crashed p) \<and>
    (case listening of
       None \<Rightarrow> \<exists>e. ended = NotStarted e
     | Some b \<Rightarrow> ended = serve ev \<and> cfg_validate parse_url (bt_config b) = None \<and>
         (\<exists>db0. gorm_open sq (DBPath (bt_config b)) = Inr db0 \<and> goose_up sq ''.'' db0 = (None, bt_db b)) \<and>
         int (card {i. i < length (jobs s) \<and> calling (j_stage (jobs s ! i))}) \<le> MaxConcurrent (ConfigQueue (bt_config b)))"
proof (cases "open_database (Load parse_duration parse_url dotenv) sq")
  case (Inl e)
  then show ?thesis using assms(2) by (auto simp: run_def)
next
  case (Inr p)
  obtain cfg db where p: "p = (cfg, db)" by (cases p)
  obtain db0 where l: "Load parse_duration parse_url dotenv = Inr cfg" and o: "Open sq (DBPath cfg) = Inr db0"
    and m: "Migrate sq db0 = (None, db)"
    using Inr by (auto simp: p open_database_Inr)
  obtain b where b: "wire parse_url cfg db = Inr b" "bt_config b = cfg" "bt_db b = db"
    "NewWithClock (MaxConcurrent (ConfigQueue cfg)) (QPromoteAfter (ConfigQueue cfg)) = Inr (bt_pool b)"
    using wire_loaded [OF Load_validates [OF l]] by metis
  have r: "listening = Some b" "ended = serve ev" using assms(2) Inr b(1) by (auto simp: run_def p)
  have "int (card {i. i < length (jobs s) \<and> calling (j_stage (jobs s ! i))}) \<le> MaxConcurrent (ConfigQueue cfg)"
    using calling_bound [OF gw_ok_reachable [OF b(4) loaded_promote_after [OF l assms(1)]
      assms(3) [rule_format, OF r(1)]]] .
  moreover have "gorm_open sq (DBPath cfg) = Inr db0" using o by (auto simp: Open_def split: sum.splits)
  ultimately show ?thesis
    using r b(2,3) Load_validates [OF l] Migrate_None [OF m]
    by (auto simp: serve_def split: serving.splits option.splits)
qed

definition demo_config :: config where
  "demo_config = read_config (\<lambda>_. None) sample_env"

lemma demo_load: "Load (\<lambda>_. None) sample_url (Some sample_env) = Inr demo_config"
proof -
  have "cfg_validate sample_url (read_config (\<lambda>_. None) sample_env) = None" by code_simp
  then show ?thesis by (simp add: Load_def Let_def demo_config_def)
qed

theorem booted_gateway_bounded_witness:
  "case run sample_url (Load (\<lambda>_. None) sample_url (Some sample_env)) (memory_sqlite sample_db) (Signalled None) of
     (None, _) \<Rightarrow> False
   | (Some b, ended) \<Rightarrow> ended = Clean \<and> MaxConcurrent (ConfigQueue (bt_config b)) = 10 \<and>
       int (card {i. i < length (jobs (gw_start (bt_pool b) 5 (bt_db b))) \<and>
         calling (j_stage (jobs (gw_start (bt_pool b) 5 (bt_db b)) ! i))}) \<le> 10"
proof -
  obtain b where b: "wire sample_url demo_config sample_db = Inr b" "bt_config b = demo_config"
    using wire_loaded [OF Load_validates [OF demo_load]] by metis
  have r: "run sample_url (Load (\<lambda>_. None) sample_url (Some sample_env)) (memory_sqlite sample_db) (Signalled None) = (Some b, Clean)"
    by (simp add: run_def demo_load open_memory b serve_def)
  have "MaxConcurrent (ConfigQueue demo_config) = 10" unfolding demo_config_def by code_simp
  moreover have "gw_reachable (bt_handler b) mem_driver UTC (bt_pool b) (bt_db b) 5 (gw_start (bt_pool b) 5 (bt_db b))"
    by (rule gw_first)
  ultimately show ?thesis
    using booted_gateway_bounded [OF _ r, of mem_driver UTC 5 "gw_start (bt_pool b) 5 (bt_db b)"] b(2) r by simp
qed

end
