(* ===== verification/Dashboard.thy ===== *)
theory Dashboard
  imports Templates
begin

text \<open>
  What the dashboard writes (src/internal/web/server.go): the replies of its two page handlers with
  \<open>render\<close>, \<open>http.Redirect\<close>, \<open>http.Error\<close> and \<open>http.NotFound\<close>, and the one way in which they panic.
\<close>

section \<open>Replies\<close>

definition http_Error :: "string \<Rightarrow> int \<Rightarrow> text_reply" where
  "http_Error message status =
     \<lparr>tr_status = status,
      tr_headers = [(''Content-Type'', ''text/plain; charset=utf-8''), (''X-Content-Type-Options'', ''nosniff'')],
      tr_text = message @ lt ''~n''\<rparr>"

definition http_Redirect :: "string \<Rightarrow> text_reply" where
  "http_Redirect url =
     \<lparr>tr_status = 303, tr_headers = [(''Location'', url), (''Content-Type'', ''text/html; charset=utf-8'')],
      tr_text = lt ''<a href=~q'' @ url @ lt ''~q>See Other</a>.~n~n''\<rparr>"

text \<open>A failure to render is only logged; the header is out already.\<close>

datatype page_response = Written text_reply | RenderFailed string | PagePanic

definition render_page :: "templ_rt \<Rightarrow> page_vm \<Rightarrow> page_response" where
  "render_page rt vm =
     (case Page vm of
        None \<Rightarrow> PagePanic
      | Some ps \<Rightarrow>
          (case render rt ps [] of
             Inl e \<Rightarrow> RenderFailed e
           | Inr html \<Rightarrow> Written \<lparr>tr_status = 200, tr_headers = [(''Content-Type'', ''text/html; charset=utf-8'')],
               tr_text = html\<rparr>))"

text \<open>The view model of the index without keys: all its other fields are zero.\<close>

definition empty_page :: "string \<Rightarrow> queue_vm \<Rightarrow> page_vm" where
  "empty_page model q =
     \<lparr>P_Model = model, P_TotalKeys = 0, P_TokensTodayLabel = '''', P_HasKeys = False, P_LiveURL = '''',
      P_Queue = Some q, P_Keys = [], P_Detail = None\<rparr>"

fun write_page :: "templ_rt \<Rightarrow> page_reply \<Rightarrow> page_response" where
  "write_page rt (Redirect url) = Written (http_Redirect url)"
| "write_page rt (PageReply vm) = render_page rt vm"
| "write_page rt (EmptyPage model None) = PagePanic"
| "write_page rt (EmptyPage model (Some q)) = render_page rt (empty_page model q)"
| "write_page rt PageNotFound = Written (http_Error ''404 page not found'' 404)"
| "write_page rt PageUnavailable = Written (http_Error ''dashboard unavailable'' 500)"

section \<open>What can fail\<close>

lemma detail_drawn: "TokenBudget k \<noteq> 0 \<Longrightarrow> detailVM comma k rep \<noteq> None"
  by (simp add: detailVM_def Let_def)

lemma page_parts:
  assumes "buildPage comma tenths model (Inr ks) sumf st loc now i = Inr vm" and "buildQueue comma tenths st = Some q"
  shows "(\<exists>ps. Page vm = Some ps) \<or> (\<exists>k \<in> set ks. ID k = i \<and> TokenBudget k = 0)"
proof -
  obtain found where f: "filter (\<lambda>k. ID k = i) ks = found" "found \<noteq> []"
    "P_Queue vm = buildQueue comma tenths st" "buildDetail comma sumf loc (last found) now = Inr (P_Detail vm)"
    using assms(1) by (auto simp: buildPage_def Let_def split: sum.splits list.splits)
  then have k: "last found \<in> set ks" "ID (last found) = i" using last_in_set [OF f(2)] unfolding f(1) [symmetric] by auto
  obtain rep where "detailVM comma (last found) rep = P_Detail vm"
    using f(4) by (auto simp: buildDetail_def split: sum.splits)
  then have "P_Detail vm \<noteq> None \<or> TokenBudget (last found) = 0" using detail_drawn by metis
  with k show ?thesis using assms(2) f(3) by (auto simp: Page_def)
qed

text \<open>A read that fails is the only reason for the dashboard to be unavailable.\<close>

lemma today_totals_Inl: "today_totals sumf t0 now ks = Inl e \<Longrightarrow> \<exists>k a b e. sumf k a b = Inl e"
  by (induction ks) (auto split: sum.splits)

lemma BuildReport_Inl: "BuildReport w sumr = Inl e \<Longrightarrow> \<exists>r e. sumr r = Inl e"
  by (auto simp: BuildReport_def split: sum.splits)

lemma handleKeyPage_unavailable:
  assumes "handleKeyPage comma tenths model listed sumf st loc now param = PageUnavailable"
  shows "(\<exists>e. listed = Inl e) \<or> (\<exists>k a b e. sumf k a b = Inl e)"
  using assms
  by (auto simp: handleKeyPage_def buildPage_def buildDetail_def Let_def
      split: option.splits sum.splits repo_error.splits list.splits
      dest!: today_totals_Inl BuildReport_Inl)

section \<open>Property\<close>

text \<open>C29: the dashboard's index and key pages answer, with sound markup. Whatever the pool has been through,
  whatever address was asked for and whatever the database answers, the only panic is the division of
  the meter of the key asked for, when its row has a budget of zero; a page breaks off only where
  the template library reports an error while it renders that page; everything else is a redirect, a page, not found or unavailable, the
  last only when a read failed. A page is HTML in which every element is closed where it was opened,
  whatever the keys are called, and no id occurs twice if the rows listed have different ids.\<close>

theorem dashboard_answers:
  assumes "templ_runtime rt"
    and "reachable cap after s" and "after \<le> max_i64" and "key_order ord (que s)" and "Stats ord t (que s) = Some st"
    and "pr \<in> {handleIndex comma tenths model listed st, handleKeyPage comma tenths model listed sumf st loc now param}"
  shows "case write_page rt pr of
      PagePanic \<Rightarrow> (\<exists>ks k. listed = Inr ks \<and> k \<in> set ks \<and> ParseUint param = Some (ID k) \<and> TokenBudget k = 0)
    | RenderFailed e \<Rightarrow> (\<exists>vm ps. write_page rt pr = render_page rt vm \<and> Page vm = Some ps \<and> render rt ps [] = Inl e)
    | Written r \<Rightarrow> tr_status r \<in> {200, 303, 404, 500} \<and>
        (tr_status r = 500 \<longrightarrow> (\<exists>e. listed = Inl e) \<or> (\<exists>k a b e. sumf k a b = Inl e)) \<and>
        (tr_status r = 200 \<longrightarrow> (\<exists>ids. well_formed_html (tr_text r) ids \<and>
           ((\<forall>ks. listed = Inr ks \<longrightarrow> distinct (map ID ks)) \<longrightarrow> distinct ids)))"
    (is "?goal pr")
proof -
  obtain q where q: "buildQueue comma tenths st = Some q"
    using queue_strip_drawn [OF assms(2-5)] by blast
  have page: "?goal (PageReply vm)"
    if "Page vm = Some ps" "(\<forall>ks. listed = Inr ks \<longrightarrow> distinct (map ID ks)) \<longrightarrow> distinct (map I_ID (P_Keys vm))" for vm ps
  proof (cases "render rt ps []")
    case (Inl e)
    with that(1) have failed: "render_page rt vm = RenderFailed e" by (simp add: render_page_def)
    with Inl that(1) show ?thesis by simp metis
  next
    case (Inr html)
    have "well_formed_html html (page_ids vm)"
      by (rule templ_runtime.balanced_well_formed [OF assms(1) balanced_Page [OF that(1)] Inr])
    with Inr that distinct_page_ids [of vm] show ?thesis by (auto simp: render_page_def)
  qed
  consider (index) "pr = handleIndex comma tenths model listed st"
    | (key) "pr = handleKeyPage comma tenths model listed sumf st loc now param" using assms(6) by blast
  then show ?thesis
  proof cases
    case index
    have "?goal (PageReply (empty_page model q))"
      by (rule page [of _ "the (Page (empty_page model q))"]) (simp_all add: Page_def empty_page_def)
    then have "?goal (EmptyPage model (Some q))" unfolding write_page.simps .
    with index q show ?thesis
      by (auto simp: handleIndex_def http_Redirect_def http_Error_def split: sum.splits option.splits)
  next
    case key
    show ?thesis
    proof (cases pr)
      case (PageReply vm)
      then obtain ks i where b: "listed = Inr ks" "ParseUint param = Some i"
        "buildPage comma tenths model (Inr ks) sumf st loc now i = Inr vm"
        using key by (auto simp: handleKeyPage_def buildPage_def split: option.splits sum.splits repo_error.splits)
      note ids = page_key_ids(1) [OF b(3)]
      show ?thesis
      proof (cases "Page vm")
        case None
        with page_parts [OF b(3) q] b(1,2) PageReply show ?thesis by (auto simp: render_page_def)
      next
        case (Some ps)
        have "?goal (PageReply vm)" by (rule page [OF Some]) (simp add: ids b(1))
        then show ?thesis unfolding PageReply .
      qed
    next
      case PageUnavailable
      with key handleKeyPage_unavailable [of comma tenths model listed sumf st loc now param]
      show ?thesis by (simp add: http_Error_def)
    qed (use key in \<open>auto simp: http_Error_def handleKeyPage_def split: option.splits sum.splits repo_error.splits\<close>)
  qed
qed

lemma demo_page_any:
  "\<exists>vm. buildPage Itoa Itoa ''bge-m3'' (Inr demo_keys) (SumTokens mem_driver july_db) st (fixed_zone 0) july_now 1 = Inr vm"
proof -
  let ?w = "ReportWindows (fixed_zone 0) july_now"
  have "today_totals (SumTokens mem_driver july_db) (From (Today ?w)) july_now demo_keys = Inr [100, 777]" by code_simp
  moreover have "filter (\<lambda>k. ID k = 1) demo_keys = [lifetime_key 200]" "ID (lifetime_key 200) = 1"
    by (simp_all add: demo_keys_def lifetime_key_def sample_key_def)
  ultimately show ?thesis by (simp add: buildPage_def buildDetail_def july_report Let_def del: One_nat_def)
qed

theorem dashboard_answers_witness:
  "case Stats [1, 5] (10 * second) (que demo_sys) of
     None \<Rightarrow> False
   | Some st \<Rightarrow>
       \<exists>r ids. write_page html_runtime (handleKeyPage Itoa Itoa ''bge-m3'' (Inr demo_keys) (SumTokens mem_driver july_db) st
             (fixed_zone 0) july_now ''1'') = Written r \<and> tr_status r = 200 \<and> well_formed_html (tr_text r) ids"
proof -
  let ?r = "Stats [1, 5] (10 * second) (que demo_sys)"
  have "case ?r of None \<Rightarrow> False | Some st \<Rightarrow> True" by code_simp
  then obtain st where st: "?r = Some st" by (cases ?r) auto
  let ?pr = "handleKeyPage Itoa Itoa ''bge-m3'' (Inr demo_keys) (SumTokens mem_driver july_db) st (fixed_zone 0) july_now ''1''"
  have keys: "distinct (map ID demo_keys)" "\<forall>k \<in> set demo_keys. TokenBudget k \<noteq> 0"
    by (simp_all add: demo_keys_def lifetime_key_def sample_key_def)
  note answers = dashboard_answers [OF html.templ_runtime_axioms demo_sys_reachable five_seconds demo_order st,
      of _ Itoa Itoa "''bge-m3''" "Inr demo_keys" "SumTokens mem_driver july_db" "fixed_zone 0" july_now "''1''", OF insertI2 [OF singletonI]]
  have "ParseUint ''1'' = Some 1" by code_simp
  then obtain vm where "?pr = PageReply vm" using demo_page_any [of st] by (auto simp: handleKeyPage_def)
  then have "write_page html_runtime ?pr = Written r \<Longrightarrow> tr_status r = 200" for r
    by (auto simp: render_page_def split: option.splits sum.splits)
  with answers keys show ?thesis unfolding st option.case
    by (cases "write_page html_runtime ?pr") (use html_renders in \<open>auto, metis sum.distinct(1)\<close>)
qed

end
