(* ===== verification/PublicTemplates.thy ===== *)
theory PublicTemplates
  imports Markup Public
begin

text \<open>
  The public pages' templates (src/internal/web/landing_templ.go and article_templ.go, generated
  from landing.templ and article.templ), piece by piece as the generated code writes them, and
  what they have in common with the structured data on the same page.
\<close>

section \<open>The pages\<close>

definition code_block :: "string \<Rightarrow> piece list" where
  "code_block body =
     [Begin,
      Lit (lt ''<div class=~qcode-scroll~q><pre><code>''),
      Txt body,
      Lit ''</code></pre></div>'']"

definition contactLinks :: "contact \<Rightarrow> piece list" where
  "contactLinks c =
     [Begin,
      Lit (lt ''<p class=~qcontact-row~q><a class=~qmailto~q href=~q''),
      Url (''mailto:'' @ C_Email c @ ''?subject=ragembed%20API%20raktas''),
      Lit (lt ''~q><span class=~qtick~q aria-hidden=~qtrue~q>~9</span> ''),
      Txt (C_Email c),
      Lit (lt ''</a> <a class=~qmailto~q href=~q''),
      Url (''tel:'' @ C_Phone c),
      Lit (lt ''~q><span class=~qtick~q aria-hidden=~qtrue~q>~0</span> ''),
      Txt (C_PhoneLabel c),
      Lit ''</a></p>'']"

definition planCard :: "landing_vm \<Rightarrow> piece list" where
  "planCard vm =
     [Begin,
      Lit (lt ''<div class=~qplan~q><p class=~qplan-eyebrow~q>vienas planas</p><p '' @
           lt ''class=~qplan-price~q><span class=~qplan-figure~q>''),
      Txt (PL_PriceExVAT (LV_Plan vm)),
      Lit (lt ''<span class=~qplan-currency~q>~o</span></span> '')] @
     (if HasVAT (LV_Plan vm) then
       [Lit (lt ''<span class=~qplan-vat~q>+ PVM</span> '')]
     else []) @
     [Lit (lt ''<span class=~qplan-period~q>/ m~hn.</span></p>'')] @
     (if HasVAT (LV_Plan vm) then
       [Lit (lt ''   <p class=~qplan-incl~q>''),
        Txt (PL_PriceIncVAT (LV_Plan vm)),
        Lit (lt '' ~o su PVM (''),
        Txt (PL_VATLabel (LV_Plan vm)),
        Lit '')</p>'']
     else []) @
     [Lit (lt ''<ul class=~qplan-includes~q><li><b>Tokenai ~m ''),
      Txt (LV_TokenBudget vm),
      Lit (lt ''</b>. Mokes~cio u~z apdorot~a token~a n~hra.</li><li><b>''),
      Txt (LV_RatePhrase vm),
      Lit ''</b> vienam raktui.</li><li><b>'',
      Txt (LV_BatchPhrase vm),
      Lit (lt ''</b> ~m paketais, ne po vien~a.</li></ul><p class=~qplan-cta~q><a class=~qmailto~q '' @
           lt ''href=~q#raktas~q><span class=~qtick~q aria-hidden=~qtrue~q>~7</span> Kaip gauti '' @
           lt ''rakt~a</a></p></div>'')]"

definition Landing_head :: "landing_vm \<Rightarrow> piece list" where
  "Landing_head vm =
     [Begin,
      Lit (lt ''<!doctype html><html lang=~qlt~q><head><meta charset=~qutf-8~q><meta name=~qviewport~q '' @
           lt ''content=~qwidth=device-width, initial-scale=1~q><title>ragembed ~1 embedding~u API '' @
           lt ''lietuvi~skiems tekstams</title><meta name=~qdescription~q content=~q''),
      Att (lt ''OpenAI suderinamas embedding~u API su '' @ LV_Model vm @ lt '' modeliu. J~ws~u serveriuose, su savo raktu ir limitais ~m tekstai nei~seina i~s j~ws~u '' @
           lt ''infrastrukt~wros.''),
      Lit (lt ''~q><link rel=~qcanonical~q href=~q''),
      Url (LV_BaseURL vm @ ''/''),
      Lit (lt ''~q><meta property=~qog:type~q content=~qwebsite~q><meta property=~qog:title~q '' @
           lt ''content=~qragembed ~1 embedding~u API lietuvi~skiems tekstams~q><meta '' @
           lt ''property=~qog:description~q content=~qOpenAI suderinamas embedding~u API. Tekstai '' @
           lt ''nei~seina i~s j~ws~u infrastrukt~wros.~q><meta property=~qog:url~q content=~q''),
      Att (LV_BaseURL vm @ ''/''),
      Lit (lt ''~q><meta property=~qog:locale~q content=~qlt_LT~q><link rel=~qstylesheet~q '' @
           lt ''href=~q/assets/landing.css~q>''),
      RawHTML (lt ''<script type=~qapplication/ld+json~q>'' @ LV_JSONLD vm @ ''</script>'')]"

definition Landing_start :: "landing_vm \<Rightarrow> piece list" where
  "Landing_start vm =
     [Lit (lt ''</head><body><div class=~qpage~q><header class=~qtop~q><div class=~qbrand~q><span '' @
           lt ''class=~qprompt~q aria-hidden=~qtrue~q>~2</span> <span '' @
           lt ''class=~qbrand-name~q>ragembed</span></div><span class=~qchip~q>''),
      Txt (LV_Model vm),
      Lit (lt ''</span></header><main><section class=~qhero~q><h1>Tekstas ~ieina, vektoriai '' @
           lt ''i~seina.</h1><p class=~qlede~q>Su OpenAI suderinamas embedding~u API, paremtas <b>''),
      Txt (LV_Model vm),
      Lit (lt ''</b> modeliu. Nukreipkite bet kur~i OpenAI klient~a ~i ~s~i adres~a, si~uskite tekst~u '' @
           lt ''paket~a ir atgausite vektorius. J~ws~u raktas turi savo limitus ir savo token~u '' @
           lt ''biud~zet~a.</p><div class=~qendpoint~q role=~qgroup~q aria-label=~qBazinis '' @
           lt ''adresas~q><span class=~qendpoint-label~q>bazinis adresas</span> <code '' @
           lt ''class=~qendpoint-url~q>''),
      Txt (LV_BaseURL vm),
      Lit (lt ''</code></div></section><section aria-labelledby=~qpradzia~q><h2 id=~qpradzia~q><span '' @
           lt ''class=~qtick~q>01</span> Greita prad~zia</h2><p>Viena u~zklausa, vienas vektorius. '' @
           lt ''~Ira~sykite rakt~a, kur~i jums i~sdav~h operatorius.</p>'')] @
     code_block (''curl '' @ LV_BaseURL vm @ lt ''/v1/embeddings ~b~n  -H ~qAuthorization: Bearer sk-rag-~8~q ~b~n  -H ~qContent-Type: '' @
           lt ''application/json~q ~b~n  -d ~k{~qmodel~q:~q'' @ LV_Model vm @ lt ''~q,~qinput~q:~qlabas rytas~q}~k'') @
     [Lit (lt ''</section><section aria-labelledby=~qpaketai~q><h2 id=~qpaketai~q><span '' @
           lt ''class=~qtick~q>02</span> Paketinis apdorojimas</h2><p>Si~uskite masyv~a ir apdorosite '' @
           ''iki <b>''),
      Txt (LV_BatchMax vm),
      Lit (lt ''</b> tekst~u viena u~zklausa ~m daug grei~ciau nei po vien~a. Vir~sijus limit~a '' @
           lt ''u~zklausa atmetama su <code>400</code>, o ne tyliai apkarpoma.</p>'')] @
     code_block (''curl '' @ LV_BaseURL vm @ lt ''/v1/embeddings ~b~n  -H ~qAuthorization: Bearer sk-rag-~8~q ~b~n  -H ~qContent-Type: '' @
           lt ''application/json~q ~b~n  -d ~k{~qmodel~q:~q'' @ LV_Model vm @ lt ''~q,~qinput~q:[~qpirmas tekstas~q,~qantras tekstas~q,~qtre~cias tekstas~q]}~k'') @
     [Lit (lt ''<p class=~qnote~q>Vektoriai gr~i~zta <b>ta pa~cia tvarka, kuria juos i~ssiunt~hte</b>, '' @
           lt ''tod~hl galite i~s karto priskirti juos savo ~ira~sams.</p></section><section '' @
           lt ''aria-labelledby=~qnative~q><h2 id=~qnative~q><span class=~qtick~q>03</span> Natyvus '' @
           lt ''Ollama adresas</h2><p>Jei j~ws~u klientas kalba su Ollama, o ne su OpenAI, naudokite '' @
           lt ''<code>/api/embed</code>. Tas pats raktas, tie patys limitai, tie patys paketai ~m '' @
           lt ''skiriasi tik atsakymo strukt~wra.</p>'')] @
     code_block (''curl '' @ LV_BaseURL vm @ lt ''/api/embed ~b~n  -H ~qAuthorization: Bearer sk-rag-~8~q ~b~n  -H ~qContent-Type: '' @
           lt ''application/json~q ~b~n  -d ~k{~qmodel~q:~q'' @ LV_Model vm @ lt ''~q,~qinput~q:[~qpirmas tekstas~q,~qantras tekstas~q]}~k'') @
     [Lit (lt ''</section><section aria-labelledby=~qsdk~q><h2 id=~qsdk~q><span '' @
           lt ''class=~qtick~q>04</span> Su OpenAI SDK</h2><p>Atskiro kliento nereikia ~m pakeiskite '' @
           lt ''bazin~i adres~a ir dirbkite toliau.</p>'')] @
     code_block (lt ''from openai import OpenAI~n~nclient = OpenAI(base_url=~q'' @ LV_BaseURL vm @ lt ''/v1~q, api_key=~qsk-rag-~8~q)~n~nvektoriai = client.embeddings.create(~n    model=~q'' @ LV_Model vm @ lt ''~q,~n    input=[~qpirmas tekstas~q, ~qantras tekstas~q],~n)~nprint(len(vektoriai.data), '' @
           lt ''~qvektoriai~q)'')"

definition Landing_contract :: "landing_vm \<Rightarrow> piece list" where
  "Landing_contract vm =
     [Lit (lt ''</section><section aria-labelledby=~qlimitai~q><h2 id=~qlimitai~q><span '' @
           lt ''class=~qtick~q>05</span> K~a leid~zia j~ws~u raktas</h2><div class=~qlimits~q><div '' @
           lt ''class=~qlimit~q><dt>paketas</dt><dd>''),
      Txt (LV_BatchMax vm),
      Lit (lt '' <span class=~qunit~q>tekstai / u~zklausa</span></dd></div><div '' @
           lt ''class=~qlimit~q><dt>da~znis</dt><dd>''),
      Txt (LV_RatePerMin vm),
      Lit (lt '' <span class=~qunit~q>u~zklausos / min.</span></dd></div><div '' @
           lt ''class=~qlimit~q><dt>biud~zetas</dt><dd>pagal rakt~a <span '' @
           lt ''class=~qunit~q>tokenai</span></dd></div></div><p class=~qnote~q>Tai numatytieji limitai '' @
           lt ''naujam raktui; j~ws~u gali skirtis ~m juos nustato operatorius kiekvienam raktui '' @
           lt ''atskirai. Kiekvienas atsakymas raktui su biud~zetu turi '' @
           lt ''<code>X-Token-Budget-Remaining</code> antra~st~e, tod~hl savo sunaudojim~a matote '' @
           lt ''patys, nieko neklausdami.</p></section><section aria-labelledby=~qkaina~q><h2 '' @
           lt ''id=~qkaina~q><span class=~qtick~q>06</span> Kiek kainuoja</h2><p>Vienas planas ir viena '' @
           lt ''suma per m~hnes~i. Mokes~cio u~z token~a n~hra, tod~hl perindeksavimas ~m da~zniausia '' @
           lt ''i~slaid~u staigmena vektorin~hse sistemose ~m s~askaitos nekei~cia.</p>'')] @
     planCard vm @
     [Lit (lt ''<p class=~qnote~q>S~askaita i~sra~soma m~hnesiui. Jei reikia didesnio da~znio ar '' @
           lt ''didesni~u paket~u, para~sykite ~m limitai nustatomi kiekvienam raktui '' @
           lt ''atskirai.</p></section><section aria-labelledby=~qapkrova~q><h2 id=~qapkrova~q><span '' @
           lt ''class=~qtick~q>07</span> Kai serveris apkrautas</h2><p>U~zklausos rikiuojamos ~i eil~e, '' @
           lt ''o ne atmetamos. Esant apkrovai j~ws~u u~zklausa laukia laisvos vietos, o ne krenta su '' @
           lt ''klaida ~m staigus srautas virsta ilgesniu atsakymo laiku, o ne klaid~u lavina, tod~hl '' @
           lt ''kartoti u~zklaus~u nereikia. Niekas nelieka pamir~stas: ilgiau laukusi u~zklausa '' @
           lt ''praleid~ziama pirmiau u~z auk~stesnio prioriteto sraut~a.</p></section><section '' @
           lt ''aria-labelledby=~qkodai~q><h2 id=~qkodai~q><span class=~qtick~q>08</span> K~a rei~skia '' @
           lt ''atsakym~u kodai</h2><div class=~qtable-scroll~q><table '' @
           lt ''class=~qstatuses~q><thead><tr><th scope=~qcol~q>Kodas</th><th '' @
           lt ''scope=~qcol~q>Reik~sm~h</th><th scope=~qcol~q>K~a daryti</th></tr></thead> <tbody>'')] @
     concat (map (\<lambda>s.
       [Lit (lt ''<tr><th scope=~qrow~q>''),
        Css [Cls ''code'', Cls (S_Tone s)],
        Lit (lt ''<span class=~q''),
        CssAtt [Cls ''code'', Cls (S_Tone s)],
        Lit (lt ''~q>''),
        Txt (S_Code s),
        Lit ''</span></th><td>'',
        Txt (S_Meaning s),
        Lit (lt ''</td><td class=~qdim~q>''),
        Txt (S_Action s),
        Lit ''</td></tr>'']) (LV_Statuses vm)) @
     [Lit (lt ''</tbody></table></div><p class=~qnote~q>Klaidos gr~a~zinamos OpenAI formatu (<code>''),
      Txt (lt ''{~qerror~q:{~qmessage~q,~qtype~q}}''),
      Lit (lt ''</code>), tod~hl OpenAI SDK apdoroja jas ~iprastu b~wdu.</p></section><section '' @
           lt ''aria-labelledby=~qraktas~q><h2 id=~qraktas~q><span class=~qtick~q>09</span> Kaip gauti '' @
           lt ''rakt~a</h2><p>Raktus i~sduoda operatorius ~m savitarnos registracijos n~hra. '' @
           lt ''Para~sykite mums ir trumpai nurodykite, kiek ma~zdaug tekst~u planuojate apdoroti, kad '' @
           lt ''paketo, da~znio ir biud~zeto limitai b~wt~u nustatyti prasmingai.</p>'')]"

definition Landing_foot :: "landing_vm \<Rightarrow> piece list" where
  "Landing_foot vm =
     contactLinks (LV_Contact vm) @
     [Lit (lt ''<p class=~qnote~q>Rakt~a laikykite paslaptyje: saugoma tik jo mai~sa (hash), tod~hl '' @
           lt ''pamesto rakto atkurti ne~imanoma ~m tik i~sduoti nauj~a.</p></section><section '' @
           lt ''aria-labelledby=~qdaugiau~q><h2 id=~qdaugiau~q><span class=~qtick~q>10</span> Nesate '' @
           lt ''tikri, ar jums to reikia?</h2><p>Para~s~hme i~ssam~u straipsn~i apie tai, kas yra '' @
           lt ''embeddingai, kada j~u verta imtis, kada tikrai neverta, ir k~a daryti su asmens '' @
           lt ''duomenimis pagal BDAR.</p><p><a class=~qmailto~q href=~q''),
      Url articlePath,
      Lit (lt ''~q><span class=~qtick~q aria-hidden=~qtrue~q>~7</span> Kada j~ws~u ~imonei reikia '' @
           lt ''embedding~u API</a></p></section></main><footer class=~qfoot~q><span>''),
      Txt (LV_Model vm),
      Lit (lt '' embeddingai ~1 <a class=~qadmin-link~q href=~q''),
      Url (C_CompanyURL (LV_Contact vm)),
      Lit (lt ''~q>''),
      Txt (C_CompanyName (LV_Contact vm)),
      Lit (lt ''</a></span> <a class=~qadmin-link~q href=~q''),
      Url (LV_AdminPath vm),
      Lit (lt ''~q>operatoriaus skydelis ~7</a></footer></div></body></html>'')]"

definition Landing :: "landing_vm \<Rightarrow> piece list" where
  "Landing vm = Landing_head vm @ Landing_start vm @ Landing_contract vm @ Landing_foot vm"

definition Article_head :: "article_vm \<Rightarrow> piece list" where
  "Article_head vm =
     [Begin,
      Lit (lt ''<!doctype html><html lang=~qlt~q><head><meta charset=~qutf-8~q><meta name=~qviewport~q '' @
           lt ''content=~qwidth=device-width, initial-scale=1~q><title>Kada ~imonei reikia embedding~u '' @
           lt ''API (ir kada ne)</title><meta name=~qdescription~q content=~qKas yra embeddingai '' @
           lt ''paprastais ~zod~ziais, kada semantin~h paie~ska pasiteisina, kada u~ztenka ~iprastos, '' @
           lt ''ir k~a daryti su asmens duomenimis pagal BDAR.~q><link rel=~qcanonical~q href=~q''),
      Url (AV_CanonicalURL vm),
      Lit (lt ''~q><meta property=~qog:type~q content=~qarticle~q><meta property=~qog:title~q '' @
           lt ''content=~qKada j~ws~u ~imonei reikia embedding~u API (ir kada nereikia)~q><meta '' @
           lt ''property=~qog:description~q content=~qKas yra embeddingai, kada j~u verta imtis, kada '' @
           lt ''ne, ir k~a daryti su asmens duomenimis.~q><meta property=~qog:url~q content=~q''),
      Att (AV_CanonicalURL vm),
      Lit (lt ''~q><meta property=~qog:locale~q content=~qlt_LT~q><link rel=~qstylesheet~q '' @
           lt ''href=~q/assets/landing.css~q>''),
      RawHTML (lt ''<script type=~qapplication/ld+json~q>'' @ AV_JSONLD vm @ ''</script>''),
      Lit (lt ''</head><body><div class=~qpage~q><header class=~qtop~q><a class=~qbrand brand-link~q '' @
           lt ''href=~q/~q><span class=~qprompt~q aria-hidden=~qtrue~q>~2</span> <span '' @
           lt ''class=~qbrand-name~q>ragembed</span></a> <span class=~qchip~q>''),
      Txt (AV_Model vm)]"

definition Article_prose :: "article_vm \<Rightarrow> piece list" where
  "Article_prose vm =
     [Lit (lt ''</span></header><main><article><nav class=~qcrumbs~q aria-label=~qNar~symo kelias~q><a '' @
           lt ''href=~q/~q>Prad~zia</a> <span aria-hidden=~qtrue~q>/</span> '' @
           ''<span>Straipsnis</span></nav><h1>''),
      Txt articleHeadline,
      Lit (lt ''</h1><p class=~qlede~q>Trumpai: embeddingai verti d~hmesio tada, kai ~zmon~hs '' @
           lt ''nebesuranda savo dokument~u, nes neatsp~hja tikslaus ~zod~zio. Jei j~ws~u dokument~u '' @
           lt ''~simtas ir jie tvarkingai pavadinti, jums grei~ciausiai reikia tvarkos, o ne dirbtinio '' @
           lt ''intelekto. Toliau ~m kaip atskirti vien~a atvej~i nuo kito.</p><nav class=~qtoc~q '' @
           lt ''aria-label=~qTurinys~q><h2 class=~qtoc-title~q>Turinys</h2><ol><li><a '' @
           lt ''href=~q#kas-yra~q>Kas yra embeddingai paprastais ~zod~ziais</a></li><li><a '' @
           lt ''href=~q#kada-reikia~q>Penki po~zymiai, kad jums j~u reikia</a></li><li><a '' @
           lt ''href=~q#kada-nereikia~q>Kada j~u tikrai nereikia</a></li><li><a href=~q#bdar~q>Asmens '' @
           lt ''duomenys, BDAR ir debesija</a></li><li><a href=~q#lietuviu~q>Ar tai veikia su lietuvi~u '' @
           lt ''kalba</a></li><li><a href=~q#kaina~q>Kiek tai kainuoja</a></li><li><a '' @
           lt ''href=~q#kaip-prijungti~q>Kaip prijungti prie esamos sistemos</a></li><li><a '' @
           lt ''href=~q#apkrova~q>Kas nutinka esant apkrovai</a></li><li><a href=~q#duk~q>Da~zniausi '' @
           lt ''klausimai</a></li></ol></nav><section aria-labelledby=~qkas-yra~q><h2 '' @
           lt ''id=~qkas-yra~q>Kas yra embeddingai paprastais ~zod~ziais</h2><p>Embeddingas ~m tai '' @
           lt ''teksto reik~sm~h, u~zra~syta skai~ci~u eilute. Pana~sios reik~sm~hs tekstai gauna '' @
           lt ''pana~sias eilutes, tod~hl kompiuteris gali palyginti prasm~e, o ne '' @
           lt ''raides.</p><p>Skirtumas matomas i~s karto. ~Iprasta paie~ska ie~sko sutampan~ci~u '' @
           lt ''~zod~zi~u: ~ira~sius <i>~lkiek kainuoja pristatymas~r</i>, dokumentas pavadinimu '' @
           lt ''<i>~lSiuntimo ~ikainiai~r</i> nerandamas, nes nesutampa n~h vienas ~zodis. Embedding~u '' @
           lt ''paie~ska tok~i dokument~a randa, nes abi fraz~hs rei~skia ma~zdaug t~a pat~i.</p><p '' @
           lt ''class=~qnote~q>Praktinis patarimas: geriausi rezultatai gaunami sujungus abu b~wdus ~m '' @
           lt ''rakta~zod~zi~u paie~ska tiksliems terminams ir kodams, embeddingai klausimams, '' @
           lt ''suformuluotams laisvai. Atsisakyti ~iprastos paie~skos nereikia.</p></section><section '' @
           lt ''aria-labelledby=~qkada-reikia~q><h2 id=~qkada-reikia~q>Penki po~zymiai, kad jums j~u '' @
           lt ''reikia</h2><p>I~s praktikos, embeddingai atsiperka, kai atpa~z~istate bent du i~s ~si~u '' @
           lt ''punkt~u:</p><ol class=~qreasons~q><li><b>~Zmon~hs klausia koleg~u to, kas jau '' @
           lt ''para~syta.</b> Dokumentas egzistuoja, bet j~i lengviau gauti per Teams nei per '' @
           lt ''paie~sk~a.</li><li><b>Turinio daugiau, nei vienas ~zmogus gali perskaityti.</b> '' @
           lt ''T~wkstan~ciai sutar~ci~u, biliet~u, protokol~u ar produkt~u apra~s~u ~m tiek, kad '' @
           lt ''r~w~siuoti rankomis nebe~imanoma.</li><li><b>Tie patys dalykai vadinami skirtingai.</b> '' @
           lt ''Klientai ra~so ~lgr~a~zinimas~r, dokumentuose para~syta ~lprek~hs atsisakymas~r, o '' @
           lt ''sistemoje tai ~lRMA~r.</li><li><b>Norite atsakym~u, o ne nuorod~u s~ara~so.</b> Tam '' @
           lt ''reikia RAG, o RAG prasideda nuo embedding~u: pirma surandamos tinkamos teksto atkarpos, '' @
           lt ''tik paskui kalbos modelis i~s j~u suformuluoja atsakym~a.</li><li><b>Duomenys negali '' @
           lt ''i~seiti i~s ~imon~hs.</b> Tai atmeta dal~i debesijos paslaug~u, bet ne pa~ci~a '' @
           lt ''technologij~a.</li></ol></section><section aria-labelledby=~qkada-nereikia~q><h2 '' @
           lt ''id=~qkada-nereikia~q>Kada j~u tikrai nereikia</h2><p>Vertingiau sutaupyti j~ws~u '' @
           lt ''pinigus nei parduoti nereikaling~a sprendim~a, tod~hl s~a~ziningai: yra atvej~u, kai '' @
           lt ''embeddingai tik prideda darbo.</p><ul class=~qreasons~q><li><b>Dokument~u nedaug.</b> '' @
           lt ''Iki poros ~simt~u tvarkingai pavadint~u fail~u paprasta paie~ska veikia puikiai ir '' @
           lt ''nereikalauja prie~zi~wros.</li><li><b>Reikia tikslaus atitikmens.</b> S~askaitos '' @
           lt ''numeris, asmens kodas, br~wk~sninis kodas ~m ~cia reikia tikslios paie~skos duomen~u '' @
           lt ''baz~hje. Semantinis pana~sumas tokiu atveju yra ne privalumas, o '' @
           lt ''rizika.</li><li><b>Tikroji problema ~m netvarka.</b> Jei tas pats dokumentas guli '' @
           lt ''penkiose vietose penkiomis versijomis, paie~ska tik grei~ciau parodys penkias '' @
           lt ''skirtingas tiesas.</li><li><b>Niekas neatsakingas u~z rezultat~a.</b> Paie~skos kokyb~e '' @
           lt ''reikia matuoti ir gerinti. Be ~seimininko sistema tyliai '' @
           lt ''prast~hja.</li></ul></section><section aria-labelledby=~qbdar~q><h2 id=~qbdar~q>Asmens '' @
           lt ''duomenys, BDAR ir debesija</h2><p>Da~zniausias klausimas, kur~i girdime: <i>ar galima '' @
           lt ''si~usti savo dokumentus ~i OpenAI?</i> Trumpas atsakymas ~m tai duomen~u perdavimas '' @
           lt ''tre~ciajai ~saliai, tod~hl reikia teisinio pagrindo, sutarties su duomen~u tvarkytoju '' @
           lt ''ir ai~skumo, kur fizi~skai vyksta apdorojimas.</p><p>Tai i~ssprend~ziama, bet '' @
           lt ''u~ztrunka. Tod~hl daliai ~imoni~u papras~ciau pasirinkti variant~a, kuriame klausimo '' @
           lt ''apskritai nekyla: modelis sukasi j~ws~u pa~ci~u serveryje, tekstai i~s infrastrukt~wros '' @
           lt ''nei~seina, ir n~hra ko derinti su niekuo.</p><p class=~qnote~q>Tai ne teisin~h '' @
           lt ''konsultacija. Bet prakti~skai skirtumas tarp ~lreikia ~ivertinti perdavim~a~r ir '' @
           lt ''~lperdavimo n~hra~r da~znai nulemia, ar projektas startuos ~s~i ketvirt~i, ar '' @
           lt ''kit~a.</p></section><section aria-labelledby=~qlietuviu~q><h2 id=~qlietuviu~q>Ar tai '' @
           lt ''veikia su lietuvi~u kalba</h2><p>Taip. <b>''),
      Txt (AV_Model vm),
      Lit (lt ''</b> yra daugiakalbis modelis ir lietuvi~sk~a tekst~a apdoroja tiesiogiai ~m versti ~i '' @
           lt ''angl~u kalb~a prie~s vektorizavim~a nereikia.</p><p>Tai svarbiau, nei atrodo. Vertimas '' @
           lt ''prie~s vektorizavim~a praranda dal~i reik~sm~hs, ypa~c specifin~hje terminijoje, ir '' @
           lt ''prideda dar vien~a viet~a, kurioje gali ~ivykti klaida. Modelis, kuris lietuvi~skai '' @
           lt ''~lsupranta~r i~s karto, tokio tarpinio ~zingsnio nereikalauja.</p></section><section '' @
           lt ''aria-labelledby=~qkaina~q><h2 id=~qkaina~q>Kiek tai kainuoja</h2><p>Debesijos paslaugos '' @
           lt ''ima mokest~i u~z kiekvien~a apdorot~a token~a. Tai patogu prad~zioje ir nemalonu '' @
           lt ''v~hliau: kaina auga kartu su duomen~u kiekiu, o kiekvienas perindeksavimas ~m pakeitus '' @
           lt ''model~i ar teksto skaidymo taisykles ~m rei~skia s~askait~a i~s naujo.</p><p>Savame '' @
           lt ''serveryje mokate u~z technik~a ir jos prie~zi~wr~a, o u~zklaus~u kiekis kainos '' @
           lt ''nekei~cia. L~w~zio ta~skas priklauso ne tiek nuo dokument~u kiekio, kiek nuo to, kaip '' @
           lt ''da~znai juos perindeksuojate. Eksperiment~u etape tai vyksta da~zniau, nei '' @
           lt ''planuojama.</p><p>~Sios paslaugos kaina ~m <b>''),
      Txt (priceSentence (AV_Plan vm)),
      Lit (lt ''</b>. Mokes~cio u~z apdorot~a token~a n~hra, tod~hl perindeksavimas s~askaitos '' @
           lt ''nekei~cia. Limitai ir s~alygos ~m <a href=~q/#kaina~q>prad~zios puslapyje</a>.</p><p '' @
           lt ''class=~qnote~q>Praktinis matas: pasi~zi~wr~hkite, kiek tekst~u turite ~siandien, ir '' @
           lt ''padauginkite i~s to, kiek kart~u per metus tikit~hs keisti indeksavimo logik~a. Jei '' @
           lt ''atsakymas didesnis u~z kelis kartus ~m skai~ciuokite abu '' @
           lt ''variantus.</p></section><section aria-labelledby=~qkaip-prijungti~q><h2 '' @
           lt ''id=~qkaip-prijungti~q>Kaip prijungti prie esamos sistemos</h2><p>S~asaja suderinama su '' @
           lt ''OpenAI, tod~hl da~zniausiai u~ztenka pakeisti bazin~i adres~a ir rakt~a. Esamas kodas, '' @
           lt ''biblioteka ir vektori~u saugykla lieka tie patys.</p>'')] @
     code_block (''curl '' @ AV_BaseURL vm @ lt ''/v1/embeddings ~b~n  -H ~qAuthorization: Bearer sk-rag-~8~q ~b~n  -H ~qContent-Type: '' @
           lt ''application/json~q ~b~n  -d ~k{~qmodel~q:~q'' @ AV_Model vm @ lt ''~q,~qinput~q:[~qpirmas tekstas~q,~qantras tekstas~q]}~k'') @
     [Lit (lt ''<p>Viena u~zklausa apdoroja iki <b>''),
      Txt (AV_BatchMax vm)]"

definition Article_foot :: "article_vm \<Rightarrow> piece list" where
  "Article_foot vm =
     [Lit (lt ''</b> tekst~u, o vektoriai gr~i~zta ta pa~cia tvarka, kuria juos i~ssiunt~hte. Visa '' @
           lt ''technin~h dokumentacija ~m <a href=~q/~q>prad~zios puslapyje</a>.</p></section><section '' @
           lt ''aria-labelledby=~qapkrova~q><h2 id=~qapkrova~q>Kas nutinka esant apkrovai</h2><p>Kai '' @
           lt ''vienu metu ateina daugiau u~zklaus~u, nei serveris gali apdoroti, jos rikiuojamos ~i '' @
           lt ''eil~e, o ne atmetamos. Staigus srautas virsta ilgesniu atsakymo laiku, o ne klaid~u '' @
           lt ''lavina ~m nereikia nei kartoti u~zklaus~u, nei gaudyti klaid~u.</p><p>Eil~h turi '' @
           ''prioritetus: interaktyvus srautas aptarnaujamas pirmiau nei naktinis paketinis '' @
           lt ''apdorojimas. Ta~ciau ilgiau laukusi u~zklausa praleid~ziama pirmiau u~z auk~stesnio '' @
           lt ''prioriteto sraut~a, tod~hl paketiniai darbai neu~zstringa neribotam '' @
           lt ''laikui.</p></section><section aria-labelledby=~qduk~q><h2 id=~qduk~q>Da~zniausi '' @
           lt ''klausimai</h2><dl class=~qfaq~q>'')] @
     concat (map (\<lambda>item.
       [Lit ''<dt>'',
        Txt (FQ_Q item),
        Lit ''</dt><dd>'',
        Txt (FQ_A item),
        Lit ''</dd>'']) (AV_FAQ vm)) @
     [Lit (lt ''</dl></section><section aria-labelledby=~qpradeti~q class=~qcta~q><h2 '' @
           lt ''id=~qpradeti~q>Nuo ko prad~hti</h2><p>Papras~ciausias pirmas ~zingsnis ~m paimti '' @
           lt ''~simt~a tikr~u savo dokument~u ir patikrinti, ar paie~ska randa tai, ko ~zmon~hs i~s '' @
           lt ''tikr~uj~u klausia. Tam u~ztenka rakto ir keli~u valand~u.</p>'')] @
     contactLinks (AV_Contact vm) @
     [Lit (lt ''</section></article></main><footer class=~qfoot~q><span>''),
      Txt (AV_Model vm),
      Lit (lt '' embeddingai ~1 <a class=~qadmin-link~q href=~q''),
      Url (C_CompanyURL (AV_Contact vm)),
      Lit (lt ''~q>''),
      Txt (C_CompanyName (AV_Contact vm)),
      Lit (lt ''</a></span> <a class=~qadmin-link~q href=~q/~q>~x technin~h '' @
           ''dokumentacija</a></footer></div></body></html>'')]"

definition Article :: "article_vm \<Rightarrow> piece list" where
  "Article vm = Article_head vm @ Article_prose vm @ Article_foot vm"

section \<open>What they open and close\<close>

lemma scan_json: "inert s \<Longrightarrow> scan s (Script, st, ids) = (Script, st, ids)"
  by (induction s) (auto simp: inert_def)

lemma balanced_code_block: "balanced (code_block body) []"
  unfolding balanced_def code_block_def by (simp add: html_steps cong: left_to_right)

lemma balanced_contactLinks: "balanced (contactLinks c) []"
  unfolding balanced_def contactLinks_def by (simp add: html_steps cong: left_to_right)

lemma balanced_planCard: "balanced (planCard vm) []"
  unfolding balanced_def planCard_def by (simp add: html_steps cong: left_to_right)

lemmas public_parts = balanced_check [OF balanced_code_block] balanced_check [OF balanced_contactLinks]
  balanced_check [OF balanced_planCard]

lemma check_Landing_head:
  "inert (LV_JSONLD vm) \<Longrightarrow>
   check (Landing_head vm) (Data, st, ids) = (Data, ''head'' # ''html'' # st, ids)"
  unfolding Landing_head_def by (simp add: scan_json html_steps cong: left_to_right)

lemma check_concat_list:
  "(\<And>x. x \<in> set xs \<Longrightarrow> \<forall>ids. check (f x) (Data, st, ids) = (Data, st, ids)) \<Longrightarrow>
   check (concat (map f xs)) (Data, st, ids) = (Data, st, ids)"
  by (induction xs) simp_all

lemma check_Landing_start:
  "check (Landing_start vm) (Data, ''head'' # ''html'' # st, ids) =
   (Data, ''section'' # ''main'' # ''div'' # ''body'' # ''html'' # st,
    rev [''pradzia'', ''paketai'', ''native'', ''sdk''] @ ids)"
  by code_simp

lemma check_Landing_contract:
  "check (Landing_contract vm) (Data, ''section'' # st, ids) =
   (Data, ''section'' # st, rev [''limitai'', ''kaina'', ''apkrova'', ''kodai'', ''raktas''] @ ids)"
  unfolding Landing_contract_def by (simp add: public_parts check_concat_list html_steps cong: left_to_right)

lemma check_Landing_foot:
  "check (Landing_foot vm) (Data, ''section'' # ''main'' # ''div'' # ''body'' # ''html'' # st, ids) =
   (Data, st, ''daugiau'' # ids)"
  by code_simp

definition landing_ids :: "string list" where
  "landing_ids = [''pradzia'', ''paketai'', ''native'', ''sdk'', ''limitai'', ''kaina'', ''apkrova'', ''kodai'', ''raktas'', ''daugiau'']"

lemma balanced_Landing: "inert (LV_JSONLD vm) \<Longrightarrow> balanced (Landing vm) landing_ids"
  by (simp add: balanced_def Landing_def check_Landing_head check_Landing_start check_Landing_contract
      check_Landing_foot landing_ids_def)

lemma check_Article_head:
  "inert (AV_JSONLD vm) \<Longrightarrow>
   check (Article_head vm) (Data, st, ids) =
   (Data, ''span'' # ''header'' # ''div'' # ''body'' # ''html'' # st, ids)"
  unfolding Article_head_def by (simp add: scan_json html_steps cong: left_to_right)

lemma check_Article_prose:
  "check (Article_prose vm) (Data, ''span'' # ''header'' # st, ids) =
   (Data, ''b'' # ''p'' # ''section'' # ''article'' # ''main'' # st,
    rev [''kas-yra'', ''kada-reikia'', ''kada-nereikia'', ''bdar'', ''lietuviu'', ''kaina'', ''kaip-prijungti''] @ ids)"
  by code_simp

lemma check_Article_foot:
  "check (Article_foot vm) (Data, ''b'' # ''p'' # ''section'' # ''article'' # ''main'' # ''div'' # ''body'' # ''html'' # st, ids) =
   (Data, st, rev [''apkrova'', ''duk'', ''pradeti''] @ ids)"
  unfolding Article_foot_def by (simp add: public_parts check_concat_list html_steps cong: left_to_right)

definition article_ids :: "string list" where
  "article_ids = [''kas-yra'', ''kada-reikia'', ''kada-nereikia'', ''bdar'', ''lietuviu'', ''kaina'', ''kaip-prijungti'',
     ''apkrova'', ''duk'', ''pradeti'']"

lemma balanced_Article: "inert (AV_JSONLD vm) \<Longrightarrow> balanced (Article vm) article_ids"
  by (simp add: balanced_def Article_def check_Article_head check_Article_prose check_Article_foot article_ids_def)

section \<open>The structured data of the article\<close>

lemma valid_articleFAQ:
  "valid_utf8 model \<Longrightarrow> valid_utf8 (priceSentence plan) \<Longrightarrow>
   list_all (\<lambda>it. valid_utf8 (FQ_Q it) \<and> valid_utf8 (FQ_A it)) (articleFAQ model plan)"
  by (simp add: articleFAQ_def valid_append valid_lt valid_ascii_Cons ascii_valid del: lt.simps)

lemma article_graph_wf:
  assumes "valid_utf8 (AV_CanonicalURL vm)" "valid_contact (AV_Contact vm)"
    "list_all (\<lambda>it. valid_utf8 (FQ_Q it) \<and> valid_utf8 (FQ_A it)) (AV_FAQ vm)"
  shows "wf_json (article_graph vm)" "depth (article_graph vm) \<le> maxNestingDepth"
proof -
  have org: "wf_json (organizationJSONLD (AV_Contact vm))"
    using assms(2) by (simp add: organizationJSONLD_def valid_contact_def ascii_valid)
  have "wf_json (question it)" if "valid_utf8 (FQ_Q it) \<and> valid_utf8 (FQ_A it)" for it
    using that by (simp add: question_def ascii_valid)
  then have "list_all wf_json (map question (AV_FAQ vm))" using assms(3) by (auto simp: list_all_iff)
  moreover have "valid_utf8 articleHeadline" by (simp add: articleHeadline_def valid_lt del: lt.simps)
  ultimately show "wf_json (article_graph vm)"
    using assms(1) org
    by (simp add: article_graph_def thing_def Let_def ascii_valid valid_append valid_lt del: lt.simps)
  have mono: "depth v \<le> n \<Longrightarrow> depth v \<le> Suc n" for v n by simp
  have o: "depth (organizationJSONLD (AV_Contact vm)) \<le> Suc (Suc (Suc 0))"
    by (simp add: organizationJSONLD_def depth_JMap)
  have q: "list_all (\<lambda>v. depth v \<le> Suc (Suc 0)) (map question (AV_FAQ vm))"
    by (simp add: list_all_iff question_def)
  have t: "depth (thing n) \<le> Suc (Suc 0)" for n by (simp add: thing_def)
  have str: "depth (JStr n) \<le> m" for n m by simp
  have "depth (article_graph vm) \<le> Suc (Suc (Suc (Suc (Suc (Suc 0)))))"
    unfolding article_graph_def Let_def using q t str mono [OF o]
    by (simp add: depth_JMap depth_JArr o del: depth.simps)
  then show "depth (article_graph vm) \<le> maxNestingDepth" by (simp add: maxNestingDepth_def)
qed

text \<open>What a consumer of the structured data reads as questions and answers.\<close>

definition faq_entry :: "json \<Rightarrow> (string \<times> string) option" where
  "faq_entry v =
     (case (field ''name'' v, Option.bind (field ''acceptedAnswer'' v) (field ''text'')) of
        (Some (JStr q), Some (JStr a)) \<Rightarrow> Some (q, a) | _ \<Rightarrow> None)"

definition faq_entries :: "json \<Rightarrow> (string \<times> string) option list" where
  "faq_entries doc =
     (case Option.bind (Option.bind (field ''@graph'' doc) (item 1)) (field ''mainEntity'') of
        Some (JArr vs) \<Rightarrow> map faq_entry vs | _ \<Rightarrow> [])"

lemma faq_entry_question [simp]: "faq_entry (question it) = Some (FQ_Q it, FQ_A it)"
  by (simp add: faq_entry_def question_def)

lemma faq_entries_graph: "faq_entries (article_graph vm) = map (\<lambda>it. Some (FQ_Q it, FQ_A it)) (AV_FAQ vm)"
  by (simp add: faq_entries_def article_graph_def Let_def)

lemma article_shows_faq: "it \<in> set (AV_FAQ vm) \<Longrightarrow> Txt (FQ_Q it) \<in> set (Article vm) \<and> Txt (FQ_A it) \<in> set (Article vm)"
  unfolding Article_def Article_foot_def by (auto simp del: lt.simps)

lemma valid_priceSentence: "0 \<le> price \<Longrightarrow> 0 \<le> vat \<Longrightarrow> valid_utf8 (priceSentence (NewPlan price vat))"
  by (simp add: priceSentence_def NewPlan_def Let_def two_digits_def valid_append valid_lt ascii_valid ascii_Itoa
      valid_ascii_Cons del: lt.simps)

section \<open>The figure on the page\<close>












section \<open>Properties\<close>

text \<open>C39: neither public page can be broken from outside. Whatever host a visitor sends and whatever
  the model and the contact are, both pages are HTML in which every element is closed where it was
  opened and the structured data ends with its own script element; no id occurs twice, and the
  section the structured offer points to is there.\<close>

theorem public_pages_safe:
  assumes "templ_runtime rt"
    and "render rt (Landing (build comma s r)) [] = Inr html" and "render rt (Article (buildArticle s r)) [] = Inr ahtml"
  shows "well_formed_html html landing_ids \<and> well_formed_html ahtml article_ids \<and>
    distinct landing_ids \<and> distinct article_ids \<and> ''kaina'' \<in> set landing_ids"
proof -
  have "inert (LV_JSONLD (build comma s r))" "inert (AV_JSONLD (buildArticle s r))"
    by (simp_all add: build_def buildArticle_def Let_def page_json_inert)
  then show ?thesis
    using templ_runtime.balanced_well_formed [OF assms(1) balanced_Landing assms(2)]
      templ_runtime.balanced_well_formed [OF assms(1) balanced_Article assms(3)]
    by (simp add: landing_ids_def article_ids_def)
qed

definition hostile_request :: page_request where
  "hostile_request = \<lparr>pr_tls = False, pr_forwarded_proto = ''https'', pr_host = ''</script><b id=x>''\<rparr>"

theorem public_pages_safe_witness:
  "\<exists>html ahtml. render html_runtime (Landing (build Itoa demo_site hostile_request)) [] = Inr html \<and>
     render html_runtime (Article (buildArticle demo_site hostile_request)) [] = Inr ahtml \<and>
     well_formed_html html landing_ids \<and> well_formed_html ahtml article_ids"
proof -
  obtain html ahtml where "render html_runtime (Landing (build Itoa demo_site hostile_request)) [] = Inr html"
    "render html_runtime (Article (buildArticle demo_site hostile_request)) [] = Inr ahtml"
    using html_renders by blast
  with public_pages_safe [OF html.templ_runtime_axioms this] show ?thesis by blast
qed

text \<open>C38: the structured data claims nothing the page does not say. Parsed back from the article, it
  holds exactly the questions and answers of the view model, in their order, and each question and
  each answer is one of the texts the page's template writes.\<close>

theorem faq_data_visible:
  assumes "L_plan s = NewPlan price vat" and "0 \<le> price" and "0 \<le> vat"
    and "valid_utf8 (L_model s)" and "valid_contact (L_contact s)"
    and "valid_utf8 (pr_host r)" and "vm = buildArticle s r"
  shows "\<exists>doc. json_parse (AV_JSONLD vm) = Some doc \<and>
    faq_entries doc = map (\<lambda>it. Some (FQ_Q it, FQ_A it)) (articleFAQ (L_model s) (L_plan s)) \<and>
    (\<forall>q a. Some (q, a) \<in> set (faq_entries doc) \<longrightarrow> Txt q \<in> set (Article vm) \<and> Txt a \<in> set (Article vm))"
proof -
  let ?vm = "vm\<lparr>AV_JSONLD := ''''\<rparr>"
  have json: "AV_JSONLD vm = Marshal (article_graph ?vm)" and faq: "AV_FAQ vm = articleFAQ (L_model s) (L_plan s)"
    by (simp_all add: assms(7) buildArticle_def Let_def articleJSONLD_def)
  have "valid_utf8 (baseURL r @ articlePath)" using assms(6)
    by (simp add: baseURL_def Let_def valid_ascii_Cons valid_append articlePath_def ascii_valid)
  then have vm: "valid_utf8 (AV_CanonicalURL ?vm)" "valid_contact (AV_Contact ?vm)"
    using assms(5) by (simp_all add: assms(7) buildArticle_def Let_def)
  have "list_all (\<lambda>it. valid_utf8 (FQ_Q it) \<and> valid_utf8 (FQ_A it)) (AV_FAQ ?vm)"
    using valid_articleFAQ [OF assms(4), of "L_plan s"] assms(2,3) by (simp add: faq assms(1) valid_priceSentence)
  note wf = article_graph_wf [OF vm this]
  have "json_parse (AV_JSONLD vm) = Some (article_graph ?vm)"
    using json_parse_Marshal [OF wf, of "[]"] by (simp add: json ends_def skip_ws_def)
  moreover have "faq_entries (article_graph ?vm) = map (\<lambda>it. Some (FQ_Q it, FQ_A it)) (AV_FAQ vm)"
    by (simp add: faq_entries_graph)
  ultimately show ?thesis using article_shows_faq [of _ vm] by (auto simp: faq)
qed

theorem faq_data_visible_witness:
  "\<exists>doc. json_parse (AV_JSONLD (buildArticle demo_site hostile_request)) = Some doc \<and>
     length (faq_entries doc) = 7 \<and>
     (\<forall>q a. Some (q, a) \<in> set (faq_entries doc) \<longrightarrow>
        Txt q \<in> set (Article (buildArticle demo_site hostile_request)))"
proof -
  have "valid_utf8 (pr_host hostile_request)" by (simp add: hostile_request_def ascii_valid)
  moreover have "length (articleFAQ m p) = 7" for m p by (simp add: articleFAQ_def del: lt.simps)
  ultimately show ?thesis
    using faq_data_visible [OF demo_site_valid(1) _ _ demo_site_valid(2,3) _ refl, of hostile_request] by fastforce
qed



end
