(* ===== verification/Pacing.thy ===== *)
theory Pacing
  imports GatewayRun
begin

text \<open>
  The rate limit of the gateway at work (src/internal/ratelimit/ratelimit.go under
  src/internal/proxy/handler.go): the requests of a key that got past the limiter are a ledger of the
  contract \<open>fixed_window\<close>, whatever the other requests do in between.
\<close>

section \<open>The ledger\<close>

fun past_rate :: "stage \<Rightarrow> bool" where
  "past_rate (S_Budget key n) = True"
| "past_rate (S_Admit key n st) = True"
| "past_rate (S_Wait key n st) = True"
| "past_rate (S_Call key n st) = True"
| "past_rate (S_Free key n st res) = True"
| "past_rate (S_Account key n st up) = True"
| "past_rate _ = False"

fun is_send :: "'db effect \<Rightarrow> bool" where
  "is_send (Send p b) = True"
| "is_send _ = False"

fun_cases is_sendE: "is_send e"

definition sent :: "'db job \<Rightarrow> bool" where
  "sent j \<longleftrightarrow> list_ex is_send (j_effects j)"

definition of_key :: "uint \<Rightarrow> request \<Rightarrow> bool" where
  "of_key k r \<longleftrightarrow> (case req_key r of None \<Rightarrow> False | Some key \<Rightarrow> ID key = k)"

text \<open>When a request asked the limiter.\<close>

definition asked_at :: "'db gateway \<Rightarrow> nat \<Rightarrow> instant" where
  "asked_at s i = w_allow_now (j_world (jobs s ! i))"

definition counted :: "uint \<Rightarrow> 'db job \<Rightarrow> bool" where
  "counted k j \<longleftrightarrow> of_key k (j_req j) \<and> (past_rate (j_stage j) \<or> sent j)"

definition ledger_of :: "uint \<Rightarrow> 'db gateway \<Rightarrow> nat set" where
  "ledger_of k s = {i. i < length (jobs s) \<and> counted k (jobs s ! i)}"

text \<open>Every limit is an \<open>int\<close>, and those of the key \<open>k\<close>, which may be retuned, are from 1 to \<open>L\<close>.\<close>

definition rate_terms :: "uint \<Rightarrow> int \<Rightarrow> 'db gateway \<Rightarrow> bool" where
  "rate_terms k L s \<longleftrightarrow> (\<forall>i < length (jobs s). \<forall>key. req_key (j_req (jobs s ! i)) = Some key \<longrightarrow>
     RatePerMin key \<le> max_i64 \<and> (ID key = k \<longrightarrow> 1 \<le> RatePerMin key \<and> RatePerMin key \<le> L))"

section \<open>What a step does to it\<close>

lemma advance_other:
  assumes "advance h g loc ord now c i s = Some s'" "i < length (jobs s)" "\<And>key n. j_stage (jobs s ! i) \<noteq> S_Rate key n"
    and "job_ok h g (jobs s ! i)"
  shows "\<exists>j'. jobs s' = (jobs s)[i := j'] \<and> gw_limiter s' = gw_limiter s \<and> (counted k j' \<longrightarrow> counted k (jobs s ! i)) \<and>
    w_allow_now (j_world j') = w_allow_now (j_world (jobs s ! i))"
proof (cases "j_stage (jobs s ! i)")
  case S_Start
  with assms show ?thesis
    by (auto simp: advance_def Let_def counted_def sent_def job_ok_def split: sum.splits)
next
  case (S_Rate key n)
  then show ?thesis using assms(3) [of key n] by simp
next
  case (S_Budget key n)
  with assms show ?thesis
    by (auto simp: advance_def Let_def step_budget_def counted_def)
next
  case (S_Admit key n st)
  with assms show ?thesis
    by (auto simp: advance_def Let_def step_enter_def admit_def counted_def split: option.splits phase.splits)
next
  case (S_Wait key n st)
  with assms show ?thesis
    by (auto simp: advance_def Let_def step_wait_def admit_def counted_def split: choice.splits)
next
  case (S_Call key n st)
  with assms show ?thesis
    by (auto simp: advance_def Let_def step_call_def counted_def split: choice.splits)
next
  case (S_Free key n st res)
  with assms show ?thesis
    by (auto simp: advance_def Let_def step_release_def counted_def)
next
  case (S_Account key n st up)
  with assms show ?thesis
    by (auto simp: advance_def Let_def step_account_def counted_def)
next
  case (S_Finish rp)
  with assms show ?thesis
    by (auto simp: advance_def Let_def step_release_def counted_def sent_def)
next
  case (S_Done rp)
  with assms show ?thesis by (simp add: advance_def)
qed

text \<open>The step that asks the limiter charges exactly the requests it lets through.\<close>

lemma advance_rate:
  assumes "advance h g loc ord now c i s = Some s'" "i < length (jobs s)" "j_stage (jobs s ! i) = S_Rate key n"
    and "job_ok h g (jobs s ! i)"
  defines "r \<equiv> Allow (gw_limiter s) now (ID key) (RatePerMin key)"
  shows "gw_limiter s' = snd r" "asked_at s' j = (if j = i then now else asked_at s j)"
    "ledger_of k s' = (if ID key = k \<and> Allowed (fst r) then insert i (ledger_of k s) else ledger_of k s)"
    "i \<notin> ledger_of k s" "req_key (j_req (jobs s ! i)) = Some key"
proof -
  have old: "j_effects (jobs s ! i) = []" "check_request (g_maxBody h) (g_parse h) (j_req (jobs s ! i)) = Inr (key, n)"
    using assms(3,4) by (simp_all add: job_ok_def)
  from old(2) show k: "req_key (j_req (jobs s ! i)) = Some key"
    unfolding check_request_Inr by (simp add: well_formed_def)
  show not: "i \<notin> ledger_of k s" using old(1) assms(3) by (simp add: ledger_of_def counted_def sent_def)
  obtain rp lim where c: "check_rate (gw_limiter s) now key = (rp, lim)" by fastforce
  then have lim: "lim = snd r" "rp = None \<longleftrightarrow> Allowed (fst r)"
    by (auto simp: check_rate_def r_def split: prod.splits if_splits)
  have s': "s' = step_rate now key n i (jobs s ! i) s" using assms(1,3) by (simp add: advance_def)
  then show "gw_limiter s' = snd r" using c lim by (simp add: step_rate_def)
  show "asked_at s' j = (if j = i then now else asked_at s j)"
    using assms(2) by (simp add: s' step_rate_def c asked_at_def nth_update_at)
  show "ledger_of k s' = (if ID key = k \<and> Allowed (fst r) then insert i (ledger_of k s) else ledger_of k s)"
    using not lim(2) assms(2) k old(1)
    by (auto simp: s' step_rate_def c ledger_of_def counted_def of_key_def sent_def nth_list_update split: option.splits)
qed

section \<open>The invariant\<close>

lemma rate_terms_back:
  assumes "gw_fire h g loc ord now e s = Some s'" "\<forall>i < length (jobs s). job_ok h g (jobs s ! i)" "rate_terms k L s'"
  shows "rate_terms k L s"
  unfolding rate_terms_def
proof (intro allI impI)
  fix i key assume i: "i < length (jobs s)" "req_key (j_req (jobs s ! i)) = Some key"
  with requests_kept [OF assms(1,2)] have "i < length (jobs s')" "req_key (j_req (jobs s' ! i)) = Some key" by simp_all
  with assms(3) show "RatePerMin key \<le> max_i64 \<and> (ID key = k \<longrightarrow> 1 \<le> RatePerMin key \<and> RatePerMin key \<le> L)"
    unfolding rate_terms_def by blast
qed

lemma paced_reachable:
  assumes "gw_reachable h g loc q db t s" "rate_terms k L s" "1 \<le> L" "L \<le> max_i64"
  shows "rl.paced L (ledger_of k s) (asked_at s) (gw_limiter s) k t"
  using assms
proof (induction rule: gw_reachable.induct)
  case (gw_first t0)
  have "ledger_of k (gw_start q t0 db) = {}" by (simp add: gw_start_def ledger_of_def)
  then show ?case
    using rl.paced_start [of Map.empty k L] gw_first by (simp add: gw_start_def)
next
  case (gw_next t s now ord e s')
  have ok: "\<forall>i < length (jobs s). job_ok h g (jobs s ! i)" using jobs_ok_reachable [OF gw_next.hyps(1)] by blast
  have IH: "rl.paced L (ledger_of k s) (asked_at s) (gw_limiter s) k t"
    using gw_next rate_terms_back [OF gw_next.hyps(4) ok] by blast
  show ?case
  proof (cases e)
    case (Submit r)
    then have "s' = submit r s" using gw_next.hyps by simp
    then have "ledger_of k s' = ledger_of k s" "gw_limiter s' = gw_limiter s"
      "\<forall>i \<in> ledger_of k s. asked_at s' i = asked_at s i"
      by (auto simp: submit_def ledger_of_def counted_def sent_def asked_at_def nth_append less_Suc_eq)
    then show ?thesis
      using rl.paced_fewer [OF IH, of "ledger_of k s'" "asked_at s'" now] gw_next.hyps(2) by simp
  next
    case (Advance i c)
    with gw_next.hyps have i: "i < length (jobs s)" "advance h g loc ord now c i s = Some s'"
      by (auto split: if_splits)
    note job = ok [rule_format, OF i(1)]
    show ?thesis
    proof (cases "\<exists>key n. j_stage (jobs s ! i) = S_Rate key n")
      case False
      then obtain j' where j': "jobs s' = (jobs s)[i := j']" "gw_limiter s' = gw_limiter s"
        "counted k j' \<longrightarrow> counted k (jobs s ! i)" "w_allow_now (j_world j') = w_allow_now (j_world (jobs s ! i))"
        using advance_other [OF i(2,1) _ job, of k] by blast
      then have "rl.paced L (ledger_of k s') (asked_at s') (gw_limiter s) k now"
        using i(1) gw_next.hyps(2)
        by (intro rl.paced_fewer [OF IH]) (auto simp: ledger_of_def asked_at_def nth_list_update)
      with j'(2) show ?thesis by simp
    next
      case True
      then obtain key n where st: "j_stage (jobs s ! i) = S_Rate key n" by blast
      note r = advance_rate [OF i(2,1) st job]
      have at: "asked_at s' = (asked_at s)(i := now)" using r(2) by auto
      have lim: "RatePerMin key \<le> max_i64" "ID key = k \<Longrightarrow> 1 \<le> RatePerMin key \<and> RatePerMin key \<le> L"
        using rate_terms_back [OF gw_next.hyps(4) ok gw_next.prems(1)] i(1) r(5) by (auto simp: rate_terms_def)
      show ?thesis
      proof (cases "ID key = k")
        case True
        with rl.paced_call [OF IH _ _ _ gw_next.prems(3) r(4), of now "RatePerMin key"] lim gw_next.hyps(2)
        show ?thesis by (simp only: r(1,3) at simp_thms)
      next
        case False
        have "rl.paced L (ledger_of k s) (asked_at s) (snd (Allow (gw_limiter s) now (ID key) (RatePerMin key))) k now"
          using rl.paced_other [OF IH _ lim(1), of "ID key" now] False
            rl.paced_fewer [of L "ledger_of k s" "asked_at s" _ k t "ledger_of k s" "asked_at s" now] gw_next.hyps(2)
          by simp
        then have "rl.paced L (ledger_of k s) ((asked_at s)(i := now))
            (snd (Allow (gw_limiter s) now (ID key) (RatePerMin key))) k now"
          by (rule rl.paced_fewer) (use r(4) in auto)
        then show ?thesis using False by (simp only: r(1,3) at simp_thms if_False)
      qed
    qed
  qed
qed

section \<open>Property\<close>

text \<open>C8: no minute exceeds twice the rate. Whatever the interleaving and the waiting in the queue, of
  the requests of a key that asked the limiter within any one minute fewer than two limits' worth
  are ever sent to the backends, even where the key was retuned in between.\<close>

theorem minute_bounded:
  assumes "gw_reachable h g loc q db t s" and "rate_terms k L s" and "1 \<le> L" and "L \<le> max_i64"
  shows "int (card {i. i < length (jobs s) \<and> of_key k (j_req (jobs s ! i)) \<and> sent (jobs s ! i) \<and>
    a \<le> asked_at s i \<and> asked_at s i < a + Window}) < 2 * L"
proof -
  have p: "rl.paced L (ledger_of k s) (asked_at s) (gw_limiter s) k t"
    by (rule paced_reachable [OF assms])
  let ?S = "{i. i < length (jobs s) \<and> of_key k (j_req (jobs s ! i)) \<and> sent (jobs s ! i) \<and>
    a \<le> asked_at s i \<and> asked_at s i < a + Window}"
  have "?S \<subseteq> {i \<in> ledger_of k s. a \<le> asked_at s i \<and> asked_at s i < a + Window}"
    by (auto simp: ledger_of_def counted_def)
  moreover have "finite (ledger_of k s)" by (simp add: ledger_of_def)
  ultimately have "int (card ?S) \<le> grants (ledger_of k s) (asked_at s) a (a + Window)"
    by (simp add: grants_def card_mono)
  also have "\<dots> < 2 * L" using p by (simp add: rl.paced_def)
  finally show ?thesis .
qed

lemma demo_answered_asked:
  "map (\<lambda>j. (req_key (j_req j), sent j, w_allow_now (j_world j))) (jobs demo_answered) =
     [(Some (lifetime_key 1000), True, 205), (Some (lifetime_key 1000), True, 206)]"
proof -
  have "case demo_gw_play (two_requests @ two_answers) (200, gw_start demo_queue 200 spent_db) of None \<Rightarrow> False | Some (t, s) \<Rightarrow>
      map (\<lambda>j. (req_key (j_req j), sent j, w_allow_now (j_world j))) (jobs s) =
        [(Some (lifetime_key 1000), True, 205), (Some (lifetime_key 1000), True, 206)]"
    by code_simp
  then show ?thesis by (simp add: demo_answered_def split: option.splits prod.splits)
qed

theorem minute_bounded_witness:
  "{i. i < length (jobs demo_answered) \<and> of_key 1 (j_req (jobs demo_answered ! i)) \<and> sent (jobs demo_answered ! i) \<and>
     200 \<le> asked_at demo_answered i \<and> asked_at demo_answered i < 200 + Window} = {0, 1} \<and>
   int (card {0 :: nat, 1}) < 2 * RatePerMin (lifetime_key 1000)"
proof -
  let ?js = "jobs demo_answered"
  have len: "length ?js = 2" using arg_cong [OF demo_answered_asked, of length] by simp
  have at: "(req_key (j_req (?js ! i)), sent (?js ! i), asked_at demo_answered i) =
      (Some (lifetime_key 1000), True, if i = 0 then 205 else 206)" if "i < 2" for i
    using arg_cong [OF demo_answered_asked, of "\<lambda>xs. xs ! i"] that len by (auto simp: asked_at_def less_2_cases_iff)
  then have S: "{i. i < length ?js \<and> of_key 1 (j_req (?js ! i)) \<and> sent (?js ! i) \<and>
      200 \<le> asked_at demo_answered i \<and> asked_at demo_answered i < 200 + Window} = {0, 1}"
    by (force simp: len of_key_def lifetime_key_def sample_key_def less_2_cases_iff split: if_splits)
  have terms: "rate_terms 1 100 demo_answered"
    using at by (auto simp: rate_terms_def len lifetime_key_def sample_key_def)
  have "int (card {0 :: nat, 1}) < 2 * 100"
    using minute_bounded [OF demo_reached(2) terms, of 200] unfolding S by simp
  then show ?thesis by (intro conjI S) (simp add: lifetime_key_def sample_key_def)
qed

text \<open>The bound is attained: with a limit of two, three of these calls fall into one minute.\<close>

lemma minute_bound_tight:
  "map snd (allow_run Allow Map.empty [(0, 7, 2), (Window - 1, 7, 2), (Window, 7, 2), (Window + 1, 7, 2)]) =
     [True, True, True, True]"
  by code_simp

end
