(* ===== verification/Service.thy ===== *)
theory Service
  imports Boot Dashboard PublicTemplates Pacing
begin

text \<open>
  The whole service: how a request the server accepts reaches its handler, through the routers
  (src/internal/httpapi/router.go, src/internal/web/server.go, landing.go), the guards and the request's
  context (src/internal/proxy/context.go). Which pattern chi picks is an argument, with the law that
  what it picks matches.
\<close>

section \<open>Requests\<close>

text \<open>\<open>ht_basic\<close> is what \<open>r.BasicAuth()\<close> finds. A path whose escapes chi would route undecoded
  (\<open>RawPath\<close>) is left out.\<close>

record http_request =
  ht_method :: string
  ht_path :: string
  ht_authorization :: string
  ht_basic :: "(string \<times> string) option"
  ht_page :: page_request
  ht_body :: string
  ht_broken :: bool

definition WithAPIKey :: "request \<Rightarrow> apikey \<Rightarrow> request" where
  "WithAPIKey r k = r\<lparr>req_key := Some k\<rparr>"

definition APIKeyFrom :: "request \<Rightarrow> apikey option" where
  "APIKeyFrom r = req_key r"

text \<open>What the proxy's handler sees of a request nobody has authenticated yet.\<close>

definition api_request :: "http_request \<Rightarrow> request" where
  "api_request rq =
     \<lparr>req_key = None, req_path = ht_path rq, req_body = ht_body rq, req_broken = ht_broken rq\<rparr>"

section \<open>Routers\<close>

text \<open>A router is given methods and patterns, and names the position of the one it picked.\<close>

type_synonym mux = "(string option \<times> path_pattern) list \<Rightarrow> string \<Rightarrow> string \<Rightarrow> nat option"

fun fits :: "string \<Rightarrow> string \<Rightarrow> string option \<times> path_pattern \<Rightarrow> bool" where
  "fits meth path (m, p) \<longleftrightarrow> (m = None \<or> m = Some meth) \<and> matches p path"

locale router_mux =
  fixes pick :: mux
  assumes picked: "pick ps meth path = Some i \<Longrightarrow> i < length ps \<and> fits meth path (ps ! i)"
begin

lemma picked_fits:
  "pick (map f rs) meth path = Some i \<Longrightarrow> i < length rs \<and> rs ! i \<in> set rs \<and> fits meth path (f (rs ! i))"
  using picked [of "map f rs"] by fastforce

end

text \<open>A router that takes the first pattern that fits.\<close>

fun first_fit :: mux where
  "first_fit [] meth path = None"
| "first_fit (p # ps) meth path = (if fits meth path p then Some 0 else map_option Suc (first_fit ps meth path))"

interpretation first: router_mux first_fit
proof
  fix ps meth path i
  show "first_fit ps meth path = Some i \<Longrightarrow> i < length ps \<and> fits meth path (ps ! i)"
    by (induction ps arbitrary: i) (auto split: if_splits)
qed

datatype dashboard_page = IndexPage | KeyPage | KeyLive | DashboardAsset

definition Server_Handler :: "(string option \<times> path_pattern \<times> dashboard_page) list" where
  "Server_Handler =
     [(Some ''GET'', Exact ''/'', IndexPage), (Some ''GET'', Param ''/keys/'' '''', KeyPage),
      (Some ''GET'', Param ''/keys/'' ''/live'', KeyLive), (None, Under ''/assets/'', DashboardAsset)]"

text \<open>Every handler of the landing site is a GET, but for the stylesheet's.\<close>

definition landing_method :: "page_id \<Rightarrow> string option" where
  "landing_method page = (if page = AssetFile then None else Some ''GET'')"

section \<open>Serving\<close>

text \<open>What the library provides, and the world at the moments the request reads it: the database of
  the guard and of the pages, the pool's figures, the clock, and the world of the proxy's stages.\<close>

record 'db environment =
  env_mux :: mux
  env_sha256 :: "string \<Rightarrow> string"
  env_comma :: "int \<Rightarrow> string"
  env_tenths :: "duration \<Rightarrow> string"
  env_templ :: templ_rt
  env_driver :: "'db driver"

record 'db moment =
  mo_db :: 'db
  mo_stats :: stats
  mo_zone :: zone
  mo_now :: instant
  mo_world :: "'db world"

datatype service_reply =
    ApiReply reply
  | TextReply text_reply
  | PublicPage "string + string"
  | DashboardReply page_response
  | LiveReply live_reply
  | StaticFile string
  | NotRouted

definition serve_landing :: "'db environment \<Rightarrow> landing_server \<Rightarrow> http_request \<Rightarrow> service_reply" where
  "serve_landing env s rq =
     (case env_mux env (map (\<lambda>(p, page). (landing_method page, p)) Landing_Handler) (ht_method rq) (ht_path rq) of
        None \<Rightarrow> NotRouted
      | Some i \<Rightarrow>
          (case snd (Landing_Handler ! i) of
             LandingPage \<Rightarrow> PublicPage (render (env_templ env) (Landing (build (env_comma env) s (ht_page rq))) [])
           | ArticlePage \<Rightarrow> PublicPage (render (env_templ env) (Article (buildArticle s (ht_page rq))) [])
           | RobotsTxt \<Rightarrow> TextReply (handleRobots (ht_page rq))
           | SitemapXml \<Rightarrow> TextReply (handleSitemap (ht_page rq))
           | LLMsTxt \<Rightarrow> TextReply (handleLLMs (env_comma env) s (ht_page rq))
           | AssetFile \<Rightarrow> StaticFile (TrimPrefix (ht_path rq) ''/assets/'')))"

text \<open>The path below the mount point, which the dashboard's router works on.\<close>

definition mounted_path :: "string \<Rightarrow> string" where
  "mounted_path path = (let rest = drop (length BasePath) path in if rest = '''' then ''/'' else rest)"

definition serve_dashboard :: "'db environment \<Rightarrow> string \<Rightarrow> 'db moment \<Rightarrow> http_request \<Rightarrow> service_reply" where
  "serve_dashboard env model m rq =
     (let path = mounted_path (ht_path rq);
          listed = ListKeys (env_driver env) (mo_db m); sumf = SumTokens (env_driver env) (mo_db m)
      in case env_mux env (map (\<lambda>(me, p, page). (me, p)) Server_Handler) (ht_method rq) path of
           None \<Rightarrow> NotRouted
         | Some i \<Rightarrow>
             (case Server_Handler ! i of (me, p, page) \<Rightarrow>
               (case page of
                  IndexPage \<Rightarrow> DashboardReply (write_page (env_templ env) (handleIndex (env_comma env) (env_tenths env) model listed (mo_stats m)))
                | KeyPage \<Rightarrow> DashboardReply (write_page (env_templ env) (handleKeyPage (env_comma env) (env_tenths env) model listed sumf
                    (mo_stats m) (mo_zone m) (mo_now m) (path_param p path)))
                | KeyLive \<Rightarrow> LiveReply (open_live (ByID (env_driver env) (mo_db m)) listed sumf (mo_zone m) (mo_now m)
                    (path_param p path))
                | DashboardAsset \<Rightarrow> StaticFile (TrimPrefix (ht_path rq) (BasePath @ ''/assets/'')))))"

text \<open>The guards in turn: each answers the request or passes it on, with the key in its context.\<close>

fun pass_guards ::
    "'db environment \<Rightarrow> 'db \<Rightarrow> http_request \<Rightarrow> guard list \<Rightarrow> request \<Rightarrow> service_reply + request" where
  "pass_guards env db rq [] r = Inr r"
| "pass_guards env db rq (BearerGuard # gs) r =
     (case BearerAuth (env_sha256 env) (ByHash (env_driver env) db) (ht_authorization rq) of
        Rejected rp \<Rightarrow> Inl (ApiReply rp)
      | Passed k \<Rightarrow> pass_guards env db rq gs (WithAPIKey r k))"
| "pass_guards env db rq (BasicGuard user password # gs) r =
     (case BasicAuth (env_sha256 env) user password (ht_basic rq) of
        Some t \<Rightarrow> Inl (TextReply t)
      | None \<Rightarrow> pass_guards env db rq gs r)"

definition dispatch ::
    "'db environment \<Rightarrow> 'db booted \<Rightarrow> 'db moment \<Rightarrow> http_request \<Rightarrow> service_reply \<times> 'db effect list" where
  "dispatch env b m rq =
     (let routes = srv_routes (bt_server b)
      in case env_mux env (map (\<lambda>rt. (rt_method rt, rt_path rt)) routes) (ht_method rq) (ht_path rq) of
           None \<Rightarrow> (NotRouted, [])
         | Some i \<Rightarrow>
             (case pass_guards env (mo_db m) rq (rt_guards (routes ! i)) (api_request rq) of
                Inl rp \<Rightarrow> (rp, [])
              | Inr r \<Rightarrow>
                  (case rt_target (routes ! i) of
                     Healthz \<Rightarrow> (TextReply healthz, [])
                   | EmbeddingsAPI \<Rightarrow>
                       (let (rp, effs) = Embeddings (bt_handler b) (Record (env_driver env)) (mo_world m) r
                        in (ApiReply rp, effs))
                   | LandingSite \<Rightarrow> (serve_landing env (bt_landing b) rq, [])
                   | DashboardUI \<Rightarrow> (serve_dashboard env (EmbedModel (bt_config b)) m rq, []))))"

section \<open>What the routes lead to\<close>

lemma routes_cases:
  assumes "rt \<in> set (Router_Handler (wire_router cfg))"
  obtains "rt_target rt = Healthz" "rt_guards rt = []"
  | "rt_target rt = EmbeddingsAPI" "rt_guards rt = [BearerGuard]" "rt_method rt = Some ''POST''"
    "rt_path rt = Exact ''/v1/embeddings'' \<or> rt_path rt = Exact ''/api/embed''"
  | "rt_target rt = LandingSite" "rt_guards rt = []"
  | "rt_target rt = DashboardUI" "rt_path rt = Under BasePath" "Password (ConfigDashboard cfg) \<noteq> ''''"
    "rt_guards rt = [BasicGuard (User (ConfigDashboard cfg)) (Password (ConfigDashboard cfg))]"
  using assms by (auto simp: Router_Handler_def wire_router_def Enabled_def split: if_splits)

lemma wire_routes: "wire parse_url cfg db = Inr b \<Longrightarrow> srv_routes (bt_server b) = Router_Handler (wire_router cfg)"
  by (auto simp: wire_def Let_def split: sum.splits)

text \<open>What the handler does for a request with the key \<open>k\<close> in its context.\<close>

lemma Embeddings_for_key:
  assumes "APIKeyFrom r = Some k"
  shows "Send p body \<in> set (snd (Embeddings h rec w r)) \<Longrightarrow>
      p = req_path r \<and> body = req_body r \<and> in_quota w k \<and> in_budget w k"
    and "Store ev db \<in> set (snd (Embeddings h rec w r)) \<Longrightarrow>
      APIKeyID ev = ID k \<and> (\<exists>p body. Send p body \<in> set (snd (Embeddings h rec w r)))"
proof -
  have key: "key = k" if "well_formed h r key n" for key n
    using that assms by (simp add: well_formed_def APIKeyFrom_def)
  show "Send p body \<in> set (snd (Embeddings h rec w r)) \<Longrightarrow>
      p = req_path r \<and> body = req_body r \<and> in_quota w k \<and> in_budget w k"
    by (cases rule: Embeddings_cases [of h rec w r]) (auto simp: Let_def dest: key)
  show "Store ev db \<in> set (snd (Embeddings h rec w r)) \<Longrightarrow>
      APIKeyID ev = ID k \<and> (\<exists>p body. Send p body \<in> set (snd (Embeddings h rec w r)))"
    by (cases rule: Embeddings_cases [of h rec w r])
      (auto simp: Let_def usage_event_of_def dest: key split: if_splits)
qed

definition live_bearer :: "(string \<Rightarrow> string) \<Rightarrow> apikey list \<Rightarrow> string \<Rightarrow> apikey \<Rightarrow> bool" where
  "live_bearer sha256 ks header k \<longleftrightarrow> k \<in> set ks \<and> \<not> IsRevoked k \<and> bearerToken header \<noteq> '''' \<and>
     KeyHash k = HashKey sha256 (bearerToken header)"

lemma Passed_live:
  assumes "sql_driver g K E" "BearerAuth sha256 (ByHash g db) header = Passed k"
  shows "live_bearer sha256 (K db) header k"
proof -
  from assms(2) have b: "ByHash g db (HashKey sha256 (bearerToken header)) = Inr k" "\<not> IsRevoked k" "bearerToken header \<noteq> ''''"
    by (auto simp: BearerAuth_def Let_def split: sum.splits repo_error.splits if_splits)
  with sql_driver.ByHash_Inr [OF assms(1) b(1)] show ?thesis by (auto simp: live_bearer_def find_Some_iff)
qed

lemma in_budget_spent:
  assumes "sql_driver g K E" "w_sum w = SumTokens g db" "in_budget w k"
  shows "IsUnlimited k \<or>
    spent_in (E db) (ID k) (\<lambda>t. period_start (w_zone w) (w_status_now w) k \<le> t \<and> t < w_status_now w) < TokenBudget k"
  using assms sql_driver.SumTokens_exact [OF assms(1)] by (fastforce simp: in_budget_def spent_in_def)

fun shows_keys :: "service_reply \<Rightarrow> bool" where
  "shows_keys (DashboardReply d) = True"
| "shows_keys (LiveReply l) = True"
| "shows_keys _ = False"

lemma landing_shows_nothing: "\<not> shows_keys (serve_landing env s rq)"
  by (simp add: serve_landing_def split: option.split page_id.split)

text \<open>A request that the Bearer guard let through spends and is accounted on that guard's key.\<close>

lemma bearer_spends:
  assumes "sql_driver g K E" "w_sum w = SumTokens g db1" "BearerAuth sha256 (ByHash g db) (ht_authorization rq) = Passed k"
    and "effs = snd (Embeddings h rec w (WithAPIKey (api_request rq) k))"
  shows "live_bearer sha256 (K db) (ht_authorization rq) k \<and>
    (\<forall>p body. Send p body \<in> set effs \<longrightarrow> p = ht_path rq \<and> body = ht_body rq \<and> in_quota w k \<and>
      (IsUnlimited k \<or> spent_in (E db1) (ID k) (\<lambda>t. period_start (w_zone w) (w_status_now w) k \<le> t
         \<and> t < w_status_now w) < TokenBudget k)) \<and>
    (\<forall>ev db2. Store ev db2 \<in> set effs \<longrightarrow> APIKeyID ev = ID k \<and> (\<exists>p body. Send p body \<in> set effs))"
proof -
  let ?r = "WithAPIKey (api_request rq) k"
  have r: "APIKeyFrom ?r = Some k" "req_path ?r = ht_path rq" "req_body ?r = ht_body rq"
    by (simp_all add: APIKeyFrom_def WithAPIKey_def api_request_def)
  note does = Embeddings_for_key [OF r(1), of _ _ h rec w, folded assms(4), unfolded r(2,3)]
  show ?thesis
    using Passed_live [OF assms(1,3)]
      does(1) [THEN conjunct2, THEN conjunct2, THEN conjunct2, THEN in_budget_spent [OF assms(1,2)]]
    by (intro conjI allI impI) (use does in \<open>blast+\<close>)
qed

section \<open>Property\<close>

text \<open>C1: nothing is spent and nothing is shown without a credential. Whatever request arrives at the
  gateway as it was configured, if it is charged to a rate, sent to a backend or accounted, it
  is a POST to one of the two embedding routes, its token is that of an unrevoked stored key,
  what was sent is its own path and body, within the quota and the recorded budget of that very key,
  and what was accounted is that key's and was sent; and a page of keys is only ever
  shown under the dashboard's path to the configured, non-empty password.\<close>

theorem service_guarded:
  assumes "router_mux (env_mux env)" and "sql_driver (env_driver env) K E" and "wire parse_url cfg db0 = Inr b"
    and "w_sum (mo_world m) = SumTokens (env_driver env) db1"
    and "dispatch env b m rq = (rp, effs)"
  shows "(effs \<noteq> [] \<longrightarrow> ht_method rq = ''POST'' \<and> ht_path rq \<in> {''/v1/embeddings'', ''/api/embed''} \<and>
      (\<exists>k. live_bearer (env_sha256 env) (K (mo_db m)) (ht_authorization rq) k \<and>
        (\<forall>p body. Send p body \<in> set effs \<longrightarrow> p = ht_path rq \<and> body = ht_body rq \<and> in_quota (mo_world m) k \<and>
          (IsUnlimited k \<or> spent_in (E db1) (ID k) (\<lambda>t. period_start (w_zone (mo_world m)) (w_status_now (mo_world m)) k \<le> t
             \<and> t < w_status_now (mo_world m)) < TokenBudget k)) \<and>
        (\<forall>ev db2. Store ev db2 \<in> set effs \<longrightarrow> APIKeyID ev = ID k \<and> (\<exists>p body. Send p body \<in> set effs)))) \<and>
    (shows_keys rp \<longrightarrow> HasPrefix (ht_path rq) BasePath \<and> Password (ConfigDashboard cfg) \<noteq> '''' \<and>
      (\<exists>u pw. ht_basic rq = Some (u, pw) \<and> env_sha256 env u = env_sha256 env (User (ConfigDashboard cfg)) \<and>
        env_sha256 env pw = env_sha256 env (Password (ConfigDashboard cfg))))"
proof (cases "env_mux env (map (\<lambda>rt. (rt_method rt, rt_path rt)) (srv_routes (bt_server b))) (ht_method rq) (ht_path rq)")
  case None
  then show ?thesis using assms(5) by (auto simp: dispatch_def Let_def)
next
  case (Some i)
  let ?rt = "srv_routes (bt_server b) ! i"
  have fit: "?rt \<in> set (Router_Handler (wire_router cfg))" "fits (ht_method rq) (ht_path rq) (rt_method ?rt, rt_path ?rt)"
    using router_mux.picked_fits [OF assms(1) Some] wire_routes [OF assms(3)] by simp_all
  note d = assms(5) [unfolded dispatch_def Let_def Some option.case]
  from fit(1) show ?thesis
  proof (cases rule: routes_cases)
    case 1
    with d show ?thesis by auto
  next
    case 2
    show ?thesis
    proof (cases "BearerAuth (env_sha256 env) (ByHash (env_driver env) (mo_db m)) (ht_authorization rq)")
      case (Rejected e)
      with d 2 show ?thesis by auto
    next
      case (Passed k)
      have e: "effs = snd (Embeddings (bt_handler b) (Record (env_driver env)) (mo_world m) (WithAPIKey (api_request rq) k))"
        "\<not> shows_keys rp"
        using d 2 Passed by (auto split: prod.splits)
      have "ht_method rq = ''POST''" "ht_path rq \<in> {''/v1/embeddings'', ''/api/embed''}" using fit(2) 2 by auto
      with bearer_spends [OF assms(2,4) Passed e(1)] e(2) show ?thesis
        by (intro conjI impI exI [of _ k]) simp_all
    qed
  next
    case 3
    with d landing_shows_nothing [of env "bt_landing b" rq] show ?thesis by auto
  next
    case 4
    with d fit(2) show ?thesis by (auto simp: BasicAuth_def Let_def split: option.splits if_splits)
  qed
qed

text \<open>A client with a token and a budget, and a backend that answers.\<close>

definition token_env :: "mem_db environment" where
  "token_env =
     \<lparr>env_mux = first_fit, env_sha256 = id, env_comma = Itoa, env_tenths = Itoa, env_templ = html_runtime,
      env_driver = mem_driver\<rparr>"

definition token_moment :: "mem_db moment" where
  "token_moment =
     \<lparr>mo_db = token_db, mo_stats = the (Stats [] 7 demo_queue), mo_zone = UTC, mo_now = 7,
      mo_world = (fresh_world token_db)
        \<lparr>w_sum := SumTokens mem_driver token_db, w_status_now := 7, w_admitted := True,
         w_client := (\<lambda>url body. Inr \<lparr>hr_status = 200, hr_content_type = '''', hr_stream = ''{}'', hr_broken = False\<rparr>)\<rparr>\<rparr>"

definition token_request :: http_request where
  "token_request =
     \<lparr>ht_method = ''POST'', ht_path = ''/v1/embeddings'', ht_authorization = ''bearer t '', ht_basic = None,
      ht_page = \<lparr>pr_tls = True, pr_forwarded_proto = '''', pr_host = ''h''\<rparr>,
      ht_body = lt ''{~qinput~q:~qa~q}'', ht_broken = False\<rparr>"

lemma token_sent:
  "list_ex is_send (snd (Embeddings (NewHandler (CaddyUpstreamURL demo_config) (EmbedModel demo_config)) (Record mem_driver)
     (mo_world token_moment) (WithAPIKey (api_request token_request) token_key)))"
  by code_simp

lemma token_dispatched:
  assumes "wire sample_url demo_config token_db = Inr b"
  shows "\<exists>rp effs. dispatch token_env b token_moment token_request = (rp, effs) \<and> list_ex is_send effs"
proof -
  have h: "bt_handler b = NewHandler (CaddyUpstreamURL demo_config) (EmbedModel demo_config)"
    using assms by (auto simp: wire_def Let_def split: sum.splits)
  let ?rs = "Router_Handler (wire_router demo_config)"
  have i: "first_fit (map (\<lambda>rt. (rt_method rt, rt_path rt)) ?rs) ''POST'' ''/v1/embeddings'' = Some (Suc 0)"
    "rt_guards (?rs ! Suc 0) = [BearerGuard]" "rt_target (?rs ! Suc 0) = EmbeddingsAPI"
    by (simp_all add: Router_Handler_def)
  have "pass_guards token_env token_db token_request [BearerGuard] r = Inr (WithAPIKey r token_key)" for r
    using token_passes by (simp add: token_env_def token_request_def)
  moreover have "env_mux token_env = first_fit" "env_driver token_env = mem_driver" "mo_db token_moment = token_db"
    "ht_method token_request = ''POST''" "ht_path token_request = ''/v1/embeddings''"
    by (simp_all add: token_env_def token_moment_def token_request_def)
  ultimately show ?thesis
    using token_sent by (auto simp: dispatch_def Let_def wire_routes [OF assms] i h del: pass_guards.simps split: prod.split prod.split_asm)
qed

theorem service_guarded_witness:
  "\<exists>b rp effs k p body. wire sample_url demo_config token_db = Inr b \<and>
     dispatch token_env b token_moment token_request = (rp, effs) \<and> Send p body \<in> set effs \<and>
     p = ''/v1/embeddings'' \<and> body = ht_body token_request \<and> live_bearer id [token_key] ''bearer t '' k"
proof -
  obtain b where b: "wire sample_url demo_config token_db = Inr b"
    using wire_loaded [OF Load_validates [OF demo_load]] by metis
  obtain rp effs where d: "dispatch token_env b token_moment token_request = (rp, effs)" "list_ex is_send effs"
    using token_dispatched [OF b] by blast
  then obtain p body where s: "Send p body \<in> set effs" by (auto simp: list_ex_iff elim: is_sendE)
  have "router_mux (env_mux token_env)" "sql_driver (env_driver token_env) mem_keys mem_events"
    "w_sum (mo_world token_moment) = SumTokens (env_driver token_env) token_db"
    by (simp_all add: token_env_def token_moment_def first.router_mux_axioms mem.sql_driver_axioms)
  from service_guarded [OF this(1,2) b this(3) d(1)] s
  have "ht_path token_request = p \<and> body = ht_body token_request \<and>
      (\<exists>k. live_bearer (env_sha256 token_env) (mem_keys (mo_db token_moment)) (ht_authorization token_request) k)"
    by fastforce
  then have "p = ''/v1/embeddings''" "body = ht_body token_request" "\<exists>k. live_bearer id [token_key] ''bearer t '' k"
    by (simp_all add: token_env_def token_moment_def token_request_def token_db_def)
  with b d(1) s show ?thesis by blast
qed

end
