(* ===== verification/Spec2Isabelle.thy ===== *)
theory Spec2Isabelle
  imports Templates Console Service
begin

text \<open>
  \<^bold>\<open>A verification library for the ragembed gateway.\<close>

  The program is an authenticating, metering proxy in front of a pool of embedding backends. A
  client presents an API key and a JSON body; the gateway resolves the key, checks the body
  against the key's batch limit, counts the request against its rate, its spend against its budget,
  waits for one of a few slots of the pool, sends the client's own bytes upstream, relays the
  answer and stores what it cost. Operators issue and retune keys on a command line and watch
  them on a dashboard that is repainted live; the public sees a landing page and an article
  whose figures come from the configuration that is enforced.

  \<^bold>\<open>Reading conventions.\<close> Definitions keep the names of the code, with a suffix or a prefix
  where HOL or another theory has the name already (record fields carry a prefix per record). Go's
  64-bit integers are the mathematical integer they denote; where an operation can leave the
  range the wrap-around is written out (\<open>i64\<close>, \<open>u64\<close> in Prelude). Strings are
  bytes. An error, a panic or an early return is a value: a sum with the error on the left, or
  None. Time is an argument, in nanoseconds since Go's zero time. What is not under src/ is an
  argument of the definitions that use it; what the proofs need of it is a locale's
  assumption or a named hypothesis.

  \<^bold>\<open>The domain.\<close>
  \<^item> Prelude: integers, instants, list and map facts, the collection \<open>codec\<close> of facts that
    evaluate definitions on concrete inputs. Text: decimal printing and parsing, trimming.
    Calendar: the proleptic Gregorian calendar, \<open>Date\<close>, \<open>AddDate\<close> and weekdays, with a
    location as an offset function; dates are a linear order.
  \<^item> Apikey (internal/domain/apikey/apikey.go): the key, its \<open>Limits\<close> with their validation,
    \<open>Generate\<close> and \<open>HashKey\<close>; SHA-256 and the random source are arguments.
  \<^item> Usage (internal/domain/usage/usage.go): events, the five reporting windows, \<open>BuildReport\<close>.
    The lemmas show how the windows nest and that a report's entries are sums over them.
  \<^item> Store (internal/platform/database/apikey_repo.go, usage_repo.go): every repository operation over
    a \<open>driver\<close> of statements. Locale \<open>sql_driver\<close> says that a statement which succeeds has its
    SQL meaning on the two tables and that any statement may fail; \<open>mem_driver\<close>, an
    in-memory database, interprets it. Database (database.go): opening, migrating, and their
    errors.
  \<^item> Budget (internal/budget/budget.go): the checker over locale \<open>token_summer\<close>, which a lawful
    driver gives by sublocale; exhaustion is exactly that the recorded tokens of the key's
    own period reach its budget.
  \<^item> RateLimit (internal/ratelimit/ratelimit.go): the fixed-window limiter, one atomic step per call.
    Locale \<open>rate_limiter\<close> is what any limiter promises, \<open>fixed_window\<close> extends it by when windows
    open; inside it, the quota of a window and the ledger \<open>paced\<close> of a key's grants are
    proved once. Both are interpreted on \<open>Allow\<close>.

  \<^bold>\<open>Admission.\<close>
  \<^item> Queue (internal/queue/queue.go): one definition per critical section of the mutex. Go's
    iteration order over the class map is an argument, any enumeration of the classes, and the nil
    dereference an empty class would cause is None. The lemmas are the structural invariant
    and what each section does to it.
  \<^item> QueueRun: the goroutines that call \<open>Acquire\<close> and release, as a step relation \<open>run\<close> over
    the phases of requests. Admission: what holds in every reachable state. Owned and free slots
    make up the capacity, nobody overtakes within a class, a handover refines an abstract choice
    by priority and age, an aged waiter and a top-priority waiter are served within a stated
    number of grants, a cancellation that lost its race passes the slot on, and no step panics.

  \<^bold>\<open>The request path.\<close>
  \<^item> Json and JsonText: documents, the decoder's tokens, and the text itself: the scanner's grammar,
    string escapes with surrogates and invalid UTF-8, the writer's escapes; what is written is read
    back. The parser's fuel is the length of the text for elements, and its nesting limit is
    the library's own constant of 10000, so fuel never decides an answer.
  \<^item> Embeddings (internal/proxy/embeddings.go): counting inputs on the token stream with its early
    exits, and the billed tokens of an answer. Handler (handler.go, forwarder.go): the checks, the
    forwarder with its cap of bytes, and \<open>Handler.Embeddings\<close> as a function from what each
    stage reads to the reply and its effects in order. Wire: the bytes of errors, of bodies
    clients marshal and of answers. HttpApi (internal/httpapi): both authentications and the routes.
  \<^item> Gateway and GatewayRun: any number of requests inside the handler at once, sharing limiter,
    database and queue, one access to shared state per step. Every reply is the one the handler
    function gives for what the request read; upstream calls never exceed the slots; a request
    takes at most nine steps and every run can be finished; a budget is overshot by no more
    than what is recorded for the requests already past their check. Clocks never go back, and in
    the statement on overshot budgets they move on with every step. Pacing: the requests past the
    limiter are a ledger of its contract, so no minute exceeds twice a key's rate, however requests
    interleave and wait.

  \<^bold>\<open>What people see.\<close>
  \<^item> View and Stream (internal/web/view.go, server.go): the dashboard's projections and handlers, and
    the loop of the live stream with its throttled repaints. Live and LiveRun (internal/live): hub,
    actors, viewers and recorder over an explicit heap of goroutines, with events as one critical
    section, one send or one case of a \<open>select\<close> (a call of \<open>Publish\<close> is two, the lookup and the
    send); who has an actor, what a viewer has seen, what the read
    model contains, and what becomes of viewers whose actor has returned. Dashboard: what the page
    handlers write, with its status; they panic for a row with a budget of zero only.
  \<^item> Plan and Public (internal/web/plan.go, landing.go, article.go, discovery.go): the offer, the pages'
    view models, their structured data as JSON text, the crawlers' files.
  \<^item> Markup: a template as the list of writes of the generated code, their rendering by the templ
    library (locale \<open>templ_runtime\<close>, interpreted on an escaper), a scanner of HTML, and a
    checker that follows a template without knowing the texts in it, proved sound. Templates and
    PublicTemplates (internal/web/*_templ.go): every component write by write; no text breaks the markup,
    every patch of the stream finds exactly one element, structured and visible data agree.

  \<^bold>\<open>Programs.\<close>
  \<^item> Config (internal/config/config.go): resolution from the environment and validation. Boot
    (cmd/gateway/main.go): what \<open>run\<close> builds, in which order, and how it ends.
  \<^item> Service: the whole path of a request the server accepts, through the routers of
    internal/httpapi/router.go, internal/web/server.go and landing.go, the guards, the context of
    internal/proxy/context.go and the handlers, down to reply and effects. Which pattern chi picks is
    an argument under locale \<open>router_mux\<close> (what it picks matches), interpreted on the first fit.
  \<^item> Ragctl and Console (cmd/ragctl/main.go): the four commands, what they print and their exit
    status, with the columns of the listing.

  \<^bold>\<open>How the parts rest on each other.\<close> The budget checker, the report and the dashboard's panel
  rest on \<open>token_summer\<close>; the repositories over any lawful driver provide it, so they
  agree on what a key has spent. The handler's rate check and the pacing of the gateway rest on the
  limiter's contract, and the pages on that of the templ library; the gateway's
  invariant is the product of the admission invariant and of one clause per request that
  ties its stage to its phase in the queue. The boot theorem puts the validated configuration under
  the gateway's bound. Properties are numbered C1, C2, ... in the texts before them; a property
  with hypotheses is followed by its application to a concrete input.

  \<^bold>\<open>Not modelled.\<close> What gorm, goose and SQLite do, and the SQL of the migrations: arguments under
  the laws named above. chi's path matching, its request ids and its panic recovery; http.Server's
  listener, deadlines and Shutdown, which are events; the HTTP client, the flag parser,
  godotenv, the parsers of durations and URLs, the thousands separators and decimal floats of
  the labels, SHA-256 and the random source, which are arguments. The wire format of server-sent
  events, static assets and logging. Time zones are offset functions, and the statements on
  calendar windows are for fixed offsets. Vertical tabs and form feeds in the tabular output. embed.go
  and doc.go hold no operation.
\<close>

end
